(* ===== verification/Prelude.thy ===== *)
theory Prelude
  imports Main "HOL-Library.Word"
begin

text \<open>
  Shared vocabulary of the development: the machine integer types of the C and C++ sources, the
  byte lists that stand for the memory behind a pointer, bounded writes into such a memory, the
  big-endian and little-endian splits of an integer, and a few list facts.

  Conventions. A pointer argument that may be NULL is an \<^verbatim>\<open>option\<close>; a non-NULL pointer is the byte
  list from the pointed-to address to the end of its object, so pointer arithmetic is
  \<^verbatim>\<open>drop\<close>. \<^verbatim>\<open>size_t\<close> values are naturals, with the reduction modulo 2^64 written out where the
  source computes with a size before it has bounded it.
\<close>

type_synonym u8 = "8 word"
type_synonym u16 = "16 word"
type_synonym u32 = "32 word"
type_synonym u64 = "64 word"
type_synonym bytes = "u8 list"

named_theorems codec_simps "accessors of the wire formats in terms of the shared byte lists"

abbreviation size_max :: nat where "size_max \<equiv> 2 ^ 64"

section \<open>Bounded writes\<close>

definition put :: "'a list \<Rightarrow> nat \<Rightarrow> 'a list \<Rightarrow> 'a list" where
  "put buf off xs = take off buf @ xs @ drop (off + length xs) buf"

lemma length_put [simp]:
  "off + length xs \<le> length buf \<Longrightarrow> length (put buf off xs) = length buf"
  by (simp add: put_def)

lemma nth_put:
  assumes "off + length xs \<le> length buf" "i < length buf"
  shows "put buf off xs ! i =
    (if off \<le> i \<and> i < off + length xs then xs ! (i - off) else buf ! i)"
  using assms by (auto simp: put_def nth_append min_def)

lemma nth_put_in [simp]:
  "off + length xs \<le> length buf \<Longrightarrow> off \<le> i \<Longrightarrow> i < off + length xs \<Longrightarrow>
    put buf off xs ! i = xs ! (i - off)"
  by (simp add: nth_put)

lemma nth_put_out [simp]:
  "off + length xs \<le> length buf \<Longrightarrow> i < length buf \<Longrightarrow> i < off \<or> off + length xs \<le> i \<Longrightarrow>
    put buf off xs ! i = buf ! i"
  by (auto simp: nth_put)

lemma put_Nil [simp]: "put buf off [] = buf"
  by (simp add: put_def)

lemma take_drop_put_same [simp]:
  "off + length xs \<le> length buf \<Longrightarrow> n = length xs \<Longrightarrow> take n (drop off (put buf off xs)) = xs"
  by (simp add: put_def)

lemma take_put_below [simp]:
  "off + length xs \<le> length buf \<Longrightarrow> n \<le> off \<Longrightarrow> take n (put buf off xs) = take n buf"
  by (simp add: put_def min_def)

lemma drop_put_above [simp]:
  "off + length xs \<le> length buf \<Longrightarrow> off + length xs \<le> n \<Longrightarrow> drop n (put buf off xs) = drop n buf"
  by (simp add: put_def)

lemma put_put_adjacent:
  assumes "off + length xs + length ys \<le> length buf" "o2 = off + length xs"
  shows "put (put buf off xs) o2 ys = put buf off (xs @ ys)"
  using assms by (intro nth_equalityI) (auto simp: nth_put nth_append)

lemma put_put_inside:
  assumes "off + length xs \<le> length buf" "off \<le> o2" "o2 + length ys \<le> off + length xs"
  shows "put (put buf off xs) o2 ys = put buf off (put xs (o2 - off) ys)"
  using assms by (intro nth_equalityI) (auto simp: nth_put)

lemma take_put_0:
  "n = length xs \<Longrightarrow> n \<le> length buf \<Longrightarrow> take n (put buf 0 xs) = xs"
  by (simp add: put_def)

lemma put_append_exact:
  "length pre = off \<Longrightarrow> length xs \<le> length rest \<Longrightarrow>
    put (pre @ rest) off xs = pre @ xs @ drop (length xs) rest"
  by (simp add: put_def)

lemma list_update_put: "i < length xs \<Longrightarrow> xs[i := x] = put xs i [x]"
  by (simp add: put_def upd_conv_take_nth_drop)

text \<open>A buffer whose start has been cleared and is being filled from the left.\<close>

definition filled :: "'a list \<Rightarrow> 'a list \<Rightarrow> nat \<Rightarrow> 'a \<Rightarrow> 'a list" where
  "filled buf xs n z = put buf 0 (xs @ replicate n z)"

lemma length_filled [simp]:
  "length xs + n \<le> length buf \<Longrightarrow> length (filled buf xs n z) = length buf"
  by (simp add: filled_def)

lemma put_filled:
  assumes "length xs = k" "length ys \<le> n" "k + n \<le> length buf"
  shows "put (filled buf xs n z) k ys = filled buf (xs @ ys) (n - length ys) z"
  using assms
  by (intro nth_equalityI) (auto simp: filled_def nth_put nth_append)

lemma update_filled:
  assumes "length xs = k" "0 < n" "k + n \<le> length buf"
  shows "(filled buf xs n z)[k := y] = filled buf (xs @ [y]) (n - 1) z"
  using assms put_filled [of xs k "[y]" n buf z] by (simp add: list_update_put)

lemma filled_0: "filled buf xs 0 z = put buf 0 xs"
  by (simp add: filled_def)

lemma filled_skip:
  "m \<le> n \<Longrightarrow> filled buf xs n z = filled buf (xs @ replicate m z) (n - m) z"
  by (simp add: filled_def replicate_add [symmetric])

section \<open>Integers as bytes\<close>

definition be16 :: "u16 \<Rightarrow> bytes" where
  "be16 v = [ucast (drop_bit 8 v), ucast v]"

definition be32 :: "u32 \<Rightarrow> bytes" where
  "be32 v = [ucast (drop_bit 24 v), ucast (drop_bit 16 v), ucast (drop_bit 8 v), ucast v]"

definition from_be16 :: "bytes \<Rightarrow> u16" where
  "from_be16 p = or (push_bit 8 (ucast (p ! 0))) (ucast (p ! 1))"

definition from_be32 :: "bytes \<Rightarrow> u32" where
  "from_be32 p = or (or (or (push_bit 24 (ucast (p ! 0))) (push_bit 16 (ucast (p ! 1))))
     (push_bit 8 (ucast (p ! 2)))) (ucast (p ! 3))"

lemma length_be [simp]: "length (be16 v) = 2" "length (be32 w) = 4"
  by (simp_all add: be16_def be32_def)

lemma bit_u8_out: "8 \<le> n \<Longrightarrow> \<not> bit (b :: u8) n"
  using bit_imp_le_length [of b n] by auto

lemma join16:
  fixes v :: u16
  shows "or (push_bit 8 (ucast (ucast (drop_bit 8 v) :: u8))) (ucast (ucast v :: u8)) = v"
  by (rule bit_word_eqI) (auto simp: bit_simps not_le not_less)

lemma join32:
  fixes v :: u32
  shows "or (or (or (push_bit 24 (ucast (ucast (drop_bit 24 v) :: u8)))
      (push_bit 16 (ucast (ucast (drop_bit 16 v) :: u8))))
      (push_bit 8 (ucast (ucast (drop_bit 8 v) :: u8)))) (ucast (ucast v :: u8)) = v"
proof (rule bit_word_eqI)
  fix n assume "n < LENGTH(32)"
  then show "bit (or (or (or (push_bit 24 (ucast (ucast (drop_bit 24 v) :: u8)))
      (push_bit 16 (ucast (ucast (drop_bit 16 v) :: u8))))
      (push_bit 8 (ucast (ucast (drop_bit 8 v) :: u8)))) (ucast (ucast v :: u8)) :: u32) n = bit v n"
    by (cases "n < 8"; cases "n < 16"; cases "n < 24") (auto simp: bit_simps not_le not_less)
qed

lemma join64:
  fixes v :: u64
  shows "or (push_bit 32 (ucast (ucast (drop_bit 32 v) :: u32))) (ucast (ucast v :: u32)) = v"
  by (rule bit_word_eqI) (auto simp: bit_simps not_le not_less)

lemma split16:
  fixes a b :: u8
  shows "ucast (drop_bit 8 (or (push_bit 8 (ucast a)) (ucast b) :: u16)) = a"
    "ucast (or (push_bit 8 (ucast a)) (ucast b) :: u16) = b"
  by (auto intro!: bit_word_eqI simp: bit_simps bit_u8_out)

lemma split32:
  fixes a b c d :: u8
  defines "w \<equiv> (or (or (or (push_bit 24 (ucast a)) (push_bit 16 (ucast b)))
     (push_bit 8 (ucast c))) (ucast d) :: u32)"
  shows "ucast (drop_bit 24 w) = a" "ucast (drop_bit 16 w) = b" "ucast (drop_bit 8 w) = c"
    "ucast w = d"
  unfolding w_def by (auto intro!: bit_word_eqI simp: bit_simps bit_u8_out)

lemma be16_from_be16 [simp]: "2 \<le> length p \<Longrightarrow> be16 (from_be16 p) = take 2 p"
  by (cases p; cases "tl p") (auto simp: from_be16_def be16_def split16 simp del: drop_bit_or)

lemma be32_from_be32 [simp]: "4 \<le> length p \<Longrightarrow> be32 (from_be32 p) = take 4 p"
  by (cases p; cases "tl p"; cases "tl (tl p)"; cases "tl (tl (tl p))")
    (auto simp: from_be32_def be32_def split32 simp del: drop_bit_or)

lemma take_drop_join: "m = k + n \<Longrightarrow> take n (drop k xs) @ drop m xs = drop k xs"
  by (metis append_take_drop_id drop_drop add.commute)

lemma take_take_join:
  "m = k + n \<Longrightarrow> take n (drop k xs) @ take l (drop m xs) = take (n + l) (drop k xs)"
  using take_add [of n l "drop k xs"] by (simp add: add.commute)

lemma length_concat_be32 [simp]: "length (concat (map be32 xs)) = 4 * length xs"
  by (induction xs) auto

lemma from_be16_be16 [simp]: "from_be16 (be16 v @ r) = v"
  by (simp add: from_be16_def be16_def join16)

lemma from_be32_be32 [simp]: "from_be32 (be32 v @ r) = v"
  by (simp add: from_be32_def be32_def join32)

lemma from_be_be [simp]: "from_be16 (be16 v) = v" "from_be32 (be32 w) = w"
  using from_be16_be16 [of v "[]"] from_be32_be32 [of w "[]"] by simp_all

section \<open>Little-endian memory images\<close>

definition le16 :: "u16 \<Rightarrow> bytes" where
  "le16 v = [ucast v, ucast (drop_bit 8 v)]"

definition le32 :: "u32 \<Rightarrow> bytes" where
  "le32 v = [ucast v, ucast (drop_bit 8 v), ucast (drop_bit 16 v), ucast (drop_bit 24 v)]"

definition from_le16 :: "bytes \<Rightarrow> u16" where
  "from_le16 p = or (push_bit 8 (ucast (p ! 1))) (ucast (p ! 0))"

definition from_le32 :: "bytes \<Rightarrow> u32" where
  "from_le32 p = or (or (or (push_bit 24 (ucast (p ! 3))) (push_bit 16 (ucast (p ! 2))))
     (push_bit 8 (ucast (p ! 1)))) (ucast (p ! 0))"

lemma length_le [simp]: "length (le16 v) = 2" "length (le32 w) = 4"
  by (simp_all add: le16_def le32_def)

lemma from_le_le [simp]:
  "from_le16 (le16 v @ r) = v" "from_le32 (le32 w @ r) = w"
  "from_le16 (le16 v) = v" "from_le32 (le32 w) = w"
  by (simp_all add: from_le16_def le16_def from_le32_def le32_def join16 join32)

lemma le_from_le [simp]:
  "2 \<le> length p \<Longrightarrow> le16 (from_le16 p) = take 2 p"
  "4 \<le> length p \<Longrightarrow> le32 (from_le32 p) = take 4 p"
  by (cases p; cases "tl p"; cases "tl (tl p)"; cases "tl (tl (tl p))";
      auto simp: from_le16_def le16_def from_le32_def le32_def split16 split32
      simp del: drop_bit_or)+

end
