(* ===== verification/Wire_Codec.thy ===== *)
theory Wire_Codec
  imports Prelude
begin

text \<open>
  The interface every framed wire format of plank keeps: an encoder that fills a caller's buffer
  or refuses, and a decoder that accepts a packet or refuses. \<^verbatim>\<open>framed_codec\<close> states what the two
  sides of a connection rely on; the formats of plank_transport_control.h,
  plank_transport_setup.h and plank_transport_event.h are interpretations. \<^verbatim>\<open>record_codec\<close> is
  the contract of the two camera record headers, which precede a payload the codec does not copy.
\<close>

section \<open>Framed packets\<close>

locale framed_codec =
  fixes enc :: "'m \<Rightarrow> bytes \<Rightarrow> nat \<Rightarrow> (bytes \<times> nat) option"
    and dec :: "bytes \<Rightarrow> 'p option"
    and ok :: "'m \<Rightarrow> bool"
    and view :: "'m \<Rightarrow> 'p"
    and size_of :: "'m \<Rightarrow> nat"
  assumes enc_total: "ok m \<Longrightarrow> size_of m \<le> cap \<Longrightarrow> cap \<le> length out \<Longrightarrow>
      \<exists>wire. length wire = size_of m \<and> enc m out cap = Some (put out 0 wire, size_of m)"
    and enc_refuses: "\<not> ok m \<or> cap < size_of m \<Longrightarrow> enc m out cap = None"
    and dec_enc: "enc m out cap = Some (out', n) \<Longrightarrow> cap \<le> length out \<Longrightarrow>
      dec (take n out') = Some (view m)"
    and dec_inj: "dec p = Some d \<Longrightarrow> dec q = Some d \<Longrightarrow> p = q"
begin

lemma enc_ok_iff:
  assumes "cap \<le> length out"
  shows "(\<exists>r. enc m out cap = Some r) \<longleftrightarrow> ok m \<and> size_of m \<le> cap"
proof
  assume "\<exists>r. enc m out cap = Some r"
  then show "ok m \<and> size_of m \<le> cap"
    using enc_refuses [of m cap out] by (metis not_le option.distinct(1))
qed (use enc_total assms in blast)

lemma enc_frame:
  assumes "enc m out cap = Some (out', n)" "cap \<le> length out"
  shows "n = size_of m" "n \<le> cap" "length out' = length out" "drop n out' = drop n out"
proof -
  have ok: "ok m" "size_of m \<le> cap"
    using assms enc_refuses [of m cap out] by (auto simp: not_le [symmetric])
  from enc_total [OF ok assms(2)] obtain wire where
    w: "length wire = size_of m" "enc m out cap = Some (put out 0 wire, size_of m)" by blast
  show "n = size_of m" "n \<le> cap" "length out' = length out" "drop n out' = drop n out"
    using w ok assms by auto
qed

lemma wire_unique:
  assumes "enc m out cap = Some (out', n)" "cap \<le> length out" "dec p = Some (view m)"
  shows "take n out' = p"
  using dec_inj [OF dec_enc [OF assms(1,2)] assms(3)] .

lemma enc_same_view:
  assumes "enc m out cap = Some (out', n)" "cap \<le> length out"
    and "enc m2 out2 cap2 = Some (out2', n2)" "cap2 \<le> length out2" "view m = view m2"
  shows "take n out' = take n2 out2'"
  using wire_unique [OF assms(1,2)] dec_enc [OF assms(3,4)] assms(5) by simp

lemma enc_distinct:
  assumes "enc m out cap = Some (out', n)" "cap \<le> length out"
    and "enc m2 out2 cap2 = Some (out2', n2)" "cap2 \<le> length out2" "view m \<noteq> view m2"
  shows "take n out' \<noteq> take n2 out2'"
  using dec_enc [OF assms(1,2)] dec_enc [OF assms(3,4)] assms(5) by auto

end

text \<open>
  A format given by the bytes of each message: the encoder writes exactly \<^verbatim>\<open>wire m\<close> at the start of
  the buffer. Every such format is a framed codec.
\<close>

locale wire_format =
  fixes enc :: "'m \<Rightarrow> bytes \<Rightarrow> nat \<Rightarrow> (bytes \<times> nat) option"
    and dec :: "bytes \<Rightarrow> 'p option"
    and ok :: "'m \<Rightarrow> bool"
    and view :: "'m \<Rightarrow> 'p"
    and wire :: "'m \<Rightarrow> bytes"
  assumes enc_wire: "ok m \<Longrightarrow> length (wire m) \<le> cap \<Longrightarrow> cap \<le> length out \<Longrightarrow>
      enc m out cap = Some (put out 0 (wire m), length (wire m))"
    and enc_none: "\<not> ok m \<or> cap < length (wire m) \<Longrightarrow> enc m out cap = None"
    and dec_wire: "ok m \<Longrightarrow> dec (wire m) = Some (view m)"
    and dec_canonical: "dec p = Some d \<Longrightarrow> dec q = Some d \<Longrightarrow> p = q"

sublocale wire_format \<subseteq> framed_codec enc dec ok view "\<lambda>m. length (wire m)"
proof unfold_locales
  fix m cap out out' n
  assume e: "enc m out cap = Some (out', n)" and c: "cap \<le> length out"
  then have ok: "ok m" "length (wire m) \<le> cap"
    using enc_none [of m cap out] by (auto simp: not_le [symmetric])
  then have "take n out' = wire m" using e enc_wire [OF ok c] c by (auto simp: take_put_0)
  then show "dec (take n out') = Some (view m)" using dec_wire ok by simp
qed (use enc_wire enc_none dec_canonical in blast)+

section \<open>Record headers before a payload\<close>

locale record_codec =
  fixes enc :: "'h \<Rightarrow> nat \<Rightarrow> bytes \<Rightarrow> nat \<Rightarrow> bytes option"
    and dec :: "bytes \<Rightarrow> 'h option"
    and valid :: "'h \<Rightarrow> nat \<Rightarrow> bool"
    and hdr :: nat
  assumes enc_shape: "valid h n \<Longrightarrow> hdr \<le> cap \<Longrightarrow> cap \<le> length out \<Longrightarrow>
      \<exists>wire. length wire = hdr \<and> enc h n out cap = Some (put out 0 wire)"
    and enc_refuses: "\<not> valid h n \<or> cap < hdr \<Longrightarrow> enc h n out cap = None"
    and dec_enc: "enc h n out cap = Some out' \<Longrightarrow> cap \<le> length out \<Longrightarrow> length payload = n \<Longrightarrow>
      dec (take hdr out' @ payload) = Some h"
    and dec_valid: "dec r = Some h \<Longrightarrow> hdr < length r \<and> valid h (length r - hdr)"
    and dec_inj: "dec r = Some h \<Longrightarrow> dec q = Some h \<Longrightarrow> take hdr r = take hdr q"
begin

lemma reencode:
  assumes "dec r = Some h" "hdr \<le> cap" "cap \<le> length out"
  shows "\<exists>out'. enc h (length r - hdr) out cap = Some out' \<and>
    take hdr out' = take hdr r \<and> drop hdr out' = drop hdr out"
proof -
  have v: "valid h (length r - hdr)" "hdr < length r" using dec_valid [OF assms(1)] by auto
  from enc_shape [OF v(1) assms(2,3)] obtain wire where
    w: "length wire = hdr" "enc h (length r - hdr) out cap = Some (put out 0 wire)" by blast
  have d: "dec (take hdr (put out 0 wire) @ drop hdr r) = Some h"
    by (rule dec_enc [OF w(2) assms(3)]) simp
  have "hdr \<le> length (put out 0 wire)" using w assms by simp
  then have "take hdr (put out 0 wire) = take hdr r" using dec_inj [OF d assms(1)] by simp
  moreover have "drop hdr (put out 0 wire) = drop hdr out" using w assms by simp
  ultimately show ?thesis using w by blast
qed

lemma enc_ok_iff:
  assumes "cap \<le> length out"
  shows "(\<exists>r. enc h n out cap = Some r) \<longleftrightarrow> valid h n \<and> hdr \<le> cap"
proof
  assume "\<exists>r. enc h n out cap = Some r"
  then show "valid h n \<and> hdr \<le> cap"
    using enc_refuses [of h n cap out] by (metis not_le option.distinct(1))
qed (use enc_shape assms in blast)

end

end
