(* ===== verification/Wire_Packets.thy ===== *)
theory Wire_Packets
  imports Wire_Codec
begin

text \<open>
  The three packet formats of src/protocol/plank-transport/include: control packets ("PLD1",
  plank_transport_control.h), setup packets ("PLS1", plank_transport_setup.h) and event packets
  ("PLE1", plank_transport_event.h). Encoders return the updated output buffer and the size
  written, or \<^verbatim>\<open>None\<close> for the C result -1; decoders return the decoded struct, whose payload
  pointer is the suffix of the packet behind the header.
\<close>

section \<open>Control packets\<close>

abbreviation PLANK_TRANSPORT_CONTROL_MAGIC :: u32 where
  "PLANK_TRANSPORT_CONTROL_MAGIC \<equiv> 0x504c4431"
abbreviation PLANK_TRANSPORT_CONTROL_HEADER_SIZE :: nat where
  "PLANK_TRANSPORT_CONTROL_HEADER_SIZE \<equiv> 8"

record control_packet =
  cp_type :: u16
  cp_payload :: bytes
  cp_payload_size :: u16

definition plank_transport_control_write_u16 :: "bytes \<Rightarrow> nat \<Rightarrow> u16 \<Rightarrow> bytes" where
  "plank_transport_control_write_u16 output off v =
     put output off [ucast (drop_bit 8 v), ucast v]"

definition plank_transport_control_write_u32 :: "bytes \<Rightarrow> nat \<Rightarrow> u32 \<Rightarrow> bytes" where
  "plank_transport_control_write_u32 output off v =
     put output off [ucast (drop_bit 24 v), ucast (drop_bit 16 v), ucast (drop_bit 8 v), ucast v]"

definition plank_transport_control_read_u16 :: "bytes \<Rightarrow> u16" where
  "plank_transport_control_read_u16 p = or (push_bit 8 (ucast (p ! 0))) (ucast (p ! 1))"

definition plank_transport_control_read_u32 :: "bytes \<Rightarrow> u32" where
  "plank_transport_control_read_u32 p =
     or (or (or (push_bit 24 (ucast (p ! 0))) (push_bit 16 (ucast (p ! 1))))
       (push_bit 8 (ucast (p ! 2)))) (ucast (p ! 3))"

lemma control_accessors [codec_simps]:
  "plank_transport_control_write_u16 out off v = put out off (be16 v)"
  "plank_transport_control_write_u32 out off w = put out off (be32 w)"
  "plank_transport_control_read_u16 p = from_be16 p"
  "plank_transport_control_read_u32 p = from_be32 p"
  by (simp_all add: plank_transport_control_write_u16_def plank_transport_control_write_u32_def
      plank_transport_control_read_u16_def plank_transport_control_read_u32_def
      be16_def be32_def from_be16_def from_be32_def)

definition plank_transport_control_encode ::
  "u16 \<Rightarrow> u32 list option \<Rightarrow> nat \<Rightarrow> bytes option \<Rightarrow> nat \<Rightarrow> (bytes \<times> nat) option" where
  "plank_transport_control_encode type values value_count out output_capacity =
     (case out of None \<Rightarrow> None | Some output \<Rightarrow>
       if 3 < value_count \<or> (value_count \<noteq> 0 \<and> values = None) then None
       else
         let payload_size = value_count * 4;
             packet_size = PLANK_TRANSPORT_CONTROL_HEADER_SIZE + payload_size
         in if output_capacity < packet_size then None
            else
              let o1 = plank_transport_control_write_u32 output 0 PLANK_TRANSPORT_CONTROL_MAGIC;
                  o2 = plank_transport_control_write_u16 o1 4 type;
                  o3 = plank_transport_control_write_u16 o2 6 (of_nat payload_size);
                  o4 = fold (\<lambda>index o'. plank_transport_control_write_u32 o'
                         (PLANK_TRANSPORT_CONTROL_HEADER_SIZE + index * 4) (the values ! index))
                         [0..<value_count] o3
              in Some (o4, packet_size))"

definition plank_transport_control_decode :: "bytes option \<Rightarrow> nat \<Rightarrow> control_packet option" where
  "plank_transport_control_decode packet packet_size =
     (case packet of None \<Rightarrow> None | Some p \<Rightarrow>
       if packet_size < PLANK_TRANSPORT_CONTROL_HEADER_SIZE \<or>
          plank_transport_control_read_u32 p \<noteq> PLANK_TRANSPORT_CONTROL_MAGIC then None
       else
         let payload_size = plank_transport_control_read_u16 (drop 6 p)
         in if packet_size \<noteq> PLANK_TRANSPORT_CONTROL_HEADER_SIZE + unat payload_size then None
            else Some \<lparr>cp_type = plank_transport_control_read_u16 (drop 4 p),
                       cp_payload = drop PLANK_TRANSPORT_CONTROL_HEADER_SIZE p,
                       cp_payload_size = payload_size\<rparr>)"


lemma control_write_values:
  assumes "n \<le> length vs" "8 + 4 * n \<le> length output"
  shows "fold (\<lambda>i o'. plank_transport_control_write_u32 o' (8 + i * 4) (vs ! i)) [0..<n] output =
    put output 8 (concat (map be32 (take n vs)))"
  using assms
proof (induction n)
  case (Suc n)
  then show ?case
    by (simp add: codec_simps put_put_adjacent take_Suc_conv_app_nth)
qed simp

definition control_wire :: "u16 \<Rightarrow> bytes \<Rightarrow> bytes" where
  "control_wire type payload =
     be32 PLANK_TRANSPORT_CONTROL_MAGIC @ be16 type @ be16 (of_nat (length payload)) @ payload"

lemma control_encode_wire:
  assumes "length vs \<le> 3" "8 + 4 * length vs \<le> cap" "cap \<le> length output"
  shows "plank_transport_control_encode type (Some vs) (length vs) (Some output) cap =
    Some (put output 0 (control_wire type (concat (map be32 vs))), 8 + 4 * length vs)"
  using assms control_write_values [of "length vs" vs]
  by (simp add: plank_transport_control_encode_def codec_simps put_put_adjacent control_wire_def
      mult.commute)

lemma control_encode_refuses:
  "3 < length vs \<or> cap < 8 + 4 * length vs \<Longrightarrow>
    plank_transport_control_encode type (Some vs) (length vs) (Some output) cap = None"
  by (auto simp: plank_transport_control_encode_def)

lemma control_decode_wire:
  assumes "length payload < 2 ^ 16"
  shows "plank_transport_control_decode (Some (control_wire type payload))
      (length (control_wire type payload)) =
    Some \<lparr>cp_type = type, cp_payload = payload, cp_payload_size = of_nat (length payload)\<rparr>"
  using assms
  by (simp add: plank_transport_control_decode_def control_wire_def codec_simps
      unat_of_nat)

lemma control_decode_canonical:
  assumes "plank_transport_control_decode (Some p) (length p) = Some d"
  shows "p = control_wire (cp_type d) (cp_payload d)"
    "unat (cp_payload_size d) = length (cp_payload d)"
proof -
  note [simp del] = drop_all take_all
  have l: "8 \<le> length p" "from_be32 p = PLANK_TRANSPORT_CONTROL_MAGIC"
    and sz: "length p = 8 + unat (from_be16 (drop 6 p))"
    and d: "d = \<lparr>cp_type = from_be16 (drop 4 p), cp_payload = drop 8 p,
        cp_payload_size = from_be16 (drop 6 p)\<rparr>"
    using assms by (simp_all add: plank_transport_control_decode_def codec_simps Let_def not_less
        split: if_split_asm)
  show "unat (cp_payload_size d) = length (cp_payload d)" using d sz by simp
  have m: "be32 PLANK_TRANSPORT_CONTROL_MAGIC = take 4 p"
    using l(1) be32_from_be32 [of p] unfolding l(2) by simp
  have n: "of_nat (length p - 8) = from_be16 (drop 6 p)" unfolding sz by simp
  show "p = control_wire (cp_type d) (cp_payload d)"
    using l(1) by (simp add: d control_wire_def take_drop_join m n)
qed

lemma length_control_wire [simp]: "length (control_wire type payload) = 8 + length payload"
  by (simp add: control_wire_def)

interpretation ctl: wire_format
  "\<lambda>(type, vs) out cap. plank_transport_control_encode type (Some vs) (length vs) (Some out) cap"
  "\<lambda>p. plank_transport_control_decode (Some p) (length p)"
  "\<lambda>(type, vs). length vs \<le> 3"
  "\<lambda>(type, vs). \<lparr>cp_type = type, cp_payload = concat (map be32 vs),
     cp_payload_size = of_nat (4 * length vs)\<rparr>"
  "\<lambda>(type, vs). control_wire type (concat (map be32 vs))"
proof unfold_locales
  fix p q d
  assume "plank_transport_control_decode (Some p) (length p) = Some d"
    "plank_transport_control_decode (Some q) (length q) = Some d"
  then show "p = q" using control_decode_canonical(1) by metis
next
  fix m :: "u16 \<times> u32 list"
  assume "case m of (t, vs) \<Rightarrow> length vs \<le> 3"
  then show "plank_transport_control_decode (Some (case m of (t, vs) \<Rightarrow>
        control_wire t (concat (map be32 vs))))
      (length (case m of (t, vs) \<Rightarrow> control_wire t (concat (map be32 vs)))) =
    Some (case m of (t, vs) \<Rightarrow> \<lparr>cp_type = t, cp_payload = concat (map be32 vs),
        cp_payload_size = of_nat (4 * length vs)\<rparr>)"
    using control_decode_wire [of "concat (map be32 (snd m))" "fst m"] by (cases m) simp
qed (auto simp: control_encode_wire intro!: control_encode_refuses)

section \<open>Setup packets\<close>

abbreviation PLANK_TRANSPORT_SETUP_MAGIC :: u32 where
  "PLANK_TRANSPORT_SETUP_MAGIC \<equiv> 0x504c5331"
abbreviation PLANK_TRANSPORT_SETUP_VERSION :: u16 where
  "PLANK_TRANSPORT_SETUP_VERSION \<equiv> 1"
abbreviation PLANK_TRANSPORT_SETUP_HEADER_SIZE :: nat where
  "PLANK_TRANSPORT_SETUP_HEADER_SIZE \<equiv> 20"
abbreviation PLANK_TRANSPORT_SETUP_MAX_PACKET_SIZE :: nat where
  "PLANK_TRANSPORT_SETUP_MAX_PACKET_SIZE \<equiv> 65536"
abbreviation PLANK_TRANSPORT_SETUP_MAX_PAYLOAD_SIZE :: nat where
  "PLANK_TRANSPORT_SETUP_MAX_PAYLOAD_SIZE \<equiv>
     PLANK_TRANSPORT_SETUP_MAX_PACKET_SIZE - PLANK_TRANSPORT_SETUP_HEADER_SIZE"
abbreviation PLANK_TRANSPORT_SETUP_FLAG_RESPONSE :: u16 where
  "PLANK_TRANSPORT_SETUP_FLAG_RESPONSE \<equiv> 1"
abbreviation PLANK_TRANSPORT_SETUP_FLAG_SENSITIVE :: u16 where
  "PLANK_TRANSPORT_SETUP_FLAG_SENSITIVE \<equiv> 2"

record setup_packet =
  sp_type :: u16
  sp_flags :: u16
  sp_status :: u16
  sp_request_id :: u32
  sp_payload :: bytes
  sp_payload_size :: u32

definition plank_transport_setup_write_u16 :: "bytes \<Rightarrow> nat \<Rightarrow> u16 \<Rightarrow> bytes" where
  "plank_transport_setup_write_u16 output off v =
     put output off [ucast (drop_bit 8 v), ucast v]"

definition plank_transport_setup_write_u32 :: "bytes \<Rightarrow> nat \<Rightarrow> u32 \<Rightarrow> bytes" where
  "plank_transport_setup_write_u32 output off v =
     put output off [ucast (drop_bit 24 v), ucast (drop_bit 16 v), ucast (drop_bit 8 v), ucast v]"

definition plank_transport_setup_read_u16 :: "bytes \<Rightarrow> u16" where
  "plank_transport_setup_read_u16 p = or (push_bit 8 (ucast (p ! 0))) (ucast (p ! 1))"

definition plank_transport_setup_read_u32 :: "bytes \<Rightarrow> u32" where
  "plank_transport_setup_read_u32 p =
     or (or (or (push_bit 24 (ucast (p ! 0))) (push_bit 16 (ucast (p ! 1))))
       (push_bit 8 (ucast (p ! 2)))) (ucast (p ! 3))"

lemma setup_accessors [codec_simps]:
  "plank_transport_setup_write_u16 out off v = put out off (be16 v)"
  "plank_transport_setup_write_u32 out off w = put out off (be32 w)"
  "plank_transport_setup_read_u16 p = from_be16 p"
  "plank_transport_setup_read_u32 p = from_be32 p"
  by (simp_all add: plank_transport_setup_write_u16_def plank_transport_setup_write_u32_def
      plank_transport_setup_read_u16_def plank_transport_setup_read_u32_def
      be16_def be32_def from_be16_def from_be32_def)

definition setup_flags_known :: "u16 \<Rightarrow> bool" where
  "setup_flags_known flags \<longleftrightarrow>
     and flags (not (or PLANK_TRANSPORT_SETUP_FLAG_RESPONSE
       PLANK_TRANSPORT_SETUP_FLAG_SENSITIVE)) = 0"

definition plank_transport_setup_encode ::
  "u16 \<Rightarrow> u16 \<Rightarrow> u16 \<Rightarrow> u32 \<Rightarrow> bytes option \<Rightarrow> nat \<Rightarrow> bytes option \<Rightarrow> nat \<Rightarrow> (bytes \<times> nat) option" where
  "plank_transport_setup_encode type flags status request_id payload payload_size out
      output_capacity =
     (let packet_size = (PLANK_TRANSPORT_SETUP_HEADER_SIZE + payload_size) mod size_max in
      if type = 0 \<or> request_id = 0 \<or> out = None \<or> \<not> setup_flags_known flags \<or>
         (payload_size \<noteq> 0 \<and> payload = None) \<or>
         PLANK_TRANSPORT_SETUP_MAX_PAYLOAD_SIZE < payload_size \<or>
         output_capacity < packet_size
      then None
      else
        let o0 = the out;
            o1 = plank_transport_setup_write_u32 o0 0 PLANK_TRANSPORT_SETUP_MAGIC;
            o2 = plank_transport_setup_write_u16 o1 4 PLANK_TRANSPORT_SETUP_VERSION;
            o3 = plank_transport_setup_write_u16 o2 6 type;
            o4 = plank_transport_setup_write_u16 o3 8 flags;
            o5 = plank_transport_setup_write_u16 o4 10 status;
            o6 = plank_transport_setup_write_u32 o5 12 request_id;
            o7 = plank_transport_setup_write_u32 o6 16 (of_nat payload_size);
            o8 = (if payload_size \<noteq> 0
                  then put o7 PLANK_TRANSPORT_SETUP_HEADER_SIZE (take payload_size (the payload))
                  else o7)
        in Some (o8, packet_size))"

definition plank_transport_setup_decode :: "bytes option \<Rightarrow> nat \<Rightarrow> setup_packet option" where
  "plank_transport_setup_decode packet packet_size =
     (case packet of None \<Rightarrow> None | Some p \<Rightarrow>
       if packet_size < PLANK_TRANSPORT_SETUP_HEADER_SIZE \<or>
          PLANK_TRANSPORT_SETUP_MAX_PACKET_SIZE < packet_size \<or>
          plank_transport_setup_read_u32 p \<noteq> PLANK_TRANSPORT_SETUP_MAGIC \<or>
          plank_transport_setup_read_u16 (drop 4 p) \<noteq> PLANK_TRANSPORT_SETUP_VERSION \<or>
          plank_transport_setup_read_u16 (drop 6 p) = 0 \<or>
          plank_transport_setup_read_u32 (drop 12 p) = 0
       then None
       else
         let flags = plank_transport_setup_read_u16 (drop 8 p) in
         if \<not> setup_flags_known flags then None
         else
           let payload_size = plank_transport_setup_read_u32 (drop 16 p) in
           if PLANK_TRANSPORT_SETUP_MAX_PAYLOAD_SIZE < unat payload_size \<or>
              packet_size \<noteq> PLANK_TRANSPORT_SETUP_HEADER_SIZE + unat payload_size
           then None
           else Some \<lparr>sp_type = plank_transport_setup_read_u16 (drop 6 p),
                      sp_flags = flags,
                      sp_status = plank_transport_setup_read_u16 (drop 10 p),
                      sp_request_id = plank_transport_setup_read_u32 (drop 12 p),
                      sp_payload = drop PLANK_TRANSPORT_SETUP_HEADER_SIZE p,
                      sp_payload_size = payload_size\<rparr>)"


definition setup_wire :: "u16 \<Rightarrow> u16 \<Rightarrow> u16 \<Rightarrow> u32 \<Rightarrow> bytes \<Rightarrow> bytes" where
  "setup_wire type flags status request_id payload =
     be32 PLANK_TRANSPORT_SETUP_MAGIC @ be16 PLANK_TRANSPORT_SETUP_VERSION @ be16 type @
     be16 flags @ be16 status @ be32 request_id @ be32 (of_nat (length payload)) @ payload"

lemma length_setup_wire [simp]:
  "length (setup_wire type flags status request_id payload) = 20 + length payload"
  by (simp add: setup_wire_def)

definition setup_ok :: "u16 \<Rightarrow> u16 \<Rightarrow> u32 \<Rightarrow> nat \<Rightarrow> bool" where
  "setup_ok type flags request_id n \<longleftrightarrow> type \<noteq> 0 \<and> request_id \<noteq> 0 \<and> setup_flags_known flags \<and>
     n \<le> PLANK_TRANSPORT_SETUP_MAX_PAYLOAD_SIZE"

lemma setup_encode_wire:
  assumes "setup_ok type flags request_id (length payload)"
    "20 + length payload \<le> cap" "cap \<le> length output"
  shows "plank_transport_setup_encode type flags status request_id (Some payload)
      (length payload) (Some output) cap =
    Some (put output 0 (setup_wire type flags status request_id payload), 20 + length payload)"
  using assms
  by (simp add: plank_transport_setup_encode_def setup_ok_def codec_simps put_put_adjacent
      setup_wire_def Let_def)

lemma setup_encode_refuses:
  "\<not> setup_ok type flags request_id (length payload) \<or> cap < 20 + length payload \<Longrightarrow>
    plank_transport_setup_encode type flags status request_id (Some payload) (length payload)
      (Some output) cap = None"
  by (cases "length payload \<le> PLANK_TRANSPORT_SETUP_MAX_PAYLOAD_SIZE")
    (auto simp: plank_transport_setup_encode_def setup_ok_def Let_def)

lemma setup_decode_wire:
  assumes "setup_ok type flags request_id (length payload)"
  shows "plank_transport_setup_decode
      (Some (setup_wire type flags status request_id payload))
      (length (setup_wire type flags status request_id payload)) =
    Some \<lparr>sp_type = type, sp_flags = flags, sp_status = status, sp_request_id = request_id,
      sp_payload = payload, sp_payload_size = of_nat (length payload)\<rparr>"
  using assms
  by (simp add: plank_transport_setup_decode_def setup_ok_def setup_wire_def codec_simps
      unat_of_nat)

lemma setup_decode_canonical:
  assumes "plank_transport_setup_decode (Some p) (length p) = Some d"
  shows "p = setup_wire (sp_type d) (sp_flags d) (sp_status d) (sp_request_id d) (sp_payload d)"
    "unat (sp_payload_size d) = length (sp_payload d)"
    "setup_ok (sp_type d) (sp_flags d) (sp_request_id d) (length (sp_payload d))"
proof -
  note [simp del] = drop_all take_all
  have l: "20 \<le> length p" "from_be32 p = PLANK_TRANSPORT_SETUP_MAGIC"
      "from_be16 (drop 4 p) = PLANK_TRANSPORT_SETUP_VERSION"
    and nz: "from_be16 (drop 6 p) \<noteq> 0" "from_be32 (drop 12 p) \<noteq> 0"
      "setup_flags_known (from_be16 (drop 8 p))"
    and sz: "length p = 20 + unat (from_be32 (drop 16 p))"
      "unat (from_be32 (drop 16 p)) \<le> PLANK_TRANSPORT_SETUP_MAX_PAYLOAD_SIZE"
    and d: "d = \<lparr>sp_type = from_be16 (drop 6 p), sp_flags = from_be16 (drop 8 p),
        sp_status = from_be16 (drop 10 p), sp_request_id = from_be32 (drop 12 p),
        sp_payload = drop 20 p, sp_payload_size = from_be32 (drop 16 p)\<rparr>"
    using assms by (simp_all add: plank_transport_setup_decode_def codec_simps Let_def not_less
        split: if_split_asm)
  show "unat (sp_payload_size d) = length (sp_payload d)" using d sz(1) by simp
  show "setup_ok (sp_type d) (sp_flags d) (sp_request_id d) (length (sp_payload d))"
    using nz sz d by (simp add: setup_ok_def)
  have m: "be32 PLANK_TRANSPORT_SETUP_MAGIC = take 4 p"
    using l(1) be32_from_be32 [of p] unfolding l(2) by simp
  have v: "be16 PLANK_TRANSPORT_SETUP_VERSION = take 2 (drop 4 p)"
    using l(1) be16_from_be16 [of "drop 4 p"] unfolding l(3) by simp
  have n: "of_nat (length p - 20) = from_be32 (drop 16 p)" unfolding sz(1) by simp
  show "p = setup_wire (sp_type d) (sp_flags d) (sp_status d) (sp_request_id d) (sp_payload d)"
    using l(1) by (simp add: d setup_wire_def take_drop_join m v n)
qed

interpretation stp: wire_format
  "\<lambda>(type, flags, status, request_id, payload) out cap. plank_transport_setup_encode type flags
     status request_id (Some payload) (length payload) (Some out) cap"
  "\<lambda>p. plank_transport_setup_decode (Some p) (length p)"
  "\<lambda>(type, flags, status, request_id, payload). setup_ok type flags request_id (length payload)"
  "\<lambda>(type, flags, status, request_id, payload). \<lparr>sp_type = type, sp_flags = flags,
     sp_status = status, sp_request_id = request_id, sp_payload = payload,
     sp_payload_size = of_nat (length payload)\<rparr>"
  "\<lambda>(type, flags, status, request_id, payload). setup_wire type flags status request_id payload"
proof unfold_locales
  fix p q d
  assume "plank_transport_setup_decode (Some p) (length p) = Some d"
    "plank_transport_setup_decode (Some q) (length q) = Some d"
  then show "p = q" using setup_decode_canonical(1) by metis
qed (auto simp: setup_encode_wire setup_decode_wire simp del: length_setup_wire
    intro!: setup_encode_refuses, auto simp: setup_encode_wire intro!: setup_encode_refuses)


section \<open>Event packets\<close>

abbreviation PLANK_TRANSPORT_EVENT_MAGIC :: u32 where
  "PLANK_TRANSPORT_EVENT_MAGIC \<equiv> 0x504c4531"
abbreviation PLANK_TRANSPORT_EVENT_HEADER_SIZE :: nat where
  "PLANK_TRANSPORT_EVENT_HEADER_SIZE \<equiv> 8"
abbreviation PLANK_TRANSPORT_EVENT_MAX_PACKET_SIZE :: nat where
  "PLANK_TRANSPORT_EVENT_MAX_PACKET_SIZE \<equiv> 65535"
abbreviation UINT16_MAX :: nat where "UINT16_MAX \<equiv> 65535"

record event_packet =
  ep_type :: u16
  ep_payload :: bytes
  ep_payload_size :: u16

definition plank_transport_event_write_u16 :: "bytes \<Rightarrow> nat \<Rightarrow> u16 \<Rightarrow> bytes" where
  "plank_transport_event_write_u16 output off v =
     put output off [ucast (drop_bit 8 v), ucast v]"

definition plank_transport_event_write_u32 :: "bytes \<Rightarrow> nat \<Rightarrow> u32 \<Rightarrow> bytes" where
  "plank_transport_event_write_u32 output off v =
     put output off [ucast (drop_bit 24 v), ucast (drop_bit 16 v), ucast (drop_bit 8 v), ucast v]"

definition plank_transport_event_read_u16 :: "bytes \<Rightarrow> u16" where
  "plank_transport_event_read_u16 p = or (push_bit 8 (ucast (p ! 0))) (ucast (p ! 1))"

definition plank_transport_event_read_u32 :: "bytes \<Rightarrow> u32" where
  "plank_transport_event_read_u32 p =
     or (or (or (push_bit 24 (ucast (p ! 0))) (push_bit 16 (ucast (p ! 1))))
       (push_bit 8 (ucast (p ! 2)))) (ucast (p ! 3))"

lemma event_accessors [codec_simps]:
  "plank_transport_event_write_u16 out off v = put out off (be16 v)"
  "plank_transport_event_write_u32 out off w = put out off (be32 w)"
  "plank_transport_event_read_u16 p = from_be16 p"
  "plank_transport_event_read_u32 p = from_be32 p"
  by (simp_all add: plank_transport_event_write_u16_def plank_transport_event_write_u32_def
      plank_transport_event_read_u16_def plank_transport_event_read_u32_def
      be16_def be32_def from_be16_def from_be32_def)

definition plank_transport_event_encode ::
  "u16 \<Rightarrow> bytes option \<Rightarrow> nat \<Rightarrow> bytes option \<Rightarrow> nat \<Rightarrow> (bytes \<times> nat) option" where
  "plank_transport_event_encode type payload payload_size out output_capacity =
     (let packet_size = (PLANK_TRANSPORT_EVENT_HEADER_SIZE + payload_size) mod size_max in
      if out = None \<or> (payload_size \<noteq> 0 \<and> payload = None) \<or> UINT16_MAX < payload_size \<or>
         output_capacity < packet_size
      then None
      else
        let o0 = the out;
            o1 = plank_transport_event_write_u32 o0 0 PLANK_TRANSPORT_EVENT_MAGIC;
            o2 = plank_transport_event_write_u16 o1 4 type;
            o3 = plank_transport_event_write_u16 o2 6 (of_nat payload_size);
            o4 = (if payload_size \<noteq> 0
                  then put o3 PLANK_TRANSPORT_EVENT_HEADER_SIZE (take payload_size (the payload))
                  else o3)
        in Some (o4, packet_size))"

definition plank_transport_event_decode :: "bytes option \<Rightarrow> nat \<Rightarrow> event_packet option" where
  "plank_transport_event_decode packet packet_size =
     (case packet of None \<Rightarrow> None | Some p \<Rightarrow>
       if packet_size < PLANK_TRANSPORT_EVENT_HEADER_SIZE \<or>
          plank_transport_event_read_u32 p \<noteq> PLANK_TRANSPORT_EVENT_MAGIC
       then None
       else
         let payload_size = plank_transport_event_read_u16 (drop 6 p) in
         if packet_size \<noteq> PLANK_TRANSPORT_EVENT_HEADER_SIZE + unat payload_size then None
         else Some \<lparr>ep_type = plank_transport_event_read_u16 (drop 4 p),
                    ep_payload = drop PLANK_TRANSPORT_EVENT_HEADER_SIZE p,
                    ep_payload_size = payload_size\<rparr>)"

definition event_wire :: "u16 \<Rightarrow> bytes \<Rightarrow> bytes" where
  "event_wire type payload =
     be32 PLANK_TRANSPORT_EVENT_MAGIC @ be16 type @ be16 (of_nat (length payload)) @ payload"

lemma length_event_wire [simp]: "length (event_wire type payload) = 8 + length payload"
  by (simp add: event_wire_def)

lemma event_encode_wire:
  assumes "length payload \<le> UINT16_MAX" "8 + length payload \<le> cap" "cap \<le> length output"
  shows "plank_transport_event_encode type (Some payload) (length payload) (Some output) cap =
    Some (put output 0 (event_wire type payload), 8 + length payload)"
  using assms
  by (simp add: plank_transport_event_encode_def codec_simps put_put_adjacent event_wire_def
      Let_def)

lemma event_encode_refuses:
  "UINT16_MAX < length payload \<or> cap < 8 + length payload \<Longrightarrow>
    plank_transport_event_encode type (Some payload) (length payload) (Some output) cap = None"
  by (cases "length payload \<le> UINT16_MAX")
    (auto simp: plank_transport_event_encode_def Let_def)

lemma event_decode_wire:
  assumes "length payload \<le> UINT16_MAX"
  shows "plank_transport_event_decode (Some (event_wire type payload))
      (length (event_wire type payload)) =
    Some \<lparr>ep_type = type, ep_payload = payload, ep_payload_size = of_nat (length payload)\<rparr>"
  using assms
  by (simp add: plank_transport_event_decode_def event_wire_def codec_simps unat_of_nat)

lemma event_decode_canonical:
  assumes "plank_transport_event_decode (Some p) (length p) = Some d"
  shows "p = event_wire (ep_type d) (ep_payload d)"
    "unat (ep_payload_size d) = length (ep_payload d)"
proof -
  note [simp del] = drop_all take_all
  have l: "8 \<le> length p" "from_be32 p = PLANK_TRANSPORT_EVENT_MAGIC"
    and sz: "length p = 8 + unat (from_be16 (drop 6 p))"
    and d: "d = \<lparr>ep_type = from_be16 (drop 4 p), ep_payload = drop 8 p,
        ep_payload_size = from_be16 (drop 6 p)\<rparr>"
    using assms by (simp_all add: plank_transport_event_decode_def codec_simps Let_def not_less
        split: if_split_asm)
  show "unat (ep_payload_size d) = length (ep_payload d)" using d sz by simp
  have m: "be32 PLANK_TRANSPORT_EVENT_MAGIC = take 4 p"
    using l(1) be32_from_be32 [of p] unfolding l(2) by simp
  have n: "of_nat (length p - 8) = from_be16 (drop 6 p)" unfolding sz by simp
  show "p = event_wire (ep_type d) (ep_payload d)"
    using l(1) by (simp add: d event_wire_def take_drop_join m n)
qed

interpretation evt: wire_format
  "\<lambda>(type, payload) out cap. plank_transport_event_encode type (Some payload) (length payload)
     (Some out) cap"
  "\<lambda>p. plank_transport_event_decode (Some p) (length p)"
  "\<lambda>(type, payload). length payload \<le> UINT16_MAX"
  "\<lambda>(type, payload). \<lparr>ep_type = type, ep_payload = payload,
     ep_payload_size = of_nat (length payload)\<rparr>"
  "\<lambda>(type, payload). event_wire type payload"
proof unfold_locales
  fix p q d
  assume "plank_transport_event_decode (Some p) (length p) = Some d"
    "plank_transport_event_decode (Some q) (length q) = Some d"
  then show "p = q" using event_decode_canonical(1) by metis
next
  fix m :: "u16 \<times> bytes"
  assume "case m of (type, payload) \<Rightarrow> length payload \<le> UINT16_MAX"
  then show "plank_transport_event_decode (Some (case m of (type, payload) \<Rightarrow>
        event_wire type payload)) (length (case m of (type, payload) \<Rightarrow> event_wire type payload)) =
    Some (case m of (type, payload) \<Rightarrow> \<lparr>ep_type = type, ep_payload = payload,
     ep_payload_size = of_nat (length payload)\<rparr>)"
    using event_decode_wire [of "snd m" "fst m"] by (cases m) simp
qed (auto simp: event_encode_wire intro!: event_encode_refuses)


section \<open>Properties\<close>

text \<open>A control packet round-trips: with at most three 32-bit values and room for header and
  payload, encoding succeeds, reports exactly the packet's size, leaves the rest of the caller's
  buffer untouched, and decoding the written bytes gives back the type and the big-endian bytes of
  the values in order.\<close>

theorem control_roundtrip:
  assumes "length vs \<le> 3" "8 + 4 * length vs \<le> cap" "cap \<le> length out"
  shows "\<exists>out'. plank_transport_control_encode type (Some vs) (length vs) (Some out) cap =
      Some (out', 8 + 4 * length vs) \<and>
    plank_transport_control_decode (Some (take (8 + 4 * length vs) out')) (8 + 4 * length vs) =
      Some \<lparr>cp_type = type, cp_payload = concat (map be32 vs),
        cp_payload_size = of_nat (4 * length vs)\<rparr> \<and>
    drop (8 + 4 * length vs) out' = drop (8 + 4 * length vs) out \<and> length out' = length out"
proof -
  have ex: "\<exists>r. plank_transport_control_encode type (Some vs) (length vs) (Some out) cap = Some r"
    using ctl.enc_ok_iff [of cap out "(type, vs)"] assms by simp
  then obtain out' n where
    e: "plank_transport_control_encode type (Some vs) (length vs) (Some out) cap = Some (out', n)"
    by fastforce
  have f: "n = 8 + 4 * length vs" "drop n out' = drop n out" "length out' = length out"
    using ctl.enc_frame [of "(type, vs)" out cap out' n] e assms(3) by simp_all
  have "length (take n out') = n" using f assms by simp
  then show ?thesis using ctl.dec_enc [of "(type, vs)" out cap out' n] e f assms(3) by auto
qed

theorem control_roundtrip_witness:
  "\<exists>out'. plank_transport_control_encode 8 (Some [0, 7, 3]) 3 (Some (replicate 24 0)) 24 =
      Some (out', 20) \<and>
    plank_transport_control_decode (Some (take 20 out')) 20 =
      Some \<lparr>cp_type = 8, cp_payload = concat (map be32 [0, 7, 3]), cp_payload_size = 12\<rparr>"
  using control_roundtrip [of "[0, 7, 3]" 24 "replicate 24 0" 8]
  by (auto simp: numeral_3_eq_3)

text \<open>C31: The setup decoder accepts exactly the packets the setup encoder writes: a packet decodes to
  \<^verbatim>\<open>d\<close> if and only if encoding the fields of \<^verbatim>\<open>d\<close> into some buffer yields precisely these bytes and
  the decoded length is the payload's. Every other byte string is refused.\<close>

theorem setup_decode_iff_encoded:
  "plank_transport_setup_decode (Some p) (length p) = Some d \<longleftrightarrow>
    (\<exists>out cap out'. cap \<le> length out \<and>
      plank_transport_setup_encode (sp_type d) (sp_flags d) (sp_status d) (sp_request_id d)
        (Some (sp_payload d)) (length (sp_payload d)) (Some out) cap = Some (out', length p) \<and>
      take (length p) out' = p \<and> sp_payload_size d = of_nat (length (sp_payload d)))"
  (is "?dec \<longleftrightarrow> ?enc")
proof
  assume ?dec
  note c = setup_decode_canonical [OF this]
  let ?w = "setup_wire (sp_type d) (sp_flags d) (sp_status d) (sp_request_id d) (sp_payload d)"
  have l: "length p = 20 + length (sp_payload d)" using arg_cong [OF c(1), of length] by simp
  have "plank_transport_setup_encode (sp_type d) (sp_flags d) (sp_status d) (sp_request_id d)
      (Some (sp_payload d)) (length (sp_payload d)) (Some p) (length p) =
      Some (put p 0 ?w, length p)"
    using setup_encode_wire [OF c(3)] l by simp
  moreover have "take (length p) (put p 0 ?w) = p" using c(1) l by (simp add: put_def)
  moreover have "sp_payload_size d = of_nat (length (sp_payload d))"
    unfolding c(2) [symmetric] by simp
  ultimately show ?enc by blast
next
  assume ?enc
  then obtain out cap out' where e: "cap \<le> length out"
    "plank_transport_setup_encode (sp_type d) (sp_flags d) (sp_status d) (sp_request_id d)
        (Some (sp_payload d)) (length (sp_payload d)) (Some out) cap = Some (out', length p)"
    "take (length p) out' = p" "sp_payload_size d = of_nat (length (sp_payload d))" by blast
  show ?dec
    using stp.dec_enc [of "(sp_type d, sp_flags d, sp_status d, sp_request_id d, sp_payload d)" out
        cap out' "length p"] e by (cases d) simp
qed

text \<open>Event packets round-trip for every payload of at most 65535 bytes, and the decoder's result
  determines the packet: two packets that decode to the same event are equal.\<close>

theorem event_roundtrip_unique:
  assumes "length payload \<le> 65535"
  shows "\<exists>out'. plank_transport_event_encode type (Some payload) (length payload)
      (Some (replicate (8 + length payload) 0)) (8 + length payload) =
      Some (out', 8 + length payload) \<and>
    (\<forall>p. plank_transport_event_decode (Some p) (length p) =
        Some \<lparr>ep_type = type, ep_payload = payload, ep_payload_size = of_nat (length payload)\<rparr>
      \<longleftrightarrow> p = out')"
proof -
  let ?out = "replicate (8 + length payload) (0 :: u8)"
  let ?w = "event_wire type payload"
  have e: "plank_transport_event_encode type (Some payload) (length payload) (Some ?out)
      (8 + length payload) = Some (put ?out 0 ?w, 8 + length payload)"
    using event_encode_wire assms by simp
  have w: "put ?out 0 ?w = ?w" by (simp add: put_def)
  have "plank_transport_event_decode (Some p) (length p) =
        Some \<lparr>ep_type = type, ep_payload = payload, ep_payload_size = of_nat (length payload)\<rparr>
      \<longleftrightarrow> p = ?w" for p
    using event_decode_wire [OF assms, of type] evt.dec_inj by blast
  then show ?thesis using e w by auto
qed

theorem event_roundtrip_unique_witness:
  "\<exists>out'. plank_transport_event_encode 5 (Some [1, 2, 3]) 3 (Some (replicate 11 0)) 11 =
      Some (out', 11) \<and>
    (\<forall>p. plank_transport_event_decode (Some p) (length p) =
        Some \<lparr>ep_type = 5, ep_payload = [1, 2, 3], ep_payload_size = 3\<rparr> \<longleftrightarrow> p = out')"
  using event_roundtrip_unique [of "[1, 2, 3]" 5] by (simp add: numeral_3_eq_3)

text \<open>The encoder's bound on event payloads is not the declared packet bound: for every payload
  longer than 65527 bytes that it accepts, the packet it reports is larger than
  \<^verbatim>\<open>PLANK_TRANSPORT_EVENT_MAX_PACKET_SIZE\<close>, and the decoder accepts that packet.\<close>

theorem event_packet_exceeds_declared_maximum:
  assumes "65527 < length payload" "length payload \<le> 65535"
  shows "\<exists>out' n. plank_transport_event_encode type (Some payload) (length payload)
      (Some (replicate 65543 0)) 65543 = Some (out', n) \<and>
    PLANK_TRANSPORT_EVENT_MAX_PACKET_SIZE < n \<and>
    plank_transport_event_decode (Some (take n out')) n \<noteq> None"
proof -
  have e: "plank_transport_event_encode type (Some payload) (length payload)
      (Some (replicate 65543 0)) 65543 =
      Some (put (replicate 65543 0) 0 (event_wire type payload), 8 + length payload)"
    using event_encode_wire [of payload 65543 "replicate 65543 0" type] assms by simp
  have "take (8 + length payload) (put (replicate 65543 0) 0 (event_wire type payload)) =
      event_wire type payload"
    using assms by (intro take_put_0) auto
  then show ?thesis using e event_decode_wire [OF assms(2), of type] assms(1) by auto
qed

theorem event_packet_exceeds_declared_maximum_witness:
  "\<exists>out' n. plank_transport_event_encode 5 (Some (replicate 65535 0)) (length (replicate 65535 (0::u8)))
      (Some (replicate 65543 0)) 65543 = Some (out', n) \<and>
    PLANK_TRANSPORT_EVENT_MAX_PACKET_SIZE < n \<and>
    plank_transport_event_decode (Some (take n out')) n \<noteq> None"
  by (rule event_packet_exceeds_declared_maximum; unfold length_replicate; simp)

end
