(* ===== verification/Wire_Input.thy ===== *)
theory Wire_Input
  imports Prelude
begin

text \<open>
  Native input payloads (plank_transport_input.h): the big-endian accessors and the absolute-mouse
  and pen encoders. A C \<^verbatim>\<open>float\<close> is represented by its 32-bit object representation, which is all
  that the \<^verbatim>\<open>memcpy\<close> in the float accessors looks at.
\<close>

type_synonym float_bits = u32

definition plank_transport_input_write_u16 :: "bytes \<Rightarrow> nat \<Rightarrow> u16 \<Rightarrow> bytes" where
  "plank_transport_input_write_u16 output off v =
     put output off [ucast (drop_bit 8 v), ucast v]"

definition plank_transport_input_write_u32 :: "bytes \<Rightarrow> nat \<Rightarrow> u32 \<Rightarrow> bytes" where
  "plank_transport_input_write_u32 output off v =
     put output off [ucast (drop_bit 24 v), ucast (drop_bit 16 v), ucast (drop_bit 8 v), ucast v]"

definition plank_transport_input_read_u16 :: "bytes \<Rightarrow> u16" where
  "plank_transport_input_read_u16 p = or (push_bit 8 (ucast (p ! 0))) (ucast (p ! 1))"

definition plank_transport_input_read_u32 :: "bytes \<Rightarrow> u32" where
  "plank_transport_input_read_u32 p =
     or (or (or (push_bit 24 (ucast (p ! 0))) (push_bit 16 (ucast (p ! 1))))
       (push_bit 8 (ucast (p ! 2)))) (ucast (p ! 3))"

definition plank_transport_input_write_float :: "bytes \<Rightarrow> nat \<Rightarrow> float_bits \<Rightarrow> bytes" where
  "plank_transport_input_write_float output off value =
     (let bits = value in plank_transport_input_write_u32 output off bits)"

definition plank_transport_input_read_float :: "bytes \<Rightarrow> float_bits" where
  "plank_transport_input_read_float p =
     (let bits = plank_transport_input_read_u32 p; value = bits in value)"

lemma input_accessors [codec_simps]:
  "plank_transport_input_write_u16 out off v = put out off (be16 v)"
  "plank_transport_input_write_u32 out off w = put out off (be32 w)"
  "plank_transport_input_write_float out off w = put out off (be32 w)"
  "plank_transport_input_read_u16 p = from_be16 p"
  "plank_transport_input_read_u32 p = from_be32 p"
  "plank_transport_input_read_float p = from_be32 p"
  by (simp_all add: plank_transport_input_write_u16_def plank_transport_input_write_u32_def
      plank_transport_input_read_u16_def plank_transport_input_read_u32_def
      plank_transport_input_write_float_def plank_transport_input_read_float_def
      be16_def be32_def from_be16_def from_be32_def)

definition plank_transport_input_encode_absolute_mouse ::
  "bytes \<Rightarrow> u16 \<Rightarrow> u16 \<Rightarrow> u16 \<Rightarrow> u16 \<Rightarrow> bytes" where
  "plank_transport_input_encode_absolute_mouse output x y maximum_x maximum_y =
     (let o1 = plank_transport_input_write_u16 output 0 x;
          o2 = plank_transport_input_write_u16 o1 2 y;
          o3 = plank_transport_input_write_u16 o2 4 maximum_x
      in plank_transport_input_write_u16 o3 6 maximum_y)"

record pen_event =
  pen_event_type :: u8
  pen_tool_type :: u8
  pen_buttons :: u8
  pen_tilt :: u8
  pen_rotation :: u16
  pen_x :: float_bits
  pen_y :: float_bits
  pen_pressure_or_distance :: float_bits
  pen_contact_area_major :: float_bits
  pen_contact_area_minor :: float_bits

definition plank_transport_input_encode_pen :: "bytes \<Rightarrow> pen_event \<Rightarrow> bytes" where
  "plank_transport_input_encode_pen output e =
     (let o1 = output[0 := pen_event_type e];
          o2 = o1[1 := pen_tool_type e];
          o3 = o2[2 := pen_buttons e];
          o4 = o3[3 := pen_tilt e];
          o5 = plank_transport_input_write_u16 o4 4 (pen_rotation e);
          o6 = o5[6 := 0];
          o7 = o6[7 := 0];
          o8 = plank_transport_input_write_float o7 8 (pen_x e);
          o9 = plank_transport_input_write_float o8 12 (pen_y e);
          o10 = plank_transport_input_write_float o9 16 (pen_pressure_or_distance e);
          o11 = plank_transport_input_write_float o10 20 (pen_contact_area_major e);
          o12 = plank_transport_input_write_float o11 24 (pen_contact_area_minor e)
      in plank_transport_input_write_u32 o12 28 0)"

text \<open>The specification side: the event a receiver obtains by reading each field where the encoder put it.\<close>

definition read_pen :: "bytes \<Rightarrow> pen_event" where
  "read_pen p = \<lparr>pen_event_type = p ! 0, pen_tool_type = p ! 1, pen_buttons = p ! 2,
     pen_tilt = p ! 3, pen_rotation = plank_transport_input_read_u16 (drop 4 p),
     pen_x = plank_transport_input_read_float (drop 8 p),
     pen_y = plank_transport_input_read_float (drop 12 p),
     pen_pressure_or_distance = plank_transport_input_read_float (drop 16 p),
     pen_contact_area_major = plank_transport_input_read_float (drop 20 p),
     pen_contact_area_minor = plank_transport_input_read_float (drop 24 p)\<rparr>"

definition pen_wire :: "pen_event \<Rightarrow> bytes" where
  "pen_wire e = [pen_event_type e, pen_tool_type e, pen_buttons e, pen_tilt e] @
     be16 (pen_rotation e) @ [0, 0] @ be32 (pen_x e) @ be32 (pen_y e) @
     be32 (pen_pressure_or_distance e) @ be32 (pen_contact_area_major e) @
     be32 (pen_contact_area_minor e) @ be32 0"

lemma length_pen_wire [simp]: "length (pen_wire e) = 32"
  by (simp add: pen_wire_def)

lemma encode_pen_wire:
  assumes "32 \<le> length output"
  shows "plank_transport_input_encode_pen output e = put output 0 (pen_wire e)"
  using assms list_update_put [where i = 0 and xs = "output"] by (cases "output = []") (simp_all add: plank_transport_input_encode_pen_def codec_simps list_update_put put_put_adjacent
      pen_wire_def)

lemma encode_absolute_mouse_wire:
  "8 \<le> length output \<Longrightarrow> plank_transport_input_encode_absolute_mouse output x y mx my =
    put output 0 (be16 x @ be16 y @ be16 mx @ be16 my)"
  by (simp add: plank_transport_input_encode_absolute_mouse_def codec_simps put_put_adjacent)

lemma read_pen_wire [simp]: "read_pen (pen_wire e @ r) = e"
  by (simp add: read_pen_def pen_wire_def codec_simps)

text \<open>A pen payload keeps every field: whatever the 32-byte output held before, reading the
  encoded payload at the documented offsets returns the event, both reserved fields are zero, and
  nothing behind the 32 bytes changes.\<close>

theorem pen_payload_roundtrip:
  assumes "32 \<le> length output"
  shows "read_pen (plank_transport_input_encode_pen output e) = e \<and>
    take 2 (drop 6 (plank_transport_input_encode_pen output e)) = [0, 0] \<and>
    plank_transport_input_read_u32 (drop 28 (plank_transport_input_encode_pen output e)) = 0 \<and>
    drop 32 (plank_transport_input_encode_pen output e) = drop 32 output"
proof -
  have e: "plank_transport_input_encode_pen output e = pen_wire e @ drop 32 output"
    using assms by (simp add: encode_pen_wire put_def)
  show ?thesis unfolding e by (simp, simp add: pen_wire_def codec_simps)
qed

theorem pen_payload_roundtrip_witness:
  "read_pen (plank_transport_input_encode_pen (replicate 32 0xff)
     \<lparr>pen_event_type = 1, pen_tool_type = 2, pen_buttons = 3, pen_tilt = 4, pen_rotation = 0x1234,
      pen_x = 0x3f000000, pen_y = 0x3e800000, pen_pressure_or_distance = 0x3f800000,
      pen_contact_area_major = 0, pen_contact_area_minor = 0\<rparr>) =
     \<lparr>pen_event_type = 1, pen_tool_type = 2, pen_buttons = 3, pen_tilt = 4, pen_rotation = 0x1234,
      pen_x = 0x3f000000, pen_y = 0x3e800000, pen_pressure_or_distance = 0x3f800000,
      pen_contact_area_major = 0, pen_contact_area_minor = 0\<rparr>"
  using pen_payload_roundtrip [of "replicate 32 0xff"] by simp

end
