(* ===== verification/Camera_Wire.thy ===== *)
theory Camera_Wire
  imports Wire_Packets
begin

text \<open>
  Camera records: the PCAM v1 header of plank_transport_camera.h (native H.264 or MJPEG buffers),
  the PCAM v2 header of plank_transport_camera_encoded.h (hardware-encoded macOS camera), and the
  strict decoder of camera control packets. Both headers are interpretations of \<^verbatim>\<open>record_codec\<close>.
\<close>

abbreviation PLANK_CAMERA_HEADER_BYTES :: nat where "PLANK_CAMERA_HEADER_BYTES \<equiv> 64"
abbreviation PLANK_CAMERA_MAX_FRAME_BYTES :: nat where "PLANK_CAMERA_MAX_FRAME_BYTES \<equiv> 4194304"
abbreviation PLANK_CAMERA_H264 :: u32 where "PLANK_CAMERA_H264 \<equiv> 0x48323634"
abbreviation PLANK_CAMERA_MJPEG :: u32 where "PLANK_CAMERA_MJPEG \<equiv> 0x4d4a5047"
abbreviation PLANK_CAMERA_KEY_FRAME :: u8 where "PLANK_CAMERA_KEY_FRAME \<equiv> 1"
abbreviation PLANK_CAMERA_DISCONTINUITY :: u8 where "PLANK_CAMERA_DISCONTINUITY \<equiv> 2"
abbreviation UINT64_MAX :: u64 where "UINT64_MAX \<equiv> 0xffffffffffffffff"
abbreviation INT64_MAX :: u64 where "INT64_MAX \<equiv> 0x7fffffffffffffff"

abbreviation PCAM :: bytes where "PCAM \<equiv> [0x50, 0x43, 0x41, 0x4d]"

record camera_header =
  ch_generation :: u64
  ch_sequence :: u64
  ch_capture_time_us :: u64
  ch_codec :: u32
  ch_colorspace :: u32
  ch_transfer :: u32
  ch_ycbcr :: u32
  ch_quantization :: u32
  ch_driver_sequence :: u32
  ch_width :: u16
  ch_height :: u16
  ch_flags :: u8

definition plank_camera_header_valid :: "camera_header option \<Rightarrow> nat \<Rightarrow> bool" where
  "plank_camera_header_valid header payload_size \<longleftrightarrow>
     (case header of None \<Rightarrow> False | Some h \<Rightarrow>
       payload_size \<noteq> 0 \<and> payload_size \<le> PLANK_CAMERA_MAX_FRAME_BYTES \<and>
       ch_generation h \<noteq> 0 \<and> ch_sequence h \<noteq> UINT64_MAX \<and>
       ch_capture_time_us h \<noteq> 0 \<and> ch_capture_time_us h \<le> INT64_MAX div 1000 \<and>
       (ch_codec h = PLANK_CAMERA_H264 \<or> ch_codec h = PLANK_CAMERA_MJPEG) \<and>
       ((ch_width h = 1280 \<and> ch_height h = 720) \<or> (ch_width h = 1920 \<and> ch_height h = 1080)) \<and>
       and (ch_flags h) (not (or PLANK_CAMERA_KEY_FRAME PLANK_CAMERA_DISCONTINUITY)) = 0 \<and>
       (ch_codec h \<noteq> PLANK_CAMERA_MJPEG \<or> and (ch_flags h) PLANK_CAMERA_KEY_FRAME \<noteq> 0) \<and>
       ch_colorspace h \<le> 12 \<and> ch_transfer h \<le> 7 \<and> ch_ycbcr h \<le> 8 \<and> ch_quantization h \<le> 2)"

definition plank_camera_read_u64 :: "bytes \<Rightarrow> u64" where
  "plank_camera_read_u64 p =
     or (push_bit 32 (ucast (plank_transport_control_read_u32 p)))
       (ucast (plank_transport_control_read_u32 (drop 4 p)))"

definition plank_camera_write_u64 :: "bytes \<Rightarrow> nat \<Rightarrow> u64 \<Rightarrow> bytes" where
  "plank_camera_write_u64 output off value =
     plank_transport_control_write_u32
       (plank_transport_control_write_u32 output off (ucast (drop_bit 32 value)))
       (off + 4) (ucast value)"

definition plank_camera_control_decode :: "control_packet option \<Rightarrow> (u64 \<times> u32) option" where
  "plank_camera_control_decode packet =
     (case packet of None \<Rightarrow> None | Some p \<Rightarrow>
       if (cp_type p \<noteq> 10 \<and> cp_type p \<noteq> 11 \<and> cp_type p \<noteq> 12) \<or>
          cp_payload_size p \<noteq> (if cp_type p = 12 then 8 else 12)
       then None
       else
         let command = plank_camera_read_u64 (cp_payload p);
             state = (if cp_payload_size p = 12
                      then plank_transport_control_read_u32 (drop 8 (cp_payload p)) else 0)
         in if command = 0 \<or> command = UINT64_MAX \<or>
               (cp_type p = 10 \<and> 1 < state) \<or> (cp_type p = 11 \<and> 3 < state)
            then None else Some (command, state))"

definition plank_camera_header_encode ::
  "camera_header option \<Rightarrow> nat \<Rightarrow> bytes option \<Rightarrow> nat \<Rightarrow> bytes option" where
  "plank_camera_header_encode header payload_size out capacity =
     (if out = None \<or> capacity < PLANK_CAMERA_HEADER_BYTES \<or>
         \<not> plank_camera_header_valid header payload_size
      then None
      else
        let h = the header;
            o1 = put (the out) 0 (replicate PLANK_CAMERA_HEADER_BYTES 0);
            o2 = ((put o1 0 PCAM)[4 := 1])[5 := ch_flags h];
            o3 = o2[7 := of_nat PLANK_CAMERA_HEADER_BYTES];
            o4 = plank_camera_write_u64 o3 8 (ch_generation h);
            o5 = plank_camera_write_u64 o4 16 (ch_sequence h);
            o6 = plank_camera_write_u64 o5 24 (ch_capture_time_us h);
            o7 = plank_transport_control_write_u32 o6 32 (ch_codec h);
            o8 = plank_transport_control_write_u16 o7 36 (ch_width h);
            o9 = plank_transport_control_write_u16 o8 38 (ch_height h);
            o10 = plank_transport_control_write_u32 o9 40 (ch_colorspace h);
            o11 = plank_transport_control_write_u32 o10 44 (ch_transfer h);
            o12 = plank_transport_control_write_u32 o11 48 (ch_ycbcr h);
            o13 = plank_transport_control_write_u32 o12 52 (ch_quantization h)
        in Some (plank_transport_control_write_u32 o13 56 (ch_driver_sequence h)))"

definition plank_camera_header_decode :: "bytes option \<Rightarrow> nat \<Rightarrow> camera_header option" where
  "plank_camera_header_decode data sz =
     (case data of None \<Rightarrow> None | Some r \<Rightarrow>
       if sz \<le> PLANK_CAMERA_HEADER_BYTES \<or>
          PLANK_CAMERA_HEADER_BYTES + PLANK_CAMERA_MAX_FRAME_BYTES < sz \<or>
          take 4 r \<noteq> PCAM \<or> r ! 4 \<noteq> 1 \<or> r ! 6 \<noteq> 0 \<or>
          r ! 7 \<noteq> of_nat PLANK_CAMERA_HEADER_BYTES \<or>
          plank_transport_control_read_u32 (drop 60 r) \<noteq> 0
       then None
       else
         let value = \<lparr>
           ch_generation = plank_camera_read_u64 (drop 8 r),
           ch_sequence = plank_camera_read_u64 (drop 16 r),
           ch_capture_time_us = plank_camera_read_u64 (drop 24 r),
           ch_codec = plank_transport_control_read_u32 (drop 32 r),
           ch_colorspace = plank_transport_control_read_u32 (drop 40 r),
           ch_transfer = plank_transport_control_read_u32 (drop 44 r),
           ch_ycbcr = plank_transport_control_read_u32 (drop 48 r),
           ch_quantization = plank_transport_control_read_u32 (drop 52 r),
           ch_driver_sequence = plank_transport_control_read_u32 (drop 56 r),
           ch_width = plank_transport_control_read_u16 (drop 36 r),
           ch_height = plank_transport_control_read_u16 (drop 38 r),
           ch_flags = r ! 5\<rparr>
         in if plank_camera_header_valid (Some value) (sz - PLANK_CAMERA_HEADER_BYTES)
            then Some value else None)"

section \<open>The v1 header as bytes\<close>

definition be64 :: "u64 \<Rightarrow> bytes" where
  "be64 v = be32 (ucast (drop_bit 32 v)) @ be32 (ucast v)"

definition from_be64 :: "bytes \<Rightarrow> u64" where
  "from_be64 p = or (push_bit 32 (ucast (from_be32 p))) (ucast (from_be32 (drop 4 p)))"

lemma length_be64 [simp]: "length (be64 v) = 8"
  by (simp add: be64_def)

lemma from_be64_be64 [simp]: "from_be64 (be64 v @ r) = v"
  by (simp add: from_be64_def be64_def join64)

lemma bit_u32_out: "32 \<le> n \<Longrightarrow> \<not> bit (b :: u32) n"
  using bit_imp_le_length [of b n] by auto

lemma split64:
  fixes a b :: u32
  shows "ucast (drop_bit 32 (or (push_bit 32 (ucast a)) (ucast b) :: u64)) = a"
    "ucast (or (push_bit 32 (ucast a)) (ucast b) :: u64) = b"
  by (auto intro!: bit_word_eqI simp: bit_simps bit_u32_out)

lemma be64_from_be64 [simp]: "8 \<le> length p \<Longrightarrow> be64 (from_be64 p) = take 8 p"
  using take_drop_join [of 8 4 4 p] take_add [of 4 4 p]
  by (simp add: be64_def from_be64_def split64 del: drop_bit_or)

lemma camera_accessors [codec_simps]:
  "off + 8 \<le> length out \<Longrightarrow> plank_camera_write_u64 out off v = put out off (be64 v)"
  "plank_camera_read_u64 p = from_be64 p"
  by (simp_all add: plank_camera_write_u64_def plank_camera_read_u64_def be64_def from_be64_def
      control_accessors put_put_adjacent)

definition camera_wire :: "camera_header \<Rightarrow> bytes" where
  "camera_wire h = PCAM @ [1, ch_flags h, 0, 64] @ be64 (ch_generation h) @ be64 (ch_sequence h) @
     be64 (ch_capture_time_us h) @ be32 (ch_codec h) @ be16 (ch_width h) @ be16 (ch_height h) @
     be32 (ch_colorspace h) @ be32 (ch_transfer h) @ be32 (ch_ycbcr h) @
     be32 (ch_quantization h) @ be32 (ch_driver_sequence h) @ be32 0"

lemma length_camera_wire [simp]: "length (camera_wire h) = 64"
  by (simp add: camera_wire_def)

lemma be32_0: "be32 0 = [0, 0, 0, 0]"
  by (simp add: be32_def)

lemma camera_prefix:
  assumes "64 \<le> length output"
  shows "(put (put output 0 (replicate 64 0)) 0 PCAM)[4 := v, 5 := f, 7 := 64] =
    filled output (PCAM @ [v, f, 0, 64]) 56 0"
proof -
  have r: "put output 0 (replicate 64 0) = filled output [] 64 0"
    by (simp add: filled_def)
  have s: "filled output [0x50, 0x43, 0x41, 0x4d, v, f] 58 0 =
      filled output [0x50, 0x43, 0x41, 0x4d, v, f, 0] 57 0"
    using filled_skip [of 1 58 "output" "[0x50, 0x43, 0x41, 0x4d, v, f]" 0] by simp
  show ?thesis using assms
    by (simp add: r list_update_put put_filled) (simp add: s put_filled)
qed

lemma camera_encode_wire:
  assumes "plank_camera_header_valid (Some h) n" "64 \<le> cap" "cap \<le> length output"
  shows "plank_camera_header_encode (Some h) n (Some output) cap = Some (put output 0 (camera_wire h))"
  using assms
  by (simp add: plank_camera_header_encode_def camera_prefix codec_simps put_filled Let_def)
    (simp add: filled_def camera_wire_def be32_0 numeral_nat)

lemma camera_decode_wire:
  assumes "plank_camera_header_valid (Some h) (length payload)"
  shows "plank_camera_header_decode (Some (camera_wire h @ payload)) (64 + length payload) = Some h"
proof -
  have "payload \<noteq> []" "length payload \<le> 4194304"
    using assms by (auto simp: plank_camera_header_valid_def)
  then show ?thesis
    using assms
    by (cases h) (simp add: plank_camera_header_decode_def camera_wire_def codec_simps Let_def)
qed

lemma camera_decode_canonical:
  assumes "plank_camera_header_decode (Some r) (length r) = Some h"
  shows "take 64 r = camera_wire h" "64 < length r"
    "plank_camera_header_valid (Some h) (length r - 64)"
proof -
  note [simp del] = drop_all take_all
  have l: "64 < length r" "take 4 r = PCAM" "r ! 4 = 1" "r ! 6 = 0" "r ! 7 = 64"
      "from_be32 (drop 60 r) = 0"
    and v: "plank_camera_header_valid (Some h) (length r - 64)"
    and h: "h = \<lparr>ch_generation = from_be64 (drop 8 r), ch_sequence = from_be64 (drop 16 r),
      ch_capture_time_us = from_be64 (drop 24 r), ch_codec = from_be32 (drop 32 r),
      ch_colorspace = from_be32 (drop 40 r), ch_transfer = from_be32 (drop 44 r),
      ch_ycbcr = from_be32 (drop 48 r), ch_quantization = from_be32 (drop 52 r),
      ch_driver_sequence = from_be32 (drop 56 r), ch_width = from_be16 (drop 36 r),
      ch_height = from_be16 (drop 38 r), ch_flags = r ! 5\<rparr>"
    using assms by (simp_all add: plank_camera_header_decode_def codec_simps Let_def not_le
        split: if_split_asm)
  show "64 < length r" "plank_camera_header_valid (Some h) (length r - 64)" by fact+
  have z: "be32 0 = take 4 (drop 60 r)"
    using l(1) be32_from_be32 [of "drop 60 r"] unfolding l(6) by simp
  have t: "[1, r ! 5, 0, 64] = take 4 (drop 4 r)"
    using l by (intro nth_equalityI) (auto simp: less_Suc_eq numeral_nat)
  have "take 64 r = take 4 r @ take 4 (drop 4 r) @ take 8 (drop 8 r) @ take 8 (drop 16 r) @
      take 8 (drop 24 r) @ take 4 (drop 32 r) @ take 2 (drop 36 r) @ take 2 (drop 38 r) @
      take 4 (drop 40 r) @ take 4 (drop 44 r) @ take 4 (drop 48 r) @ take 4 (drop 52 r) @
      take 4 (drop 56 r) @ take 4 (drop 60 r)"
    using take_add [of 4 60 r] by (simp add: take_take_join)
  then show "take 64 r = camera_wire h"
    using l(1) by (simp add: camera_wire_def h l(2) z t)
qed

interpretation pcam1: record_codec
  "\<lambda>h n out cap. plank_camera_header_encode (Some h) n (Some out) cap"
  "\<lambda>r. plank_camera_header_decode (Some r) (length r)"
  "\<lambda>h n. plank_camera_header_valid (Some h) n" 64
proof unfold_locales
  fix h n out cap out' and payload :: bytes
  assume e: "plank_camera_header_encode (Some h) n (Some out) cap = Some out'"
    and c: "cap \<le> length out" and p: "length payload = n"
  then have ok: "plank_camera_header_valid (Some h) n" "64 \<le> cap"
    by (simp_all add: plank_camera_header_encode_def split: if_split_asm)
  have "take 64 out' = camera_wire h"
    using camera_encode_wire [OF ok c] e ok c by (auto simp: take_put_0)
  then show "plank_camera_header_decode (Some (take 64 out' @ payload))
      (length (take 64 out' @ payload)) = Some h"
    using camera_decode_wire [of h payload] ok p by simp
next
  fix h n cap and out :: bytes
  assume "plank_camera_header_valid (Some h) n" "64 \<le> cap" "cap \<le> length out"
  then show "\<exists>wire. length wire = 64 \<and>
      plank_camera_header_encode (Some h) n (Some out) cap = Some (put out 0 wire)"
    using camera_encode_wire length_camera_wire by blast
qed (auto simp: plank_camera_header_encode_def dest: camera_decode_canonical(2,3),
    metis camera_decode_canonical(1))


section \<open>PCAM v2\<close>

record encoded_camera_header =
  eh_generation :: u64
  eh_sequence :: u64
  eh_capture_time_us :: u64
  eh_codec :: u32
  eh_platform :: u32
  eh_encoder :: u32
  eh_source_pixel_format :: u32
  eh_width :: u16
  eh_height :: u16
  eh_nominal_fps :: u16
  eh_flags :: u8
  eh_primaries :: u8
  eh_transfer :: u8
  eh_matrix :: u8
  eh_range :: u8

definition plank_encoded_camera_header_valid :: "encoded_camera_header option \<Rightarrow> nat \<Rightarrow> bool" where
  "plank_encoded_camera_header_valid header payload \<longleftrightarrow>
     (case header of None \<Rightarrow> False | Some h \<Rightarrow>
       payload \<noteq> 0 \<and> payload \<le> PLANK_CAMERA_MAX_FRAME_BYTES \<and> eh_generation h \<noteq> 0 \<and>
       eh_sequence h \<noteq> UINT64_MAX \<and> eh_capture_time_us h \<noteq> 0 \<and>
       eh_capture_time_us h \<le> INT64_MAX div 1000 \<and>
       eh_codec h = PLANK_CAMERA_H264 \<and> eh_width h = 1280 \<and> eh_height h = 720 \<and>
       and (eh_flags h) (not (or PLANK_CAMERA_KEY_FRAME PLANK_CAMERA_DISCONTINUITY)) = 0 \<and>
       eh_platform h = 1 \<and> eh_encoder h = 1 \<and> eh_source_pixel_format h = 1 \<and>
       eh_primaries h = 1 \<and> eh_transfer h = 1 \<and> eh_matrix h = 1 \<and> eh_range h = 1 \<and>
       eh_nominal_fps h = 30)"

definition plank_encoded_camera_header_encode ::
  "encoded_camera_header option \<Rightarrow> nat \<Rightarrow> bytes option \<Rightarrow> nat \<Rightarrow> bytes option" where
  "plank_encoded_camera_header_encode header payload out capacity =
     (if out = None \<or> capacity < PLANK_CAMERA_HEADER_BYTES \<or>
         \<not> plank_encoded_camera_header_valid header payload
      then None
      else
        let h = the header;
            o1 = put (the out) 0 (replicate PLANK_CAMERA_HEADER_BYTES 0);
            o2 = ((put o1 0 PCAM)[4 := 2])[5 := eh_flags h];
            o3 = o2[7 := of_nat PLANK_CAMERA_HEADER_BYTES];
            o4 = plank_camera_write_u64 o3 8 (eh_generation h);
            o5 = plank_camera_write_u64 o4 16 (eh_sequence h);
            o6 = plank_camera_write_u64 o5 24 (eh_capture_time_us h);
            o7 = plank_transport_control_write_u32 o6 32 (eh_codec h);
            o8 = plank_transport_control_write_u16 o7 36 (eh_width h);
            o9 = plank_transport_control_write_u16 o8 38 (eh_height h);
            o10 = plank_transport_control_write_u32 o9 40 (eh_platform h);
            o11 = plank_transport_control_write_u32 o10 44 (eh_encoder h);
            o12 = plank_transport_control_write_u32 o11 48 (eh_source_pixel_format h);
            o13 = o12[52 := eh_primaries h, 53 := eh_transfer h, 54 := eh_matrix h,
                      55 := eh_range h]
        in Some (plank_transport_control_write_u16 o13 56 (eh_nominal_fps h)))"

definition plank_encoded_camera_header_decode ::
  "bytes option \<Rightarrow> nat \<Rightarrow> encoded_camera_header option" where
  "plank_encoded_camera_header_decode data sz =
     (case data of None \<Rightarrow> None | Some r \<Rightarrow>
       if sz \<le> PLANK_CAMERA_HEADER_BYTES \<or>
          PLANK_CAMERA_HEADER_BYTES + PLANK_CAMERA_MAX_FRAME_BYTES < sz \<or>
          take 4 r \<noteq> PCAM \<or> r ! 4 \<noteq> 2 \<or> r ! 6 \<noteq> 0 \<or>
          r ! 7 \<noteq> of_nat PLANK_CAMERA_HEADER_BYTES \<or>
          plank_transport_control_read_u16 (drop 58 r) \<noteq> 0 \<or>
          plank_transport_control_read_u32 (drop 60 r) \<noteq> 0
       then None
       else
         let h = \<lparr>
           eh_generation = plank_camera_read_u64 (drop 8 r),
           eh_sequence = plank_camera_read_u64 (drop 16 r),
           eh_capture_time_us = plank_camera_read_u64 (drop 24 r),
           eh_codec = plank_transport_control_read_u32 (drop 32 r),
           eh_platform = plank_transport_control_read_u32 (drop 40 r),
           eh_encoder = plank_transport_control_read_u32 (drop 44 r),
           eh_source_pixel_format = plank_transport_control_read_u32 (drop 48 r),
           eh_width = plank_transport_control_read_u16 (drop 36 r),
           eh_height = plank_transport_control_read_u16 (drop 38 r),
           eh_nominal_fps = plank_transport_control_read_u16 (drop 56 r),
           eh_flags = r ! 5, eh_primaries = r ! 52, eh_transfer = r ! 53,
           eh_matrix = r ! 54, eh_range = r ! 55\<rparr>
         in if plank_encoded_camera_header_valid (Some h) (sz - PLANK_CAMERA_HEADER_BYTES)
            then Some h else None)"

definition encoded_wire :: "encoded_camera_header \<Rightarrow> bytes" where
  "encoded_wire h = PCAM @ [2, eh_flags h, 0, 64] @ be64 (eh_generation h) @
     be64 (eh_sequence h) @ be64 (eh_capture_time_us h) @ be32 (eh_codec h) @
     be16 (eh_width h) @ be16 (eh_height h) @ be32 (eh_platform h) @ be32 (eh_encoder h) @
     be32 (eh_source_pixel_format h) @
     [eh_primaries h, eh_transfer h, eh_matrix h, eh_range h] @
     be16 (eh_nominal_fps h) @ be16 0 @ be32 0"

lemma length_encoded_wire [simp]: "length (encoded_wire h) = 64"
  by (simp add: encoded_wire_def)

lemma be16_0: "be16 0 = [0, 0]"
  by (simp add: be16_def)

lemma encoded_encode_wire:
  assumes "plank_encoded_camera_header_valid (Some h) n" "64 \<le> cap" "cap \<le> length output"
  shows "plank_encoded_camera_header_encode (Some h) n (Some output) cap =
    Some (put output 0 (encoded_wire h))"
proof -
  have z: "replicate 6 (0 :: u8) = be16 0 @ be32 0"
    by (simp add: be32_0 be16_0 numeral_nat)
  show ?thesis
    using assms
    by (simp add: plank_encoded_camera_header_encode_def camera_prefix codec_simps put_filled
        update_filled Let_def)
      (simp add: filled_def encoded_wire_def z)
qed

lemma encoded_decode_wire:
  assumes "plank_encoded_camera_header_valid (Some h) (length payload)"
  shows "plank_encoded_camera_header_decode (Some (encoded_wire h @ payload))
      (64 + length payload) = Some h"
proof -
  have "payload \<noteq> []" "length payload \<le> 4194304"
    using assms by (auto simp: plank_encoded_camera_header_valid_def)
  then show ?thesis
    using assms
    by (cases h) (simp add: plank_encoded_camera_header_decode_def encoded_wire_def codec_simps
        Let_def nth_append)
qed

lemma encoded_decode_canonical:
  assumes "plank_encoded_camera_header_decode (Some r) (length r) = Some h"
  shows "take 64 r = encoded_wire h" "64 < length r"
    "plank_encoded_camera_header_valid (Some h) (length r - 64)"
proof -
  note [simp del] = drop_all take_all
  have l: "64 < length r" "take 4 r = PCAM" "r ! 4 = 2" "r ! 6 = 0" "r ! 7 = 64"
      "from_be16 (drop 58 r) = 0" "from_be32 (drop 60 r) = 0"
    and v: "plank_encoded_camera_header_valid (Some h) (length r - 64)"
    and h: "h = \<lparr>eh_generation = from_be64 (drop 8 r), eh_sequence = from_be64 (drop 16 r),
      eh_capture_time_us = from_be64 (drop 24 r), eh_codec = from_be32 (drop 32 r),
      eh_platform = from_be32 (drop 40 r), eh_encoder = from_be32 (drop 44 r),
      eh_source_pixel_format = from_be32 (drop 48 r), eh_width = from_be16 (drop 36 r),
      eh_height = from_be16 (drop 38 r), eh_nominal_fps = from_be16 (drop 56 r),
      eh_flags = r ! 5, eh_primaries = r ! 52, eh_transfer = r ! 53, eh_matrix = r ! 54,
      eh_range = r ! 55\<rparr>"
    using assms by (simp_all add: plank_encoded_camera_header_decode_def codec_simps Let_def
        not_le split: if_split_asm)
  show "64 < length r" "plank_encoded_camera_header_valid (Some h) (length r - 64)" by fact+
  have z: "be32 0 = take 4 (drop 60 r)" "be16 0 = take 2 (drop 58 r)"
    using l(1) be32_from_be32 [of "drop 60 r"] be16_from_be16 [of "drop 58 r"]
    unfolding l(6,7) by simp_all
  have t: "[2, r ! 5, 0, 64] = take 4 (drop 4 r)"
    "[r ! 52, r ! 53, r ! 54, r ! 55] = take 4 (drop 52 r)"
    using l by (auto intro!: nth_equalityI simp: less_Suc_eq numeral_nat)
  have "take 64 r = take 4 r @ take 4 (drop 4 r) @ take 8 (drop 8 r) @ take 8 (drop 16 r) @
      take 8 (drop 24 r) @ take 4 (drop 32 r) @ take 2 (drop 36 r) @ take 2 (drop 38 r) @
      take 4 (drop 40 r) @ take 4 (drop 44 r) @ take 4 (drop 48 r) @ take 4 (drop 52 r) @
      take 2 (drop 56 r) @ take 2 (drop 58 r) @ take 4 (drop 60 r)"
    using take_add [of 4 60 r] by (simp add: take_take_join)
  then show "take 64 r = encoded_wire h"
    using l(1) by (simp add: encoded_wire_def h l(2) z t)
qed

interpretation pcam2: record_codec
  "\<lambda>h n out cap. plank_encoded_camera_header_encode (Some h) n (Some out) cap"
  "\<lambda>r. plank_encoded_camera_header_decode (Some r) (length r)"
  "\<lambda>h n. plank_encoded_camera_header_valid (Some h) n" 64
proof unfold_locales
  fix h n out cap out' and payload :: bytes
  assume e: "plank_encoded_camera_header_encode (Some h) n (Some out) cap = Some out'"
    and c: "cap \<le> length out" and p: "length payload = n"
  then have ok: "plank_encoded_camera_header_valid (Some h) n" "64 \<le> cap"
    by (simp_all add: plank_encoded_camera_header_encode_def split: if_split_asm)
  have "take 64 out' = encoded_wire h"
    using encoded_encode_wire [OF ok c] e ok c by (auto simp: take_put_0)
  then show "plank_encoded_camera_header_decode (Some (take 64 out' @ payload))
      (length (take 64 out' @ payload)) = Some h"
    using encoded_decode_wire [of h payload] ok p by simp
next
  fix h n cap and out :: bytes
  assume "plank_encoded_camera_header_valid (Some h) n" "64 \<le> cap" "cap \<le> length out"
  then show "\<exists>wire. length wire = 64 \<and>
      plank_encoded_camera_header_encode (Some h) n (Some out) cap = Some (put out 0 wire)"
    using encoded_encode_wire length_encoded_wire by blast
qed (auto simp: plank_encoded_camera_header_encode_def dest: encoded_decode_canonical(2,3),
    metis encoded_decode_canonical(1))

section \<open>Properties\<close>

text \<open>A camera record keeps its header: whenever the v1 header is valid for a payload, encoding it
  into any buffer with room for 64 bytes and appending the payload gives a record that the v1
  decoder accepts with exactly that header, and that the v2 decoder refuses.\<close>

theorem camera_record_roundtrip:
  assumes "plank_camera_header_valid (Some h) (length payload)" "64 \<le> cap" "cap \<le> length out"
  shows "\<exists>out'. plank_camera_header_encode (Some h) (length payload) (Some out) cap = Some out' \<and>
    plank_camera_header_decode (Some (take 64 out' @ payload)) (64 + length payload) = Some h \<and>
    plank_encoded_camera_header_decode (Some (take 64 out' @ payload)) (64 + length payload) = None"
proof -
  let ?o = "put out 0 (camera_wire h)"
  have t: "take 64 ?o = camera_wire h" using assms by (simp add: take_put_0)
  have "plank_encoded_camera_header_decode (Some (camera_wire h @ payload)) n = None" for n
    by (simp add: plank_encoded_camera_header_decode_def camera_wire_def)
  then show ?thesis
    using camera_encode_wire [OF assms] camera_decode_wire [OF assms(1)] t by auto
qed

theorem camera_record_roundtrip_witness:
  "\<exists>out'. plank_camera_header_encode (Some \<lparr>ch_generation = 5, ch_sequence = 6,
      ch_capture_time_us = 7, ch_codec = 0x4d4a5047, ch_colorspace = 8, ch_transfer = 1,
      ch_ycbcr = 2, ch_quantization = 1, ch_driver_sequence = 9, ch_width = 1280,
      ch_height = 720, ch_flags = 1\<rparr>) (length [0xff, 0xd8 :: u8]) (Some (replicate 64 0)) 64 = Some out' \<and>
    plank_camera_header_decode (Some (take 64 out' @ [0xff, 0xd8])) (64 + length [0xff, 0xd8 :: u8]) =
      Some \<lparr>ch_generation = 5, ch_sequence = 6,
      ch_capture_time_us = 7, ch_codec = 0x4d4a5047, ch_colorspace = 8, ch_transfer = 1,
      ch_ycbcr = 2, ch_quantization = 1, ch_driver_sequence = 9, ch_width = 1280,
      ch_height = 720, ch_flags = 1\<rparr> \<and>
    plank_encoded_camera_header_decode (Some (take 64 out' @ [0xff, 0xd8]))
      (64 + length [0xff, 0xd8 :: u8]) = None"
  by (rule camera_record_roundtrip) (simp_all add: plank_camera_header_valid_def)

text \<open>Every v2 record the decoder accepts was written by the v2 encoder: re-encoding the decoded
  header for the record's payload length succeeds in any buffer with room and reproduces the first
  64 bytes of the record, and the header satisfies the validity conditions.\<close>

theorem encoded_camera_record_canonical:
  assumes "plank_encoded_camera_header_decode (Some r) (length r) = Some h"
    "64 \<le> cap" "cap \<le> length out"
  shows "plank_encoded_camera_header_valid (Some h) (length r - 64) \<and>
    (\<exists>out'. plank_encoded_camera_header_encode (Some h) (length r - 64) (Some out) cap = Some out' \<and>
      take 64 out' = take 64 r \<and> drop 64 out' = drop 64 out)"
  using pcam2.reencode [OF assms] pcam2.dec_valid [OF assms(1)] by simp

theorem encoded_camera_record_canonical_witness:
  "plank_encoded_camera_header_valid (Some \<lparr>eh_generation = 5, eh_sequence = 6,
      eh_capture_time_us = 7, eh_codec = 0x48323634, eh_platform = 1, eh_encoder = 1,
      eh_source_pixel_format = 1, eh_width = 1280, eh_height = 720, eh_nominal_fps = 30,
      eh_flags = 1, eh_primaries = 1, eh_transfer = 1, eh_matrix = 1, eh_range = 1\<rparr>) 2"
proof -
  let ?h = "\<lparr>eh_generation = 5, eh_sequence = 6, eh_capture_time_us = 7, eh_codec = 0x48323634,
      eh_platform = 1, eh_encoder = 1, eh_source_pixel_format = 1, eh_width = 1280,
      eh_height = 720, eh_nominal_fps = 30, eh_flags = 1, eh_primaries = 1, eh_transfer = 1,
      eh_matrix = 1, eh_range = 1\<rparr>"
  have "plank_encoded_camera_header_decode (Some (encoded_wire ?h @ [1, 2]))
      (length (encoded_wire ?h @ [1, 2])) = Some ?h"
    using encoded_decode_wire [of ?h "[1, 2]"] by (simp add: plank_encoded_camera_header_valid_def)
  from encoded_camera_record_canonical [OF this, of 64 "replicate 64 0"] show ?thesis by simp
qed

text \<open>The camera control decoder accepts a packet with a 64-bit generation and a state exactly when
  the generation is neither zero nor all ones, and the state is within the bound of its packet
  type; the reserved generations and every out-of-range state are refused.\<close>

theorem camera_control_decode_iff:
  "plank_camera_control_decode (Some \<lparr>cp_type = t, cp_payload = be64 g @ be32 s,
      cp_payload_size = 12\<rparr>) = Some (g', s') \<longleftrightarrow>
    g' = g \<and> s' = s \<and> g \<noteq> 0 \<and> g \<noteq> UINT64_MAX \<and> (t = 10 \<and> s \<le> 1 \<or> t = 11 \<and> s \<le> 3)"
  by (auto simp: plank_camera_control_decode_def codec_simps Let_def)

end
