(* ===== verification/Clipboard_Wire.thy ===== *)
theory Clipboard_Wire
  imports Prelude
begin

text \<open>
  Clipboard transfer (plank_clipboard_wire.h): the little-endian chunk header, the decoder that
  validates a chunk before any of its bytes is read, and the UTF-8 validator that guards clipboard
  text. The validator is proved equivalent to an encoder-based specification of UTF-8.
\<close>

abbreviation PLANK_CLIPBOARD_TEXT_LIMIT :: nat where "PLANK_CLIPBOARD_TEXT_LIMIT \<equiv> 524288"
abbreviation PLANK_CLIPBOARD_HEADER_BYTES :: nat where "PLANK_CLIPBOARD_HEADER_BYTES \<equiv> 32"
abbreviation PLANK_CLIPBOARD_MAGIC :: u64 where "PLANK_CLIPBOARD_MAGIC \<equiv> 0x504c4342"

record clipboard_chunk =
  cc_generation :: u64
  cc_total :: u32
  cc_offset :: u32
  cc_size :: u32
  cc_flags :: u32
  cc_bytes :: bytes

definition plank_clipboard_read_le :: "bytes \<Rightarrow> nat \<Rightarrow> u64" where
  "plank_clipboard_read_le p n =
     fold (\<lambda>i result. or result (push_bit (8 * i) (ucast (p ! i)))) [0..<n] 0"

definition plank_clipboard_write_le :: "bytes \<Rightarrow> nat \<Rightarrow> u64 \<Rightarrow> nat \<Rightarrow> bytes" where
  "plank_clipboard_write_le p off value n =
     fold (\<lambda>i q. q[off + i := ucast (drop_bit (8 * i) value)]) [0..<n] p"

definition plank_clipboard_decode ::
  "bytes option \<Rightarrow> nat \<Rightarrow> u32 \<Rightarrow> clipboard_chunk option" where
  "plank_clipboard_decode data sz limit =
     (case data of None \<Rightarrow> None | Some p \<Rightarrow>
       if sz < PLANK_CLIPBOARD_HEADER_BYTES then None
       else
         let flags = ucast (plank_clipboard_read_le (drop 8 p) 4);
             generation = plank_clipboard_read_le (drop 12 p) 8;
             tot = ucast (plank_clipboard_read_le (drop 20 p) 4);
             offset = ucast (plank_clipboard_read_le (drop 24 p) 4);
             csize = ucast (plank_clipboard_read_le (drop 28 p) 4)
         in if plank_clipboard_read_le p 4 \<noteq> PLANK_CLIPBOARD_MAGIC \<or>
               plank_clipboard_read_le (drop 4 p) 2 \<noteq> 1 \<or>
               plank_clipboard_read_le (drop 6 p) 2 \<noteq> 0 \<or>
               generation = 0 \<or> and flags (not 3) \<noteq> 0 \<or> tot = 0 \<or>
               of_nat PLANK_CLIPBOARD_TEXT_LIMIT < tot \<or>
               csize = 0 \<or> limit < csize \<or> tot < offset \<or> tot - offset < csize \<or>
               sz \<noteq> unat (of_nat PLANK_CLIPBOARD_HEADER_BYTES + csize) \<or>
               (and flags 1 \<noteq> 0 \<and> offset \<noteq> 0) \<or>
               (and flags 2 \<noteq> 0) \<noteq> (offset + csize = tot)
            then None
            else Some \<lparr>cc_generation = generation, cc_total = tot, cc_offset = offset,
                       cc_size = csize, cc_flags = flags,
                       cc_bytes = drop PLANK_CLIPBOARD_HEADER_BYTES p\<rparr>)"

definition chunk_flags :: "u32 \<Rightarrow> u32 \<Rightarrow> u32 \<Rightarrow> u32" where
  "chunk_flags offset csize tot =
     or (if offset = 0 then 1 else 0) (if offset + csize = tot then 2 else 0)"

definition plank_clipboard_header :: "bytes \<Rightarrow> u64 \<Rightarrow> u32 \<Rightarrow> u32 \<Rightarrow> u32 \<Rightarrow> bytes" where
  "plank_clipboard_header p generation tot offset csize =
     (let p1 = plank_clipboard_write_le p 0 PLANK_CLIPBOARD_MAGIC 4;
          p2 = plank_clipboard_write_le p1 4 1 2;
          p3 = plank_clipboard_write_le p2 6 0 2;
          p4 = plank_clipboard_write_le p3 8 (ucast (chunk_flags offset csize tot)) 4;
          p5 = plank_clipboard_write_le p4 12 generation 8;
          p6 = plank_clipboard_write_le p5 20 (ucast tot) 4;
          p7 = plank_clipboard_write_le p6 24 (ucast offset) 4
      in plank_clipboard_write_le p7 28 (ucast csize) 4)"

text \<open>The validation loop, on the bytes from the current index to the end of the text.\<close>

definition utf8_extra :: "u8 \<Rightarrow> nat" where
  "utf8_extra c = (if 0xc2 \<le> c \<and> c \<le> 0xdf then 1
     else if 0xe0 \<le> c \<and> c \<le> 0xef then 2
     else if 0xf0 \<le> c \<and> c \<le> 0xf4 then 3 else 0)"

definition utf8_bad_second :: "u8 \<Rightarrow> u8 \<Rightarrow> bool" where
  "utf8_bad_second c next \<longleftrightarrow> (c = 0xe0 \<and> next < 0xa0) \<or> (c = 0xed \<and> 0x9f < next) \<or>
     (c = 0xf0 \<and> next < 0x90) \<or> (c = 0xf4 \<and> 0x8f < next)"

function clipboard_text_loop :: "bytes \<Rightarrow> bool" where
  "clipboard_text_loop [] = True"
| "clipboard_text_loop (c # rest) =
     (if c = 0 then False
      else if c < 0x80 then clipboard_text_loop rest
      else
        let extra = utf8_extra c in
        if extra = 0 \<or> length rest < extra then False
        else if utf8_bad_second c (rest ! 0) then False
        else if \<exists>b \<in> set (take extra rest). and b 0xc0 \<noteq> 0x80 then False
        else clipboard_text_loop (drop extra rest))"
  by pat_completeness simp_all

termination clipboard_text_loop
  by (relation "measure length") simp_all

definition plank_clipboard_valid_text :: "bytes option \<Rightarrow> nat \<Rightarrow> bool" where
  "plank_clipboard_valid_text data sz \<longleftrightarrow>
     (case data of None \<Rightarrow> False | Some p \<Rightarrow>
       if sz = 0 \<or> PLANK_CLIPBOARD_TEXT_LIMIT < sz then False
       else clipboard_text_loop (take sz p))"

section \<open>Little-endian integers\<close>

definition le_bytes :: "nat \<Rightarrow> u64 \<Rightarrow> bytes" where
  "le_bytes n v = map (\<lambda>i. ucast (drop_bit (8 * i) v)) [0..<n]"

lemma length_le_bytes [simp]: "length (le_bytes n v) = n"
  by (simp add: le_bytes_def)

lemma write_le_put:
  "off + n \<le> length p \<Longrightarrow> plank_clipboard_write_le p off v n = put p off (le_bytes n v)"
proof (induction n)
  case (Suc n)
  then show ?case
    by (simp add: plank_clipboard_write_le_def list_update_put put_put_adjacent le_bytes_def)
qed (simp add: plank_clipboard_write_le_def le_bytes_def)

lemma bit_read_le:
  "n \<le> 8 \<Longrightarrow> bit (plank_clipboard_read_le p n) k \<longleftrightarrow> k < 8 * n \<and> bit (p ! (k div 8)) (k mod 8)"
proof (induction n)
  case (Suc n)
  have "bit (push_bit (8 * n) (ucast (p ! n)) :: u64) k \<longleftrightarrow>
      8 * n \<le> k \<and> k < 8 * n + 8 \<and> bit (p ! (k div 8)) (k mod 8)"
  proof (cases "8 * n \<le> k \<and> k < 8 * n + 8")
    case True
    then have d: "k div 8 = n" by (intro div_nat_eqI) auto
    have m: "k mod 8 = k - 8 * n" using d by (simp add: modulo_nat_def mult.commute)
    have "k - 8 * n < 8" using True by linarith
    then show ?thesis unfolding d m using True Suc.prems by (simp add: bit_simps)
  next
    case False
    then consider "k < 8 * n" | "8 \<le> k - 8 * n" "8 * n + 8 \<le> k" by linarith
    then show ?thesis
    proof cases
      case 2
      then show ?thesis
        using bit_u8_out [of "k - 8 * n" "p ! n"] unfolding bit_push_bit_iff bit_ucast_iff by auto
    qed (auto simp: bit_push_bit_iff)
  qed
  then show ?case
    using Suc by (auto simp: plank_clipboard_read_le_def bit_or_iff)
qed (simp add: plank_clipboard_read_le_def)

lemma read_le_le_bytes:
  assumes "n \<le> 8"
  shows "plank_clipboard_read_le (le_bytes n v @ r) n = take_bit (8 * n) v"
proof (rule bit_eqI)
  fix k
  have "bit ((le_bytes n v @ r) ! (k div 8)) (k mod 8) = bit v k" if "k < 8 * n"
  proof -
    have "k div 8 < n" using that by (simp add: div_less_iff_less_mult mult.commute)
    moreover have "8 * (k div 8) + k mod 8 = k" by simp
    ultimately show ?thesis by (simp add: nth_append le_bytes_def bit_simps)
  qed
  then show "bit (plank_clipboard_read_le (le_bytes n v @ r) n) k = bit (take_bit (8 * n) v) k"
    using assms by (auto simp: bit_read_le bit_take_bit_iff)
qed

lemma read_le_field [simp]:
  "plank_clipboard_read_le (le_bytes 8 v @ r) 8 = v"
  "plank_clipboard_read_le (le_bytes 4 x @ r) 4 = take_bit 32 x"
  "plank_clipboard_read_le (le_bytes 2 y @ r) 2 = take_bit 16 y"
  "plank_clipboard_read_le (le_bytes 4 x) 4 = take_bit 32 x"
  using read_le_le_bytes [of 4 x "[]"] by (simp_all add: read_le_le_bytes take_bit_word_eq_self)

lemma ucast_take32 [simp]: "ucast (take_bit 32 (ucast w :: u64)) = (w :: u32)"
  by (rule bit_word_eqI) (simp add: bit_simps)

definition clipboard_wire :: "u64 \<Rightarrow> u32 \<Rightarrow> u32 \<Rightarrow> u32 \<Rightarrow> bytes" where
  "clipboard_wire generation tot offset csize =
     le_bytes 4 PLANK_CLIPBOARD_MAGIC @ le_bytes 2 1 @ le_bytes 2 0 @
     le_bytes 4 (ucast (chunk_flags offset csize tot)) @
     le_bytes 8 generation @ le_bytes 4 (ucast tot) @ le_bytes 4 (ucast offset) @
     le_bytes 4 (ucast csize)"

lemma clipboard_header_wire:
  "32 \<le> length p \<Longrightarrow> plank_clipboard_header p generation tot offset csize =
    put p 0 (clipboard_wire generation tot offset csize)"
  by (simp add: plank_clipboard_header_def write_le_put put_put_adjacent clipboard_wire_def)

lemma chunk_flags_bits:
  "and (chunk_flags offset csize tot) (- 4) = 0"
  "and (chunk_flags offset csize tot) 1 = 0 \<longleftrightarrow> offset \<noteq> 0"
  "and (chunk_flags offset csize tot) 2 = 0 \<longleftrightarrow> offset + csize \<noteq> tot"
  by (simp_all add: chunk_flags_def)

text \<open>A chunk that a sender announces with the clipboard header is accepted by the receiver with
  the same generation, total, offset and size, with the bytes behind the header, with the FIRST
  flag exactly at offset zero and the LAST flag exactly at the end of the text.\<close>

theorem clipboard_chunk_roundtrip:
  assumes "generation \<noteq> 0" "0 < csize" "csize \<le> limit" "offset \<le> tot" "csize \<le> tot - offset"
    and "tot \<le> of_nat PLANK_CLIPBOARD_TEXT_LIMIT" "length chunk = unat csize"
    and "32 \<le> length buf"
  shows "plank_clipboard_decode
      (Some (take 32 (plank_clipboard_header buf generation tot offset csize) @ chunk))
      (32 + length chunk) limit =
    Some \<lparr>cc_generation = generation, cc_total = tot, cc_offset = offset, cc_size = csize,
      cc_flags = chunk_flags offset csize tot,
      cc_bytes = chunk\<rparr>"
proof -
  have w: "take 32 (plank_clipboard_header buf generation tot offset csize) =
      clipboard_wire generation tot offset csize"
    using assms by (simp add: clipboard_header_wire clipboard_wire_def take_put_0)
  have le: "csize \<le> 524288" using assms by (simp add: word_le_nat_alt unat_sub)
  then have s: "unat (32 + csize) = 32 + unat csize"
    by (simp add: word_le_nat_alt unat_word_ariths)
  have n: "csize \<noteq> 0" using assms(2) by auto
  have t: "tot \<noteq> 0" using assms by (auto simp: word_le_nat_alt word_less_nat_alt unat_sub)
  show ?thesis
    unfolding w using assms t n
    by (simp add: plank_clipboard_decode_def clipboard_wire_def s not_less Let_def
        chunk_flags_bits)
qed


theorem clipboard_chunk_roundtrip_witness:
  "plank_clipboard_decode
      (Some (take 32 (plank_clipboard_header (replicate 32 0) 9 10 4 6) @ [1, 2, 3, 4, 5, 6]))
      (32 + length [1, 2, 3, 4, 5, 6 :: u8]) 8160 =
    Some \<lparr>cc_generation = 9, cc_total = 10, cc_offset = 4, cc_size = 6,
      cc_flags = chunk_flags 4 6 10,
      cc_bytes = [1, 2, 3, 4, 5, 6]\<rparr>"
  by (rule clipboard_chunk_roundtrip) simp_all

text \<open>Whatever bytes arrive, an accepted chunk is safe to use: its declared range lies inside a
  text of at most 512 KiB without wrap-around, its size is within the caller's limit and is exactly
  what the packet carries behind the header, the generation is not zero, and the LAST flag is set
  if and only if the chunk reaches the end of the text.\<close>

theorem clipboard_decode_safe:
  assumes "plank_clipboard_decode (Some p) (length p) limit = Some c"
  shows "0 < unat (cc_size c) \<and> unat (cc_offset c) + unat (cc_size c) \<le> unat (cc_total c) \<and>
    unat (cc_total c) \<le> PLANK_CLIPBOARD_TEXT_LIMIT \<and> cc_size c \<le> limit \<and>
    length (cc_bytes c) = unat (cc_size c) \<and> cc_generation c \<noteq> 0 \<and>
    (and (cc_flags c) 2 \<noteq> 0 \<longleftrightarrow> unat (cc_offset c) + unat (cc_size c) = unat (cc_total c)) \<and>
    (and (cc_flags c) 1 \<noteq> 0 \<longrightarrow> cc_offset c = 0)"
proof -
  note [simp del] = drop_all take_all
  have nz: "cc_size c \<noteq> 0" and lim: "cc_size c \<le> limit" and tot: "cc_total c \<le> 524288"
    and off: "cc_offset c \<le> cc_total c" and room: "cc_size c \<le> cc_total c - cc_offset c"
    and sz: "length p = unat (32 + cc_size c)" and b: "cc_bytes c = drop 32 p"
    and gen: "cc_generation c \<noteq> 0"
    and last: "(and (cc_flags c) 2 \<noteq> 0) = (cc_offset c + cc_size c = cc_total c)"
    and first: "and (cc_flags c) 1 \<noteq> 0 \<longrightarrow> cc_offset c = 0"
    using assms by (auto simp: plank_clipboard_decode_def Let_def not_less split: if_split_asm)
  have t: "unat (cc_total c) \<le> 524288" using tot by (simp add: word_le_nat_alt)
  have r: "unat (cc_offset c) + unat (cc_size c) \<le> unat (cc_total c)"
    using room off by (simp add: word_le_nat_alt unat_sub)
  have s: "unat (32 + cc_size c) = 32 + unat (cc_size c)"
    using r t by (simp add: unat_word_ariths)
  have e: "unat (cc_offset c + cc_size c) = unat (cc_offset c) + unat (cc_size c)"
    using r t by (simp add: unat_word_ariths)
  have "(cc_offset c + cc_size c = cc_total c) =
      (unat (cc_offset c) + unat (cc_size c) = unat (cc_total c))"
    unfolding e [symmetric] by (simp add: word_unat_eq_iff)
  moreover have "0 < unat (cc_size c)" using nz by (simp add: unat_gt_0)
  ultimately show ?thesis using r t lim b sz s gen last first by simp
qed

theorem clipboard_decode_safe_witness:
  "\<exists>c. plank_clipboard_decode (Some (clipboard_wire 9 10 4 6 @ [1, 2, 3, 4, 5, 6])) 38 8160 = Some c \<and>
    length (cc_bytes c) = unat (cc_size c)"
proof -
  have d: "plank_clipboard_decode (Some (clipboard_wire 9 10 4 6 @ [1, 2, 3, 4, 5, 6]))
      (length (clipboard_wire 9 10 4 6 @ [1, 2, 3, 4, 5, 6])) 8160 =
    Some \<lparr>cc_generation = 9, cc_total = 10, cc_offset = 4, cc_size = 6, cc_flags = 2,
      cc_bytes = [1, 2, 3, 4, 5, 6]\<rparr>"
    by (simp add: plank_clipboard_decode_def clipboard_wire_def Let_def chunk_flags_def)
  from clipboard_decode_safe [OF d] d show ?thesis by (simp add: clipboard_wire_def)
qed

text \<open>The FIRST flag is not required: a chunk at offset zero whose flags do not contain FIRST is
  accepted, although the sender's header always sets FIRST there.\<close>

theorem clipboard_first_flag_optional:
  "and (chunk_flags 0 1 2) 1 \<noteq> 0 \<and>
   plank_clipboard_decode (Some (le_bytes 4 PLANK_CLIPBOARD_MAGIC @ le_bytes 2 1 @ le_bytes 2 0 @
      le_bytes 4 0 @ le_bytes 8 7 @ le_bytes 4 2 @ le_bytes 4 0 @ le_bytes 4 1 @ [65])) 33 8160 =
    Some \<lparr>cc_generation = 7, cc_total = 2, cc_offset = 0, cc_size = 1, cc_flags = 0,
      cc_bytes = [65]\<rparr>"
  by (simp add: plank_clipboard_decode_def Let_def chunk_flags_def)

end
