(* ===== verification/Utf8.thy ===== *)
theory Utf8
  imports Clipboard_Wire
begin

text \<open>
  What the clipboard validator is for: an encoder-based specification of UTF-8 (the bytes of each
  Unicode scalar value other than NUL), and the proof that the validation loop accepts exactly the
  concatenations of such encodings.
\<close>

definition unicode_scalar :: "nat \<Rightarrow> bool" where
  "unicode_scalar c \<longleftrightarrow> 0 < c \<and> c < 0x110000 \<and> \<not> (0xD800 \<le> c \<and> c < 0xE000)"

definition utf8 :: "nat \<Rightarrow> bytes" where
  "utf8 c = (if c < 0x80 then [of_nat c]
     else if c < 0x800 then [of_nat (0xC0 + c div 64), of_nat (0x80 + c mod 64)]
     else if c < 0x10000 then
       [of_nat (0xE0 + c div 4096), of_nat (0x80 + c div 64 mod 64), of_nat (0x80 + c mod 64)]
     else [of_nat (0xF0 + c div 262144), of_nat (0x80 + c div 4096 mod 64),
       of_nat (0x80 + c div 64 mod 64), of_nat (0x80 + c mod 64)])"

definition utf8_text :: "bytes \<Rightarrow> bool" where
  "utf8_text p \<longleftrightarrow> (\<exists>cs. (\<forall>c \<in> set cs. unicode_scalar c) \<and> p = concat (map utf8 cs))"

lemma u8_cases: "\<exists>n < 256. b = (of_nat n :: u8)"
  by (rule exI [of _ "unat b"]) (use unsigned_less [of b] in simp)

lemma continuation_div:
  fixes b :: u8
  shows "(and b 0xc0 = 0x80) = (unat b div 64 = 2)"
proof -
  have m: "(0xc0 :: u8) = push_bit 6 (mask 2)" "(0x80 :: u8) = push_bit 6 2"
    by (simp_all add: mask_eq_exp_minus_1 push_bit_eq_mult)
  have "and b 0xc0 = push_bit 6 (drop_bit 6 b)"
    unfolding m(1) by (rule bit_word_eqI) (auto simp: bit_simps)
  moreover have "push_bit 6 (drop_bit 6 b) = push_bit 6 2 \<longleftrightarrow> drop_bit 6 b = 2"
  proof
    assume "push_bit 6 (drop_bit 6 b) = push_bit 6 2"
    then have "drop_bit 6 (push_bit 6 (drop_bit 6 b)) = drop_bit 6 (push_bit 6 2)" by simp
    moreover have "drop_bit 6 (push_bit 6 (drop_bit 6 b)) = drop_bit 6 b"
    proof (rule bit_word_eqI)
      fix n
      have "\<not> bit b (6 + n)" if "\<not> n < 2" using that bit_u8_out [of "6 + n" b] by simp
      then show "bit (drop_bit 6 (push_bit 6 (drop_bit 6 b))) n = bit (drop_bit 6 b) n"
        if "n < LENGTH(8)"
        using that by (auto simp: bit_simps)
    qed
    ultimately show "drop_bit 6 b = 2" by simp
  qed simp
  moreover have "drop_bit 6 b = 2 \<longleftrightarrow> unat b div 64 = 2"
    unfolding word_unat_eq_iff unat_drop_bit_eq by (simp add: drop_bit_eq_div)
  ultimately show ?thesis unfolding m(2) by simp
qed

lemma continuation_iff: "n < 256 \<Longrightarrow> (and (of_nat n :: u8) 0xc0 = 0x80) = (0x80 \<le> n \<and> n < 0xc0)"
  unfolding continuation_div by (auto simp: unat_of_nat)

lemma of_nat_u8_le: "m < 256 \<Longrightarrow> n < 256 \<Longrightarrow> (of_nat m :: u8) \<le> of_nat n \<longleftrightarrow> m \<le> n"
  by (simp add: word_le_nat_alt unat_of_nat)

lemma of_nat_u8_less: "m < 256 \<Longrightarrow> n < 256 \<Longrightarrow> (of_nat m :: u8) < of_nat n \<longleftrightarrow> m < n"
  by (simp add: word_less_nat_alt unat_of_nat)

lemma of_nat_u8_eq: "m < 256 \<Longrightarrow> n < 256 \<Longrightarrow> (of_nat m :: u8) = of_nat n \<longleftrightarrow> m = n"
  by (simp add: word_unat_eq_iff unat_of_nat)

text \<open>The loop on bytes given by their values.\<close>

definition seq_extra :: "nat \<Rightarrow> nat" where
  "seq_extra n = (if 0xc2 \<le> n \<and> n \<le> 0xdf then 1 else if 0xe0 \<le> n \<and> n \<le> 0xef then 2
     else if 0xf0 \<le> n \<and> n \<le> 0xf4 then 3 else 0)"

lemma text_loop_nat:
  assumes "n < 256"
  shows "clipboard_text_loop (of_nat n # rest) =
    (if n = 0 then False
     else if n < 0x80 then clipboard_text_loop rest
     else seq_extra n \<noteq> 0 \<and> seq_extra n \<le> length rest \<and>
       \<not> ((n = 0xe0 \<and> unat (rest ! 0) < 0xa0) \<or> (n = 0xed \<and> 0x9f < unat (rest ! 0)) \<or>
          (n = 0xf0 \<and> unat (rest ! 0) < 0x90) \<or> (n = 0xf4 \<and> 0x8f < unat (rest ! 0))) \<and>
       (\<forall>b \<in> set (take (seq_extra n) rest). and b 0xc0 = 0x80) \<and>
       clipboard_text_loop (drop (seq_extra n) rest))"
proof -
  note [simp] = of_nat_u8_eq [of n 0, simplified] of_nat_u8_less [of n "0x80", simplified]
    of_nat_u8_eq [of n "0xe0", simplified] of_nat_u8_eq [of n "0xed", simplified]
    of_nat_u8_eq [of n "0xf0", simplified] of_nat_u8_eq [of n "0xf4", simplified]
  have e: "utf8_extra (of_nat n) = seq_extra n"
    using assms of_nat_u8_le [of "0xc2" n] of_nat_u8_le [of n "0xdf"] of_nat_u8_le [of "0xe0" n]
      of_nat_u8_le [of n "0xef"] of_nat_u8_le [of "0xf0" n] of_nat_u8_le [of n "0xf4"]
    by (simp add: utf8_extra_def seq_extra_def)
  have u: "unat (of_nat n :: u8) = n" using assms by (simp add: unat_of_nat)
  show ?thesis
    unfolding clipboard_text_loop.simps e Let_def
    using assms by (auto simp: not_less word_less_nat_alt u utf8_bad_second_def)
qed

declare clipboard_text_loop.simps(2) [simp del]

lemma div64: "c div 64 div 64 = c div 4096" "c div 4096 div 64 = c div (262144 :: nat)"
  by (simp_all add: div_mult2_eq [symmetric])

section \<open>The loop accepts every encoding\<close>

lemma text_loop_utf8:
  assumes "unicode_scalar c"
  shows "clipboard_text_loop (utf8 c @ q) = clipboard_text_loop q"
proof -
  have c: "0 < c" "c < 0x110000" "\<not> (0xD800 \<le> c \<and> c < 0xE000)"
    using assms by (auto simp: unicode_scalar_def)
  consider (one) "c < 0x80" | (two) "0x80 \<le> c" "c < 0x800" | (three) "0x800 \<le> c" "c < 0x10000"
    | (four) "0x10000 \<le> c" by linarith
  then show ?thesis
  proof cases
    case one
    then show ?thesis using c by (simp add: utf8_def text_loop_nat)
  next
    case two
    define a b where ab: "a = c div 64" "b = c mod 64"
    have "c = 64 * a + b" "b < 64" by (simp_all add: ab)
    then have "2 \<le> a" "a < 32" "b < 64" using two by linarith+
    then show ?thesis using two
      by (simp add: utf8_def ab [symmetric] text_loop_nat continuation_iff seq_extra_def del: of_nat_add)
  next
    case three
    define a b d where ab: "a = c div 4096" "b = c div 64 mod 64" "d = c mod 64"
    have e: "c = 4096 * a + 64 * b + d" "b < 64" "d < 64"
      using div_mult_mod_eq [of c 64] div_mult_mod_eq [of "c div 64" 64] div64(1) [of c]
      unfolding ab by linarith simp_all
    have n: "a < 16" "a = 0 \<longrightarrow> 32 \<le> b" "a = 13 \<longrightarrow> b < 32" using three e c by linarith+
    show ?thesis using three n e(2,3)
      by (simp add: utf8_def ab [symmetric] text_loop_nat continuation_iff unat_of_nat seq_extra_def
          del: of_nat_add) auto
  next
    case four
    define a b d e where ab: "a = c div 262144" "b = c div 4096 mod 64" "d = c div 64 mod 64"
      "e = c mod 64"
    have f: "c = 262144 * a + 4096 * b + 64 * d + e" "b < 64" "d < 64" "e < 64"
      using div_mult_mod_eq [of c 64] div_mult_mod_eq [of "c div 64" 64]
        div_mult_mod_eq [of "c div 4096" 64] div64 [of c]
      unfolding ab by linarith simp_all
    have n: "a < 5" "a = 0 \<longrightarrow> 16 \<le> b" "a = 4 \<longrightarrow> b < 16" using four f c by linarith+
    show ?thesis using four n f(2-4)
      by (simp add: utf8_def ab [symmetric] text_loop_nat continuation_iff unat_of_nat seq_extra_def
          del: of_nat_add) auto
  qed
qed


section \<open>The loop accepts nothing else\<close>

lemma utf8_two:
  assumes "2 \<le> a" "a < 32" "b < 64"
  shows "utf8 (64 * a + b) = [of_nat (0xC0 + a), of_nat (0x80 + b)] \<and> unicode_scalar (64 * a + b)"
proof -
  have "(64 * a + b) div 64 = a" "(64 * a + b) mod 64 = b" using assms by simp_all
  moreover have "\<not> 64 * a + b < 0x80" "64 * a + b < 0x800" "0 < 64 * a + b"
    using assms by linarith+
  ultimately show ?thesis by (simp add: utf8_def unicode_scalar_def)
qed

lemma utf8_three:
  assumes "a < 16" "b < 64" "d < 64" "a = 0 \<longrightarrow> 32 \<le> b" "a = 13 \<longrightarrow> b < 32"
  shows "utf8 (4096 * a + 64 * b + d) =
      [of_nat (0xE0 + a), of_nat (0x80 + b), of_nat (0x80 + d)] \<and>
    unicode_scalar (4096 * a + 64 * b + d)"
proof -
  let ?c = "4096 * a + 64 * b + d"
  have d: "?c div 64 = 64 * a + b" "?c mod 64 = d"
    using assms(3) by (simp_all add: mod_add_eq [symmetric] algebra_simps)
  have e: "?c div 4096 = a" unfolding div64(1) [of ?c, symmetric] d(1) using assms(2) by simp
  have f: "?c div 64 mod 64 = b" unfolding d(1) using assms(2) by simp
  consider "a \<le> 12" | "a = 13" | "14 \<le> a" by linarith
  then have s: "\<not> (0xD800 \<le> ?c \<and> ?c < 0xE000)"
    by cases (use assms in auto)
  have "\<not> ?c < 0x80" "\<not> ?c < 0x800" "?c < 0x10000" "0 < ?c" using assms by linarith+
  with s show ?thesis by (simp add: utf8_def unicode_scalar_def d(2) e f)
qed

lemma utf8_four:
  assumes "a < 5" "b < 64" "d < 64" "e < 64" "a = 0 \<longrightarrow> 16 \<le> b" "a = 4 \<longrightarrow> b < 16"
  shows "utf8 (262144 * a + 4096 * b + 64 * d + e) =
      [of_nat (0xF0 + a), of_nat (0x80 + b), of_nat (0x80 + d), of_nat (0x80 + e)] \<and>
    unicode_scalar (262144 * a + 4096 * b + 64 * d + e)"
proof -
  let ?c = "262144 * a + 4096 * b + 64 * d + e"
  have q: "(64 * k + e) div 64 = k" "(64 * k + e) mod 64 = e" for k using assms(4) by simp_all
  have "?c = 64 * (4096 * a + 64 * b + d) + e" by simp
  then have m: "?c div 64 = 4096 * a + 64 * b + d" "?c mod 64 = e"
    using q [of "4096 * a + 64 * b + d"] by metis+
  have "4096 * a + 64 * b + d = 64 * (64 * a + b) + d" by simp
  then have f: "?c div 64 mod 64 = d"
    unfolding m(1) using assms(3) by (simp only: mod_mult_self4 mod_less)
  have g: "?c div 4096 = 64 * a + b"
    unfolding div64(1) [of ?c, symmetric] m(1) using assms(3) by simp
  have h: "?c div 4096 mod 64 = b" "?c div 262144 = a"
    unfolding div64(2) [of ?c, symmetric] g using assms(2) by simp_all
  have "\<not> ?c < 0x80" "\<not> ?c < 0x800" "\<not> ?c < 0x10000" "?c < 0x110000" "0xE000 \<le> ?c" "0 < ?c"
    using assms by linarith+
  then show ?thesis by (simp add: utf8_def unicode_scalar_def m(2) f h)
qed

lemma continuation_values:
  assumes "k \<le> length rest" "\<forall>b \<in> set (take k rest). and b 0xc0 = (0x80 :: u8)"
  shows "\<exists>ms. length ms = k \<and> (\<forall>m \<in> set ms. m < 64) \<and>
    rest = map (\<lambda>m. of_nat (0x80 + m)) ms @ drop k rest"
proof -
  let ?ms = "map (\<lambda>b. unat b - 0x80) (take k rest)"
  have c: "0x80 \<le> unat b \<and> unat b < 0xc0" if "b \<in> set (take k rest)" for b
    using that assms(2) continuation_iff [of "unat b"] unsigned_less [of b] by auto
  have "map (\<lambda>m. of_nat (0x80 + m)) ?ms = take k rest"
    using c by (auto simp: map_idI simp del: of_nat_add)
  moreover have "\<forall>m \<in> set ?ms. m < 64" using c by fastforce
  ultimately show ?thesis using assms(1) by (intro exI [of _ ?ms]) simp
qed

lemma utf8_text_Cons:
  assumes "unicode_scalar c" "utf8_text q"
  shows "utf8_text (utf8 c @ q)"
proof -
  obtain cs where "\<forall>c \<in> set cs. unicode_scalar c" "q = concat (map utf8 cs)"
    using assms(2) unfolding utf8_text_def by blast
  then show ?thesis using assms(1) unfolding utf8_text_def
    by (intro exI [of _ "c # cs"]) simp
qed

lemma text_loop_sound: "clipboard_text_loop p \<Longrightarrow> utf8_text p"
proof (induction p rule: length_induct)
  case (1 p)
  show ?case
  proof (cases p)
    case Nil
    then show ?thesis unfolding utf8_text_def by (intro exI [of _ "[]"]) simp
  next
    case (Cons c rest)
    obtain n where n: "n < 256" "c = of_nat n" using u8_cases by blast
    note step = "1.prems" [unfolded Cons n(2) text_loop_nat [OF n(1)]]
    have IH: "utf8_text (drop k rest)" if "clipboard_text_loop (drop k rest)" for k
      using "1.IH" that Cons by simp
    have split: "\<exists>ms q. length ms = k \<and> (\<forall>m \<in> set ms. m < 64) \<and>
        rest = map (\<lambda>m. of_nat (0x80 + m)) ms @ q \<and> utf8_text q"
      if "k \<le> length rest" "\<forall>b \<in> set (take k rest). and b 0xc0 = 0x80"
        "clipboard_text_loop (drop k rest)" for k
      using continuation_values [OF that(1,2)] IH [OF that(3)] by blast
    consider (one) "n < 0x80" | (two) "0xc2 \<le> n" "n \<le> 0xdf" | (three) "0xe0 \<le> n" "n \<le> 0xef"
      | (four) "0xf0 \<le> n" "n \<le> 0xf4"
      using step by (auto simp: seq_extra_def split: if_split_asm)
    then show ?thesis
    proof cases
      case one
      then have "n \<noteq> 0" "clipboard_text_loop rest" using step by (simp_all split: if_split_asm)
      then have "unicode_scalar n" "utf8 n = [c]" "utf8_text rest"
        using IH [of 0] n one by (auto simp: unicode_scalar_def utf8_def)
      then show ?thesis using utf8_text_Cons [of n rest] Cons by simp
    next
      case two
      then have x: "seq_extra n = 1" by (simp add: seq_extra_def)
      have st: "1 \<le> length rest" "\<forall>b \<in> set (take 1 rest). and b 0xc0 = 0x80"
        "clipboard_text_loop (drop 1 rest)"
        using step two unfolding x by (simp_all split: if_split_asm)
      obtain ms q where ms: "length ms = 1" "\<forall>m \<in> set ms. m < 64"
        "rest = map (\<lambda>m. of_nat (0x80 + m)) ms @ q" "utf8_text q"
        using split [OF st] by blast
      obtain b where b: "ms = [b]" using ms(1) by (cases ms) auto
      obtain a where a: "n = 0xC0 + a" using two le_Suc_ex [of "0xC0" n] by auto
      have "utf8 (64 * a + b) = [c, of_nat (0x80 + b)] \<and> unicode_scalar (64 * a + b)"
        unfolding n(2) a using utf8_two [of a b] two ms(2) b a by simp
      then show ?thesis using utf8_text_Cons [of "64 * a + b" q] ms(3,4) b Cons by simp
    next
      case three
      then have x: "seq_extra n = 2" by (simp add: seq_extra_def)
      have st: "2 \<le> length rest" "\<forall>b \<in> set (take 2 rest). and b 0xc0 = 0x80"
        "clipboard_text_loop (drop 2 rest)"
        using step three unfolding x by (simp_all split: if_split_asm)
      obtain ms q where ms: "length ms = 2" "\<forall>m \<in> set ms. m < 64"
        "rest = map (\<lambda>m. of_nat (0x80 + m)) ms @ q" "utf8_text q"
        using split [OF st] by blast
      have r: "n = 0xe0 \<longrightarrow> \<not> unat (rest ! 0) < 0xa0"
        "n = 0xed \<longrightarrow> \<not> 0x9f < unat (rest ! 0)"
        using step three by (auto split: if_split_asm)
      obtain b d where b: "ms = [b, d]" using ms(1) by (auto simp: length_Suc_conv numeral_2_eq_2)
      obtain a where a: "n = 0xE0 + a" using three le_Suc_ex [of "0xE0" n] by auto
      have "rest ! 0 = of_nat (0x80 + b)" by (simp add: ms(3) b)
      then have "unat (rest ! 0) = 0x80 + b" using ms(2) b by (simp add: unat_of_nat del: of_nat_add)
      then have "utf8 (4096 * a + 64 * b + d) = [c, of_nat (0x80 + b), of_nat (0x80 + d)] \<and>
          unicode_scalar (4096 * a + 64 * b + d)"
        unfolding n(2) a using utf8_three [of a b d] three ms(2) b a r by fastforce
      then show ?thesis using utf8_text_Cons [of "4096 * a + 64 * b + d" q] ms(3,4) b Cons by simp
    next
      case four
      then have x: "seq_extra n = 3" by (simp add: seq_extra_def)
      have st: "3 \<le> length rest" "\<forall>b \<in> set (take 3 rest). and b 0xc0 = 0x80"
        "clipboard_text_loop (drop 3 rest)"
        using step four unfolding x by (simp_all split: if_split_asm)
      obtain ms q where ms: "length ms = 3" "\<forall>m \<in> set ms. m < 64"
        "rest = map (\<lambda>m. of_nat (0x80 + m)) ms @ q" "utf8_text q"
        using split [OF st] by blast
      have r: "n = 0xf0 \<longrightarrow> \<not> unat (rest ! 0) < 0x90"
        "n = 0xf4 \<longrightarrow> \<not> 0x8f < unat (rest ! 0)"
        using step four by (auto split: if_split_asm)
      obtain b d e where b: "ms = [b, d, e]"
        using ms(1) by (auto simp: length_Suc_conv numeral_3_eq_3)
      obtain a where a: "n = 0xF0 + a" using four le_Suc_ex [of "0xF0" n] by auto
      have "rest ! 0 = of_nat (0x80 + b)" by (simp add: ms(3) b)
      then have "unat (rest ! 0) = 0x80 + b" using ms(2) b by (simp add: unat_of_nat del: of_nat_add)
      then have "utf8 (262144 * a + 4096 * b + 64 * d + e) =
            [c, of_nat (0x80 + b), of_nat (0x80 + d), of_nat (0x80 + e)] \<and>
          unicode_scalar (262144 * a + 4096 * b + 64 * d + e)"
        unfolding n(2) a using utf8_four [of a b d e] four ms(2) b a r by fastforce
      then show ?thesis
        using utf8_text_Cons [of "262144 * a + 4096 * b + 64 * d + e" q] ms(3,4) b Cons by simp
    qed
  qed
qed

lemma text_loop_complete:
  "\<forall>c \<in> set cs. unicode_scalar c \<Longrightarrow> clipboard_text_loop (concat (map utf8 cs))"
  by (induction cs) (auto simp: text_loop_utf8)

text \<open>C1: The clipboard text validator accepts exactly well-formed UTF-8: a buffer of \<^verbatim>\<open>sz\<close> bytes is
  valid if and only if it is not empty, not longer than 512 KiB, and is the concatenation of the
  UTF-8 encodings of Unicode scalar values other than NUL. Overlong forms, surrogates, values above
  U+10FFFF, stray continuation bytes and truncated sequences are all refused.\<close>

theorem clipboard_valid_text_iff_utf8:
  "plank_clipboard_valid_text (Some p) sz \<longleftrightarrow>
    sz \<noteq> 0 \<and> sz \<le> PLANK_CLIPBOARD_TEXT_LIMIT \<and>
    (\<exists>cs. (\<forall>c \<in> set cs. unicode_scalar c) \<and> take sz p = concat (map utf8 cs))"
proof -
  have "clipboard_text_loop q \<longleftrightarrow>
      (\<exists>cs. (\<forall>c \<in> set cs. unicode_scalar c) \<and> q = concat (map utf8 cs))" for q
    using text_loop_sound [of q] text_loop_complete unfolding utf8_text_def by auto
  then show ?thesis by (simp add: plank_clipboard_valid_text_def not_less)
qed

theorem clipboard_valid_text_iff_utf8_witness:
  "plank_clipboard_valid_text (Some [0xc3, 0xa9]) 2"
proof -
  have "\<exists>cs. (\<forall>c \<in> set cs. unicode_scalar c) \<and> take 2 [0xc3, 0xa9 :: u8] = concat (map utf8 cs)"
    by (rule exI [of _ "[0xe9]"]) (simp add: unicode_scalar_def utf8_def)
  then show ?thesis by (subst clipboard_valid_text_iff_utf8) simp
qed

end
