(* ===== verification/Encoding_Profiles.thy ===== *)
theory Encoding_Profiles
  imports Prelude
begin

text \<open>
  The encoding catalogue of plank_encoding_profiles.h: the append-only profile table and its lookups
  by id, by mode name and by capture source, and the admission of explicit dimensions.
\<close>

record encoding_profile =
  pf_id :: int
  pf_mode :: string
  pf_backend :: string
  pf_codec :: string
  pf_profile :: string
  pf_chroma :: string
  pf_matrix :: string
  pf_encoder :: int
  pf_bit_depth :: int
  pf_video_format :: int
  pf_capture_mask :: u32
  pf_rgb_identity :: int
  pf_explicit_width_limit :: int
  pf_explicit_height_limit :: int
  pf_dimension_alignment :: int
  pf_default_bitrate_kbps :: int

abbreviation PLANK_ENCODER_X264 :: int where "PLANK_ENCODER_X264 \<equiv> 0"
abbreviation PLANK_ENCODER_NVENC :: int where "PLANK_ENCODER_NVENC \<equiv> 1"
abbreviation PLANK_ENCODER_APPLE :: int where "PLANK_ENCODER_APPLE \<equiv> 2"
abbreviation PLANK_SOURCE_COUNT :: int where "PLANK_SOURCE_COUNT \<equiv> 3"
abbreviation PLANK_ENCODING_COUNT :: nat where "PLANK_ENCODING_COUNT \<equiv> 9"

definition mk_profile ::
  "int \<Rightarrow> string \<Rightarrow> string \<Rightarrow> string \<Rightarrow> string \<Rightarrow> string \<Rightarrow> string \<Rightarrow> int \<Rightarrow> int \<Rightarrow> int \<Rightarrow> u32 \<Rightarrow> int \<Rightarrow>
   int \<Rightarrow> int \<Rightarrow> int \<Rightarrow> int \<Rightarrow> encoding_profile" where
  "mk_profile i mode backend codec profile chroma matrix encoder depth fmt msk rgb w h al rate =
     \<lparr>pf_id = i, pf_mode = mode, pf_backend = backend, pf_codec = codec, pf_profile = profile,
      pf_chroma = chroma, pf_matrix = matrix, pf_encoder = encoder, pf_bit_depth = depth,
      pf_video_format = fmt, pf_capture_mask = msk, pf_rgb_identity = rgb,
      pf_explicit_width_limit = w, pf_explicit_height_limit = h, pf_dimension_alignment = al,
      pf_default_bitrate_kbps = rate\<rparr>"

definition plank_encoding_profiles :: "encoding_profile list" where
  "plank_encoding_profiles = [
    mk_profile 0 ''h264-10-444-software'' ''software-cuda'' ''h264'' ''high444'' ''4:4:4''
      ''identity'' PLANK_ENCODER_X264 10 0x0008 3 1 0 0 1 80000,
    mk_profile 1 ''h264-8-422-software'' ''software-cuda'' ''h264'' ''high422'' ''4:2:2''
      ''bt709'' PLANK_ENCODER_X264 8 0x0002 1 0 0 0 1 80000,
    mk_profile 2 ''h264-8-444-software'' ''software-cuda'' ''h264'' ''high444'' ''4:4:4''
      ''identity'' PLANK_ENCODER_X264 8 0x0004 1 1 0 0 1 80000,
    mk_profile 3 ''h264-10-422-software'' ''software-cuda'' ''h264'' ''high422'' ''4:2:2''
      ''bt709'' PLANK_ENCODER_X264 10 0x0010 1 0 0 0 1 80000,
    mk_profile 4 ''h264-8-444-nvenc'' ''nvenc-direct'' ''h264'' ''high444'' ''4:4:4''
      ''identity'' PLANK_ENCODER_NVENC 8 0x0004 1 1 4096 2160 1 80000,
    mk_profile 5 ''hevc-8-444-nvenc'' ''nvenc-direct'' ''hevc'' ''rext'' ''4:4:4''
      ''identity'' PLANK_ENCODER_NVENC 8 0x0400 1 1 0 0 1 50000,
    mk_profile 6 ''hevc-10-444-nvenc'' ''nvenc-direct'' ''hevc'' ''rext'' ''4:4:4''
      ''identity'' PLANK_ENCODER_NVENC 10 0x0800 3 1 0 0 1 50000,
    mk_profile 7 ''hevc-10-420-videotoolbox'' ''videotoolbox'' ''hevc'' ''main10'' ''4:2:0''
      ''bt709'' PLANK_ENCODER_APPLE 10 0x0200 4 0 5120 2160 2 50000,
    mk_profile 8 ''hevc-10-444-videotoolbox'' ''videotoolbox'' ''hevc'' ''rext'' ''4:4:4''
      ''bt709'' PLANK_ENCODER_APPLE 10 0x0800 4 0 5120 2160 2 50000]"

definition plank_encoding_profile :: "int \<Rightarrow> encoding_profile option" where
  "plank_encoding_profile i =
     (if 0 \<le> i \<and> i < int PLANK_ENCODING_COUNT then Some (plank_encoding_profiles ! nat i) else None)"

definition plank_encoding_profile_named :: "string option \<Rightarrow> nat \<Rightarrow> encoding_profile option" where
  "plank_encoding_profile_named mode n =
     (case mode of None \<Rightarrow> None | Some m \<Rightarrow>
       find (\<lambda>p. length (pf_mode p) = n \<and> take n m = take n (pf_mode p)) plank_encoding_profiles)"

definition plank_capture_name :: "int \<Rightarrow> string option" where
  "plank_capture_name capture =
     (if 0 \<le> capture \<and> capture < PLANK_SOURCE_COUNT
      then Some ([''nvfbc'', ''x11-native10'', ''screencapturekit''] ! nat capture) else None)"

definition plank_encoding_supports_capture :: "encoding_profile option \<Rightarrow> int \<Rightarrow> bool" where
  "plank_encoding_supports_capture profile capture \<longleftrightarrow>
     (case profile of None \<Rightarrow> False | Some p \<Rightarrow>
       0 \<le> capture \<and> capture < PLANK_SOURCE_COUNT \<and>
       and (pf_capture_mask p) (push_bit (nat capture) 1) \<noteq> 0)"

definition plank_encoding_explicit_dimensions ::
  "encoding_profile option \<Rightarrow> int \<Rightarrow> int \<Rightarrow> bool" where
  "plank_encoding_explicit_dimensions profile width height \<longleftrightarrow>
     (case profile of None \<Rightarrow> False | Some p \<Rightarrow>
       0 < width \<and> 0 < height \<and>
       (pf_explicit_width_limit p = 0 \<or> width \<le> pf_explicit_width_limit p) \<and>
       (pf_explicit_height_limit p = 0 \<or> height \<le> pf_explicit_height_limit p) \<and>
       width mod pf_dimension_alignment p = 0 \<and> height mod pf_dimension_alignment p = 0)"

lemma profile_modes:
  "map pf_mode plank_encoding_profiles =
    [''h264-10-444-software'', ''h264-8-422-software'', ''h264-8-444-software'',
     ''h264-10-422-software'', ''h264-8-444-nvenc'', ''hevc-8-444-nvenc'',
     ''hevc-10-444-nvenc'', ''hevc-10-420-videotoolbox'', ''hevc-10-444-videotoolbox'']"
  by (simp add: plank_encoding_profiles_def mk_profile_def)

lemma distinct_modes: "distinct (map pf_mode plank_encoding_profiles)"
  unfolding profile_modes by code_simp

lemma length_profiles [simp]: "length plank_encoding_profiles = 9"
  by (simp add: plank_encoding_profiles_def)

lemma profile_ids: "map pf_id plank_encoding_profiles = map int [0..<9]"
  by (simp add: plank_encoding_profiles_def mk_profile_def upt_rec)

lemma find_in_set: "find P xs = Some x \<Longrightarrow> x \<in> set xs \<and> P x"
  by (induction xs) (auto split: if_split_asm)

lemma find_unique:
  assumes "x \<in> set xs" "P x" "\<And>y. y \<in> set xs \<Longrightarrow> P y \<Longrightarrow> y = x"
  shows "find P xs = Some x"
  using assms by (metis find_None_iff find_Some_iff nth_mem option.exhaust)

text \<open>Lookup by name and lookup by id agree: a profile is found under a name exactly when it stands
  in the catalogue and the given characters are its whole mode string, and then its id leads back
  to the same profile. No two catalogue entries answer to one name.\<close>

theorem profile_named_iff:
  "plank_encoding_profile_named (Some m) (length m) = Some p \<longleftrightarrow>
    m = pf_mode p \<and> plank_encoding_profile (pf_id p) = Some p"
proof -
  have nth: "plank_encoding_profile (pf_id q) = Some q" if "q \<in> set plank_encoding_profiles" for q
  proof -
    obtain i where i: "i < 9" "q = plank_encoding_profiles ! i"
      using \<open>q \<in> _\<close> unfolding in_set_conv_nth by auto
    have "pf_id q = map pf_id plank_encoding_profiles ! i" using i by simp
    also have "\<dots> = int i" unfolding profile_ids using i(1) by simp
    finally show ?thesis
      using i(1) unfolding plank_encoding_profile_def by (simp add: i(2) [symmetric])
  qed
  have mem: "q \<in> set plank_encoding_profiles" if "plank_encoding_profile j = Some q" for j q
    using that by (auto simp: plank_encoding_profile_def split: if_split_asm)
  have eq: "length (pf_mode q) = length m \<and> take (length m) m = take (length m) (pf_mode q) \<longleftrightarrow>
      pf_mode q = m" for q by auto
  show ?thesis
  proof (rule iffI)
    assume "plank_encoding_profile_named (Some m) (length m) = Some p"
    then have "pf_mode p = m \<and> p \<in> set plank_encoding_profiles"
      unfolding plank_encoding_profile_named_def option.case eq by (rule find_in_set [THEN conj_commute [THEN iffD1]])
    then show "m = pf_mode p \<and> plank_encoding_profile (pf_id p) = Some p"
      using nth by blast
  next
    assume "m = pf_mode p \<and> plank_encoding_profile (pf_id p) = Some p"
    then have p: "pf_mode p = m" "p \<in> set plank_encoding_profiles" using mem by blast+
    have u: "y = p" if "y \<in> set plank_encoding_profiles" "pf_mode y = m" for y
      using distinct_modes that p unfolding distinct_map inj_on_def by blast
    show "plank_encoding_profile_named (Some m) (length m) = Some p"
      unfolding plank_encoding_profile_named_def option.case eq
      by (rule find_unique [where P = "\<lambda>q. pf_mode q = m", OF p(2,1) u])
  qed
qed

end
