(* ===== verification/X11_Pixels.thy ===== *)
theory X11_Pixels
  imports Prelude "HOL-Library.Multiset"
begin

text \<open>
  The pixel arithmetic of plank-probe-x11-native10.cpp: channel masks, packing and unpacking of
  channel codes, the 8-to-10-bit expansion test, sampling of a captured image, the fingerprint, and
  the single-threaded and row-parallel unpacking of a frame into planes. \<^verbatim>\<open>unsigned long\<close> is a 64-bit
  word, \<^verbatim>\<open>unsigned int\<close> a 32-bit word; shift and bit counts are naturals.
\<close>

record channel =
  ch_mask :: u64
  ch_shift :: nat
  ch_bits :: nat

lemma unat_drop_bit_less:
  fixes v :: u64
  assumes "v \<noteq> 0"
  shows "unat (drop_bit 1 v) < unat v"
proof -
  have "0 < unat v" using assms by (simp add: unat_gt_0)
  then show ?thesis unfolding unat_drop_bit_eq by (simp add: drop_bit_eq_div)
qed

function trailing_zeroes_loop :: "u64 \<Rightarrow> nat \<Rightarrow> nat" where
  "trailing_zeroes_loop v cnt =
     (if v = 0 \<or> and v 1 \<noteq> 0 then cnt else trailing_zeroes_loop (drop_bit 1 v) (cnt + 1))"
  by pat_completeness simp_all

termination trailing_zeroes_loop
  by (relation "measure (\<lambda>(v, c). unat v)") (use unat_drop_bit_less in auto)

definition trailing_zeroes :: "u64 \<Rightarrow> nat" where
  "trailing_zeroes v = (if v = 0 then 0 else trailing_zeroes_loop v 0)"

function bit_count_loop :: "u64 \<Rightarrow> nat \<Rightarrow> nat" where
  "bit_count_loop v cnt =
     (if v = 0 then cnt else bit_count_loop (drop_bit 1 v) (cnt + unat (and v 1)))"
  by pat_completeness simp_all

termination bit_count_loop
  by (relation "measure (\<lambda>(v, c). unat v)") (use unat_drop_bit_less in auto)

definition bit_count :: "u64 \<Rightarrow> nat" where
  "bit_count v = bit_count_loop v 0"

definition make_channel :: "u64 \<Rightarrow> channel" where
  "make_channel m = \<lparr>ch_mask = m, ch_shift = trailing_zeroes m, ch_bits = bit_count m\<rparr>"

definition pack_code :: "channel \<Rightarrow> u32 \<Rightarrow> u64" where
  "pack_code c code = and (push_bit (ch_shift c) (ucast code)) (ch_mask c)"

definition unpack_code :: "channel \<Rightarrow> u64 \<Rightarrow> u32" where
  "unpack_code c pixel = ucast (drop_bit (ch_shift c) (and pixel (ch_mask c)))"

definition is_eight_to_ten_expansion :: "u32 \<Rightarrow> bool" where
  "is_eight_to_ten_expansion v \<longleftrightarrow>
     (\<exists>source \<in> set [0..<256]. or (push_bit 2 (of_nat source)) (drop_bit 6 (of_nat source)) = v)"

declare trailing_zeroes_loop.simps [simp del] bit_count_loop.simps [simp del]

section \<open>Channel masks\<close>

text \<open>The mask of an X11 visual channel: \<^verbatim>\<open>b\<close> consecutive bits starting at bit \<^verbatim>\<open>s\<close>.\<close>

definition field_mask :: "nat \<Rightarrow> nat \<Rightarrow> u64" where
  "field_mask s b = push_bit s (mask b)"

lemma bit_field_mask:
  "bit (field_mask s b) n \<longleftrightarrow> s \<le> n \<and> n < s + b \<and> n < 64"
  by (auto simp: field_mask_def bit_simps)

lemma bit_u64_out: "64 \<le> n \<Longrightarrow> \<not> bit (b :: u64) n"
  using bit_imp_le_length [of b n] by auto

lemma and_1_bit: "and v 1 = (if bit v 0 then 1 else (0 :: u64))"
  by (rule bit_word_eqI) (auto simp: bit_simps bit_1_iff intro: gr0I)

lemma drop_field_mask:
  "s + b < 64 \<Longrightarrow> drop_bit (Suc 0) (field_mask (Suc s) b) = field_mask s b"
  "b < 64 \<Longrightarrow> drop_bit (Suc 0) (field_mask 0 (Suc b)) = field_mask 0 b"
  by (rule bit_word_eqI, auto simp: bit_field_mask bit_drop_bit_eq)+

lemma field_mask_0: "s + b \<le> 64 \<Longrightarrow> field_mask s b = 0 \<longleftrightarrow> b = 0"
  using bit_field_mask [of s b s] by (cases "b = 0") (auto simp: field_mask_def)

lemma trailing_zeroes_field:
  "0 < b \<Longrightarrow> s + b \<le> 64 \<Longrightarrow> trailing_zeroes_loop (field_mask s b) c = c + s"
proof (induction s arbitrary: c)
  case 0
  then show ?case
    by (subst trailing_zeroes_loop.simps) (simp add: and_1_bit bit_field_mask)
next
  case (Suc s)
  then show ?case
    by (subst trailing_zeroes_loop.simps)
      (simp add: and_1_bit bit_field_mask field_mask_0 drop_field_mask)
qed

lemma bit_count_field_0: "b \<le> 64 \<Longrightarrow> bit_count_loop (field_mask 0 b) c = c + b"
proof (induction b arbitrary: c)
  case 0
  then show ?case by (subst bit_count_loop.simps) (simp add: field_mask_0)
next
  case (Suc b)
  then show ?case
    by (subst bit_count_loop.simps)
      (simp add: and_1_bit bit_field_mask field_mask_0 drop_field_mask)
qed

lemma bit_count_field: "s + b \<le> 64 \<Longrightarrow> bit_count_loop (field_mask s b) c = c + b"
proof (induction s arbitrary: c)
  case (Suc s)
  then show ?case
  proof (cases "b = 0")
    case True
    then show ?thesis by (subst bit_count_loop.simps) (use Suc.prems in \<open>simp add: field_mask_0\<close>)
  next
    case False
    then show ?thesis using Suc
      by (subst bit_count_loop.simps)
        (simp add: and_1_bit bit_field_mask field_mask_0 drop_field_mask)
  qed
qed (simp add: bit_count_field_0)

lemma make_channel_field:
  assumes "0 < b" "s + b \<le> 64"
  shows "make_channel (field_mask s b) = \<lparr>ch_mask = field_mask s b, ch_shift = s, ch_bits = b\<rparr>"
  using assms trailing_zeroes_field [of b s 0] bit_count_field [of s b 0]
  by (simp add: make_channel_def trailing_zeroes_def bit_count_def field_mask_0)

lemma unpack_pack_field:
  assumes "0 < b" "b \<le> 32" "s + b \<le> 64" "unat code < 2 ^ b" "and rest (field_mask s b) = 0"
  shows "unpack_code (make_channel (field_mask s b))
    (or (pack_code (make_channel (field_mask s b)) code) rest) = code"
proof (rule bit_word_eqI)
  fix n assume n: "n < LENGTH(32)"
  have t: "take_bit b code = code"
    unfolding word_unat_eq_iff unsigned_take_bit_eq using assms(4) by (rule take_bit_nat_eq_self)
  have code: "n < b" if "bit code n"
    using that t bit_take_bit_iff [of b code n] by simp
  have r: "\<not> (bit rest k \<and> s \<le> k \<and> k < s + b)" for k
    using arg_cong [OF assms(5), of "\<lambda>w. bit w k"] bit_imp_le_length [of rest k] assms(3)
    by (auto simp: bit_simps bit_field_mask)
  have "bit (unpack_code (make_channel (field_mask s b))
      (or (pack_code (make_channel (field_mask s b)) code) rest)) n \<longleftrightarrow> n < b \<and> bit code n"
    using n assms(1-3) r [of "s + n"]
    by (auto simp: make_channel_field unpack_code_def pack_code_def bit_simps bit_field_mask)
  then show "bit (unpack_code (make_channel (field_mask s b))
      (or (pack_code (make_channel (field_mask s b)) code) rest)) n = bit code n"
    using code by blast
qed


section \<open>Sampling a captured image\<close>

record ximage =
  xi_width :: nat
  xi_height :: nat
  xi_bytes_per_line :: nat
  xi_depth :: nat
  xi_bits_per_pixel :: nat
  xi_data :: bytes
  xi_pixel :: "nat \<Rightarrow> nat \<Rightarrow> u64"

text \<open>The positions \<^verbatim>\<open>v, v + st, v + 2 * st, ...\<close> below \<^verbatim>\<open>n\<close> that a counting loop visits.\<close>

function loop_positions :: "nat \<Rightarrow> nat \<Rightarrow> nat \<Rightarrow> nat list" where
  "loop_positions v n st = (if v < n \<and> 0 < st then v # loop_positions (v + st) n st else [])"
  by pat_completeness simp_all

termination loop_positions
  by (relation "measure (\<lambda>(v, n, st). n - v)") auto

declare loop_positions.simps [simp del]

definition sample_points :: "ximage \<Rightarrow> nat \<Rightarrow> nat \<Rightarrow> (nat \<times> nat) list" where
  "sample_points img x_step y_step =
     concat (map (\<lambda>y. map (\<lambda>x. (x, y)) (loop_positions 0 (xi_width img) x_step))
       (loop_positions 0 (xi_height img) y_step))"

record capture_analysis =
  ca_observed :: "bool list list"
  ca_non_eight_bit :: "nat list"
  ca_samples :: nat

definition analyze_pixel ::
  "channel list \<Rightarrow> u64 \<Rightarrow> capture_analysis \<Rightarrow> capture_analysis" where
  "analyze_pixel channels pixel st =
     (let st' = fold (\<lambda>index a.
        let value = unpack_code (channels ! index) pixel;
            a1 = (if unat value < 1024
                  then a\<lparr>ca_observed := (ca_observed a)
                         [index := (ca_observed a ! index)[unat value := True]]\<rparr> else a)
        in if ch_bits (channels ! index) = 10 \<and> \<not> is_eight_to_ten_expansion value
           then a1\<lparr>ca_non_eight_bit := (ca_non_eight_bit a1)
                   [index := ca_non_eight_bit a1 ! index + 1]\<rparr>
           else a1) [0..<3] st
      in st'\<lparr>ca_samples := ca_samples st' + 1\<rparr>)"

definition analyze_capture_image :: "ximage \<Rightarrow> channel list \<Rightarrow> nat \<times> (nat \<times> nat) list" where
  "analyze_capture_image img channels =
     (let x_step = max 1 (xi_width img div 512);
          y_step = max 1 (xi_height img div 256);
          st = fold (\<lambda>(x, y). analyze_pixel channels (xi_pixel img x y))
                 (sample_points img x_step y_step)
                 \<lparr>ca_observed = replicate 3 (replicate 1024 False),
                  ca_non_eight_bit = replicate 3 0, ca_samples = 0\<rparr>
      in (ca_samples st, map (\<lambda>index. (length (filter id (ca_observed st ! index)),
            ca_non_eight_bit st ! index)) [0..<3]))"

definition sample_fingerprint :: "ximage \<Rightarrow> u64" where
  "sample_fingerprint img =
     (let x_step = max 1 (xi_width img div 128);
          y_step = max 1 (xi_height img div 72)
      in fold (\<lambda>(x, y) hash. xor hash (xi_pixel img x y) * 1099511628211)
           (sample_points img x_step y_step) 1469598103934665603)"

section \<open>Unpacking a frame into planes\<close>

record planes =
  pl_green :: "u16 list"
  pl_blue :: "u16 list"
  pl_red :: "u16 list"

text \<open>A 32-bit load from the little-endian frame memory.\<close>

definition load32 :: "bytes \<Rightarrow> nat \<Rightarrow> u32" where
  "load32 m a = or (or (or (ucast (m ! a)) (push_bit 8 (ucast (m ! (a + 1)))))
     (push_bit 16 (ucast (m ! (a + 2))))) (push_bit 24 (ucast (m ! (a + 3))))"

text \<open>The body of the inner loop for column \<^verbatim>\<open>x\<close> of row \<^verbatim>\<open>y\<close>.\<close>

definition unpack_pixel ::
  "bytes \<Rightarrow> nat \<Rightarrow> nat \<Rightarrow> channel list \<Rightarrow> nat \<times> nat \<Rightarrow> planes \<Rightarrow> planes" where
  "unpack_pixel source width row_pitch channels = (\<lambda>(y, x) p.
     let row_offset = y * width;
         pixel = ucast (load32 source (y * row_pitch + 4 * x));
         offset = row_offset + x
     in p\<lparr>pl_red := (pl_red p)[offset := ucast (unpack_code (channels ! 0) pixel)],
          pl_green := (pl_green p)[offset := ucast (unpack_code (channels ! 1) pixel)],
          pl_blue := (pl_blue p)[offset := ucast (unpack_code (channels ! 2) pixel)]\<rparr>)"

definition row_pixels :: "nat \<Rightarrow> nat \<Rightarrow> nat \<Rightarrow> (nat \<times> nat) list" where
  "row_pixels width first_row end_row =
     concat (map (\<lambda>y. map (Pair y) [0..<width]) [first_row..<end_row])"

definition unpack_identity_rows ::
  "bytes \<Rightarrow> nat \<Rightarrow> nat \<Rightarrow> nat \<Rightarrow> nat \<Rightarrow> channel list \<Rightarrow> planes \<Rightarrow> planes" where
  "unpack_identity_rows source width row_pitch first_row end_row channels p =
     fold (unpack_pixel source width row_pitch channels) (row_pixels width first_row end_row) p"

definition unpack_identity_single ::
  "bytes \<Rightarrow> nat \<Rightarrow> nat \<Rightarrow> nat \<Rightarrow> channel list \<Rightarrow> planes \<Rightarrow> planes" where
  "unpack_identity_single source width height row_pitch channels p =
     unpack_identity_rows source width row_pitch 0 height channels p"

text \<open>The rows of worker \<^verbatim>\<open>index\<close>, and what an execution of all workers may do: any interleaving of
  their pixel stores that keeps each worker's own order.\<close>

definition worker_rows :: "nat \<Rightarrow> nat \<Rightarrow> nat \<Rightarrow> nat \<times> nat" where
  "worker_rows height thread_count index =
     (height * index div thread_count, height * (index + 1) div thread_count)"

definition parallel_workers :: "nat \<Rightarrow> nat \<Rightarrow> nat \<Rightarrow> (nat \<times> nat) list list" where
  "parallel_workers width height thread_count =
     map (\<lambda>index. case worker_rows height thread_count index of
       (first_row, end_row) \<Rightarrow> row_pixels width first_row end_row) [0..<thread_count]"

fun interleaves :: "'a list \<Rightarrow> 'a list list \<Rightarrow> bool" where
  "interleaves [] ws \<longleftrightarrow> (\<forall>w \<in> set ws. w = [])"
| "interleaves (a # s) ws \<longleftrightarrow>
     (\<exists>i \<in> set [0..<length ws]. ws ! i \<noteq> [] \<and> hd (ws ! i) = a \<and> interleaves s (ws[i := tl (ws ! i)]))"

definition run_schedule ::
  "bytes \<Rightarrow> nat \<Rightarrow> nat \<Rightarrow> channel list \<Rightarrow> (nat \<times> nat) list \<Rightarrow> planes \<Rightarrow> planes" where
  "run_schedule source width row_pitch channels schedule p =
     fold (unpack_pixel source width row_pitch channels) schedule p"

lemma upt_join: "i \<le> j \<Longrightarrow> j \<le> k \<Longrightarrow> [i..<j] @ [j..<k] = [i..<k]"
  using upt_add_eq_append [of i j "k - j"] by simp

lemma concat_ranges:
  "mono f \<Longrightarrow> concat (map (\<lambda>i. [f i..<f (Suc i)]) [0..<n]) = [f 0..<f n]"
proof (induction n)
  case (Suc n)
  have "f 0 \<le> f n" "f n \<le> f (Suc n)" using Suc.prems by (auto intro: monoD)
  then show ?case using Suc upt_join by simp
qed simp

lemma concat_row_pixels:
  "concat (map (\<lambda>i. row_pixels w (f i) (f (Suc i))) is) =
    concat (map (\<lambda>y. map (Pair y) [0..<w]) (concat (map (\<lambda>i. [f i..<f (Suc i)]) is)))"
  by (induction "is") (simp_all add: row_pixels_def)

lemma parallel_covers:
  assumes "0 < n"
  shows "concat (parallel_workers width height n) = row_pixels width 0 height"
proof -
  let ?f = "\<lambda>i. height * i div n"
  have "mono ?f" by (intro monoI div_le_mono mult_le_mono2) auto
  note c = concat_ranges [OF this, of n]
  have "concat (parallel_workers width height n) =
      concat (map (\<lambda>i. row_pixels width (?f i) (?f (Suc i))) [0..<n])"
    by (simp add: parallel_workers_def worker_rows_def)
  also have "\<dots> = row_pixels width 0 height"
    unfolding concat_row_pixels [of width ?f] c using assms by (simp add: row_pixels_def)
  finally show ?thesis .
qed

lemma interleaves_mset: "interleaves s ws \<Longrightarrow> mset s = mset (concat ws)"
proof (induction s ws rule: interleaves.induct)
  case (1 ws)
  then have "concat ws = []" by (induction ws) auto
  then show ?case by simp
next
  case (2 a s ws)
  then obtain i where i: "i < length ws" "ws ! i \<noteq> []" "hd (ws ! i) = a"
    "interleaves s (ws[i := tl (ws ! i)])" by auto
  then have IH: "mset s = mset (concat (ws[i := tl (ws ! i)]))" using 2(1) by auto
  have w: "ws ! i = a # tl (ws ! i)" using i(2,3) by (metis list.collapse)
  have "mset (concat ws) = mset (concat (take i ws @ (a # tl (ws ! i)) # drop (Suc i) ws))"
    using id_take_nth_drop [OF i(1)] w by simp
  then show ?case
    unfolding mset.simps IH upd_conv_take_nth_drop [OF i(1)] by simp
qed

lemma pixel_offset_inj:
  fixes x :: nat
  assumes "x < w" "x' < w" "y * w + x = y' * w + x'"
  shows "(y, x) = (y', x')"
proof -
  have "(y * w + x) div w = y" "(y' * w + x') div w = y'"
    "(y * w + x) mod w = x" "(y' * w + x') mod w = x'"
    using assms(1,2) by simp_all
  then show ?thesis unfolding assms(3) by simp
qed

lemma unpack_pixel_commute:
  assumes "snd a < width" "snd b < width"
  shows "unpack_pixel source width pitch cs a \<circ> unpack_pixel source width pitch cs b =
    unpack_pixel source width pitch cs b \<circ> unpack_pixel source width pitch cs a"
proof (cases "a = b")
  case False
  obtain y x y' x' where ab: "a = (y, x)" "b = (y', x')" by (cases a, cases b)
  then have "y * width + x \<noteq> y' * width + x'"
    using pixel_offset_inj [of x width x' y y'] False assms by auto
  then show ?thesis
    by (auto simp: fun_eq_iff unpack_pixel_def ab Let_def list_update_swap)
qed simp

text \<open>C4: The row-parallel unpacking computes what the single-threaded one does: for every number of
  workers above zero and every interleaving of their pixel stores, the three planes end up equal to
  those of one pass over all rows. In particular the workers' row ranges cover every row once, also
  when the height is not a multiple of the worker count.\<close>

theorem parallel_unpack_equals_single:
  assumes "0 < thread_count"
    and "interleaves schedule (parallel_workers width height thread_count)"
  shows "run_schedule source width row_pitch channels schedule p =
    unpack_identity_single source width height row_pitch channels p"
proof -
  let ?f = "unpack_pixel source width row_pitch channels"
  have m: "mset schedule = mset (row_pixels width 0 height)"
    using interleaves_mset [OF assms(2)] parallel_covers [OF assms(1)] by simp
  have s: "snd a < width" if "a \<in> set schedule" for a
    using that unfolding mset_eq_setD [OF m] by (auto simp: row_pixels_def)
  have "fold ?f schedule = fold ?f (row_pixels width 0 height)"
    by (rule fold_multiset_equiv [OF _ m]) (simp add: unpack_pixel_commute s)
  then show ?thesis
    by (simp add: run_schedule_def unpack_identity_single_def unpack_identity_rows_def)
qed

theorem parallel_unpack_equals_single_witness:
  "run_schedule (replicate 24 7) 2 8 (map make_channel [0x3ff, 0xffc00, 0x3ff00000])
      [(1, 0), (0, 0), (1, 1), (0, 1), (2, 0), (2, 1)]
      \<lparr>pl_green = replicate 6 0, pl_blue = replicate 6 0, pl_red = replicate 6 0\<rparr> =
    unpack_identity_single (replicate 24 7) 2 3 8 (map make_channel [0x3ff, 0xffc00, 0x3ff00000])
      \<lparr>pl_green = replicate 6 0, pl_blue = replicate 6 0, pl_red = replicate 6 0\<rparr>"
proof (rule parallel_unpack_equals_single [of 2])
  show "interleaves [(1, 0), (0, 0), (1, 1), (0, 1), (2, 0), (2, 1)] (parallel_workers 2 3 2)"
    by code_simp
qed simp

end
