(* ===== verification/Pixel_Expand.thy ===== *)
theory Pixel_Expand
  imports Prelude
begin

text \<open>
  Bit replication from eight to ten bits, the expansion every ten-bit path of the probes uses:
  arithmetic form, range, injectivity and characterisation of the values it produces.
\<close>

definition expand10 :: "nat \<Rightarrow> nat" where
  "expand10 s = 4 * s + s div 64"

lemma expand10_less: "s < 256 \<Longrightarrow> expand10 s < 1024"
  by (simp add: expand10_def)

lemma expand10_low: "s < 256 \<Longrightarrow> expand10 s mod 4 = s div 64"
  by (simp add: expand10_def)

lemma expand10_high: "s < 256 \<Longrightarrow> expand10 s div 4 = s"
  by (simp add: expand10_def)

lemma expand10_strict: "s < t \<Longrightarrow> expand10 s < expand10 t"
  using div_le_mono [of s t 64] by (simp add: expand10_def)

lemma expand10_image: "(\<exists>s < 256. expand10 s = v) \<longleftrightarrow> v < 1024 \<and> v mod 4 = v div 256"
proof
  assume "\<exists>s < 256. expand10 s = v"
  then obtain s where s: "s < 256" "v = expand10 s" by auto
  have "v div 256 = v div 4 div 64" by (simp add: div_mult2_eq [symmetric])
  then show "v < 1024 \<and> v mod 4 = v div 256"
    using s expand10_less expand10_low expand10_high by simp
next
  assume v: "v < 1024 \<and> v mod 4 = v div 256"
  have "v div 256 = v div 4 div 64" by (simp add: div_mult2_eq [symmetric])
  then have "expand10 (v div 4) = v"
    using v div_mult_mod_eq [of v 4] by (simp add: expand10_def)
  moreover have "v div 4 < 256" using v by (simp add: div_less_iff_less_mult)
  ultimately show "\<exists>s < 256. expand10 s = v" by blast
qed

lemma or_push_small:
  fixes a b :: nat
  assumes "b < 2 ^ n"
  shows "or (push_bit n a) b = 2 ^ n * a + b"
proof -
  have "and (push_bit n a) b = 0"
  proof (rule bit_eqI)
    fix k
    have "\<not> (n \<le> k \<and> bit b k)"
      using take_bit_nat_eq_self [OF assms] bit_take_bit_iff [of n b k] by auto
    then show "bit (and (push_bit n a) b) k = bit (0 :: nat) k" by (auto simp: bit_simps)
  qed
  then show ?thesis by (simp add: disjunctive_add_eq_or [symmetric] push_bit_eq_mult mult.commute)
qed

lemma expand10_word:
  assumes "s < 256" "10 \<le> LENGTH('a :: len)"
  shows "or (push_bit 2 (of_nat s)) (drop_bit 6 (of_nat s)) = (of_nat (expand10 s) :: 'a word)"
proof -
  have l: "(2 :: nat) ^ 10 \<le> 2 ^ LENGTH('a)" by (rule power_increasing [OF assms(2)]) simp
  then have u: "unat (of_nat k :: 'a word) = k" if "k < 1024" for k
    using that by (simp add: unat_of_nat)
  have d: "drop_bit 6 (of_nat s :: 'a word) = of_nat (s div 64)"
    unfolding word_unat_eq_iff unat_drop_bit_eq
    using assms(1) u [of s] u [of "s div 64"] by (simp add: drop_bit_eq_div)
  have "or (push_bit 2 (of_nat s)) (of_nat (s div 64)) = (of_nat (or (push_bit 2 s) (s div 64)) :: 'a word)"
    by (simp add: of_nat_or_eq push_bit_of_nat)
  also have "or (push_bit 2 s) (s div 64) = expand10 s"
    using or_push_small [of "s div 64" 2 s] assms(1) by (simp add: expand10_def)
  finally show ?thesis unfolding d .
qed

end
