(* ===== verification/Cxx_Parse.thy ===== *)
theory Cxx_Parse
  imports Prelude
begin

text \<open>
  The number parsers of the C and C++ standard libraries as the command lines of the probes use
  them: \<^verbatim>\<open>strtoul\<close>/\<^verbatim>\<open>strtoull\<close> (64-bit, value, end pointer and ERANGE), \<^verbatim>\<open>std::stoul\<close> and
  \<^verbatim>\<open>std::stoi\<close> with their two exceptions. Leading white space and a sign are skipped, a minus sign
  negates modulo 2^64, base 0 and 16 recognise the 0x prefix, and parsing stops at the first
  character that is not a digit of the base.
\<close>

datatype parse_error = Invalid_Argument | Out_Of_Range

definition c_isspace :: "char \<Rightarrow> bool" where
  "c_isspace c \<longleftrightarrow> (let n = of_char c :: nat in n = 32 \<or> (9 \<le> n \<and> n \<le> 13))"

definition c_isdigit :: "char \<Rightarrow> bool" where
  "c_isdigit c \<longleftrightarrow> (let n = of_char c :: nat in 48 \<le> n \<and> n \<le> 57)"

definition digit_value :: "char \<Rightarrow> nat" where
  "digit_value c = (let n = of_char c in
     if 48 \<le> n \<and> n \<le> 57 then n - 48
     else if 97 \<le> n \<and> n \<le> 122 then n - 87
     else if 65 \<le> n \<and> n \<le> 90 then n - 55
     else 36)"

definition hex_prefix :: "string \<Rightarrow> bool" where
  "hex_prefix s \<longleftrightarrow> (case s of a # b # c # _ \<Rightarrow>
     a = CHR ''0'' \<and> (b = CHR ''x'' \<or> b = CHR ''X'') \<and> digit_value c < 16 | _ \<Rightarrow> False)"

definition number_value :: "nat \<Rightarrow> string \<Rightarrow> nat" where
  "number_value base ds = foldl (\<lambda>a c. a * base + digit_value c) 0 ds"

text \<open>Sign, magnitude and the number of characters consumed; \<^verbatim>\<open>None\<close> when no conversion is possible.\<close>

definition scan_number :: "nat \<Rightarrow> string \<Rightarrow> (bool \<times> nat \<times> nat) option" where
  "scan_number base s =
     (let ws = takeWhile c_isspace s;
          s1 = drop (length ws) s;
          neg = (case s1 of c # _ \<Rightarrow> c = CHR ''-'' | [] \<Rightarrow> False);
          signed = (case s1 of c # _ \<Rightarrow> c = CHR ''-'' \<or> c = CHR ''+'' | [] \<Rightarrow> False);
          s2 = (if signed then drop 1 s1 else s1);
          hex = ((base = 0 \<or> base = 16) \<and> hex_prefix s2);
          base' = (if hex then 16
                   else if base = 0 then (case s2 of c # _ \<Rightarrow> if c = CHR ''0'' then 8 else 10 | [] \<Rightarrow> 10)
                   else base);
          s3 = (if hex then drop 2 s2 else s2);
          ds = takeWhile (\<lambda>c. digit_value c < base') s3
      in if ds = [] then None
         else Some (neg, number_value base' ds,
           length ws + (if signed then 1 else 0) + (if hex then 2 else 0) + length ds))"

text \<open>\<^verbatim>\<open>strtoul\<close> and \<^verbatim>\<open>strtoull\<close>: value, offset of the end pointer, and whether errno is ERANGE.\<close>

definition strtoull :: "nat \<Rightarrow> string \<Rightarrow> u64 \<times> nat \<times> bool" where
  "strtoull base s = (case scan_number base s of
     None \<Rightarrow> (0, 0, False)
   | Some (neg, v, k) \<Rightarrow>
       if 2 ^ 64 \<le> v then (- 1, k, True)
       else ((if neg then - of_nat v else of_nat v), k, False))"

definition stoul_base :: "nat \<Rightarrow> string \<Rightarrow> parse_error + u64 \<times> nat" where
  "stoul_base base s = (case strtoull base s of (v, k, erange) \<Rightarrow>
     if k = 0 then Inl Invalid_Argument
     else if erange then Inl Out_Of_Range
     else Inr (v, k))"

definition stoul :: "string \<Rightarrow> parse_error + u64" where
  "stoul s = (case stoul_base 10 s of Inl e \<Rightarrow> Inl e | Inr (v, _) \<Rightarrow> Inr v)"

definition stoi_used :: "string \<Rightarrow> parse_error + int \<times> nat" where
  "stoi_used s = (case scan_number 10 s of
     None \<Rightarrow> Inl Invalid_Argument
   | Some (neg, v, k) \<Rightarrow>
       let i = (if neg then - int v else int v) in
       if i < - (2 ^ 31) \<or> 2 ^ 31 \<le> i then Inl Out_Of_Range else Inr (i, k))"

definition stoi :: "string \<Rightarrow> parse_error + int" where
  "stoi s = (case stoi_used s of Inl e \<Rightarrow> Inl e | Inr (v, _) \<Rightarrow> Inr v)"

section \<open>Facts\<close>

lemma scan_consumed:
  assumes "scan_number base s = Some (neg, v, k)"
  shows "0 < k \<and> k \<le> length s"
proof -
  let ?ws = "takeWhile c_isspace s"
  let ?s1 = "drop (length ?ws) s"
  define sg where "sg = (case ?s1 of c # _ \<Rightarrow> c = CHR ''-'' \<or> c = CHR ''+'' | [] \<Rightarrow> False)"
  define s2 where "s2 = (if sg then drop 1 ?s1 else ?s1)"
  define hx where "hx = ((base = 0 \<or> base = 16) \<and> hex_prefix s2)"
  define b where "b = (if hx then 16 else if base = 0 then
    (case s2 of c # _ \<Rightarrow> if c = CHR ''0'' then 8 else 10 | [] \<Rightarrow> 10) else base)"
  define ds where "ds = takeWhile (\<lambda>c. digit_value c < b) (if hx then drop 2 s2 else s2)"
  have ds: "ds \<noteq> []"
    and k: "k = length ?ws + (if sg then 1 else 0) + (if hx then 2 else 0) + length ds"
    using assms unfolding scan_number_def Let_def sg_def [symmetric] s2_def [symmetric]
      hx_def [symmetric] b_def [symmetric] ds_def [symmetric]
    by (simp_all split: if_split_asm)
  have l1: "length ?ws + length ?s1 = length s" using length_takeWhile_le [of c_isspace s] by simp
  have l2: "(if sg then 1 else 0) + length s2 = length ?s1"
    by (cases ?s1) (auto simp: s2_def sg_def)
  have l3: "(if hx then 2 else 0) \<le> length s2"
    by (auto simp: hx_def hex_prefix_def split: list.splits)
  have "length ds \<le> length (if hx then drop 2 s2 else s2)"
    unfolding ds_def by (rule length_takeWhile_le)
  then have "(if hx then 2 else 0) + length ds \<le> length s2" using l3 by (simp split: if_split_asm)
  then show ?thesis using k l1 l2 ds by simp
qed

lemma strtoull_consumed:
  assumes "strtoull base s = (v, k, r)"
  shows "k \<le> length s" "k = 0 \<longleftrightarrow> scan_number base s = None"
  using assms scan_consumed [of base s]
  by (auto simp: strtoull_def split: option.splits if_split_asm prod.splits)

lemma stoi_range: "stoi s = Inr v \<Longrightarrow> - (2 ^ 31) \<le> v \<and> v < 2 ^ 31"
  by (auto simp: stoi_def stoi_used_def Let_def split: option.splits sum.splits if_split_asm)

lemma stoul_base_consumed: "stoul_base base s = Inr (v, k) \<Longrightarrow> 0 < k \<and> k \<le> length s"
  using strtoull_consumed(1) [of base s]
  by (auto simp: stoul_base_def split: prod.splits if_split_asm)

lemmas parse_simps = stoi_def stoi_used_def stoul_def stoul_base_def strtoull_def scan_number_def
  c_isspace_def digit_value_def number_value_def hex_prefix_def

lemma parse_examples:
  "stoi ''120'' = Inr 120" "stoi '' -7x'' = Inr (- 7)" "stoi ''abc'' = Inl Invalid_Argument"
  "stoi ''2147483648'' = Inl Out_Of_Range"
  "stoul_base 0 ''0x1f'' = Inr (31, 4)" "stoul ''-1'' = Inr (2 ^ 64 - 1)"
  "strtoull 10 '''' = (0, 0, False)"
  by (simp_all add: parse_simps)

end
