(* ===== verification/Resources.thy ===== *)
theory Resources
  imports Main
begin

text \<open>
  Resource traces. A model of code that acquires and releases handles returns the trace of these
  events in program order; \<^verbatim>\<open>run_events\<close> replays a trace against the resources held and fails on a
  release of something that is not held (a double free or a free of an unacquired handle).
\<close>

datatype 'r res_event = Acq 'r | Rel 'r

fun run_events :: "'r list \<Rightarrow> 'r res_event list \<Rightarrow> 'r list option" where
  "run_events held [] = Some held"
| "run_events held (Acq r # t) = run_events (r # held) t"
| "run_events held (Rel r # t) = (if r \<in> set held then run_events (remove1 r held) t else None)"

definition leaks :: "'r res_event list \<Rightarrow> 'r list option" where
  "leaks t = run_events [] t"

definition clean :: "'r res_event list \<Rightarrow> bool" where
  "clean t \<longleftrightarrow> leaks t = Some []"

lemma run_events_append:
  "run_events h (s @ t) = Option.bind (run_events h s) (\<lambda>h'. run_events h' t)"
  by (induction h s rule: run_events.induct) auto

lemma run_events_frame:
  "run_events h t = Some h' \<Longrightarrow> run_events (h @ k) t = Some (h' @ k)"
  by (induction h t rule: run_events.induct) (auto simp: remove1_append split: if_split_asm)

lemma clean_append: "clean s \<Longrightarrow> clean t \<Longrightarrow> clean (s @ t)"
  by (simp add: clean_def leaks_def run_events_append)

lemma run_events_clean: "clean t \<Longrightarrow> run_events h t = Some h"
  using run_events_frame [of "[]" t "[]" h] by (simp add: clean_def leaks_def)

text \<open>Scoped use: what is acquired around a clean body and released after it leaves nothing behind.\<close>

lemma clean_scope: "clean t \<Longrightarrow> clean (Acq r # t @ [Rel r])"
  by (simp add: clean_def leaks_def run_events_append run_events_clean)

text \<open>Plain acquisitions and plain releases.\<close>

lemma run_events_acquire: "run_events h (map Acq xs) = Some (rev xs @ h)"
  by (induction xs arbitrary: h) simp_all

lemma run_events_release:
  "distinct h \<Longrightarrow> distinct ds \<Longrightarrow> set ds \<subseteq> set h \<Longrightarrow>
    run_events h (map Rel ds) = Some (filter (\<lambda>r. r \<notin> set ds) h)"
proof (induction ds arbitrary: h)
  case (Cons d ds)
  have "remove1 d h = filter (\<lambda>r. r \<noteq> d) h" 
    using Cons.prems by (auto simp: distinct_remove1_removeAll removeAll_filter_not_eq intro!: filter_cong)
  moreover have "run_events (filter (\<lambda>r. r \<noteq> d) h) (map Rel ds) =
      Some (filter (\<lambda>r. r \<notin> set ds) (filter (\<lambda>r. r \<noteq> d) h))"
    using Cons.prems by (intro Cons.IH) auto
  ultimately show ?case using Cons.prems by (auto intro!: filter_cong)
qed simp

fun releases :: "'r res_event list \<Rightarrow> 'r list" where
  "releases [] = []"
| "releases (Acq r # t) = releases t"
| "releases (Rel r # t) = r # releases t"

lemma releases_append [simp]: "releases (s @ t) = releases s @ releases t"
  by (induction s rule: releases.induct) simp_all

lemma releases_map [simp]: "releases (map Acq xs) = []" "releases (map Rel xs) = xs"
  by (induction xs) simp_all

end
