(* ===== verification/X11_Probe.thy ===== *)
theory X11_Probe
  imports X11_Pixels Pixel_Expand Cxx_Parse Resources
begin

text \<open>
  The control flow of plank-probe-x11-native10.cpp: the shared-memory image and its clean-up, the
  controlled and visible 1024-code round trips with every early exit, command-line parsing, and
  the gates of \<^verbatim>\<open>main\<close>. The X server and the operating system are not part of the repository: each
  call's reply is a field of an environment record, and the pixels read back are what the
  environment returns for the pixels put.
\<close>

section \<open>shm_image_t\<close>

datatype x_resource = X_Pixmap | X_Gc | X_Source_Image | X_Get_Image | X_Window | X_Keepalive
  | Shm_Image | Shm_Segment | Shm_Mapping | Shm_Attachment

record shm_env =
  se_create_image :: bool
  se_size :: nat
  se_shmget :: bool
  se_shmat :: bool
  se_attach :: bool
  se_rmid :: bool

record shm_image =
  si_attached :: bool
  si_image :: bool
  si_shmaddr :: bool
  si_shmid :: bool
  si_marked :: bool

abbreviation shm_initial :: shm_image where
  "shm_initial \<equiv> \<lparr>si_attached = False, si_image = False, si_shmaddr = False, si_shmid = False,
     si_marked = False\<rparr>"

text \<open>\<^verbatim>\<open>cleanup()\<close>: the releases it performs, in order, and the fields it resets.\<close>

definition shm_cleanup :: "shm_image \<Rightarrow> x_resource res_event list \<times> shm_image" where
  "shm_cleanup s =
     ((if si_attached s then [Rel Shm_Attachment] else []) @
      (if si_image s then [Rel Shm_Image] else []) @
      (if si_shmaddr s then [Rel Shm_Mapping] else []) @
      (if si_shmid s \<and> \<not> si_marked s then [Rel Shm_Segment] else []),
      s\<lparr>si_attached := False, si_image := False, si_shmaddr := False, si_shmid := False\<rparr>)"

text \<open>The body of the constructor's try block: events, fields reached, and the exception if any.\<close>

definition shm_try :: "shm_env \<Rightarrow> x_resource res_event list \<times> shm_image \<times> string option" where
  "shm_try e =
     (if \<not> se_create_image e then ([], shm_initial, Some ''XShmCreateImage failed'')
      else
        let s1 = shm_initial\<lparr>si_image := True\<rparr>; t1 = [Acq Shm_Image] in
        if se_size e = 0 \<or> (2 ^ 31 - 1) * 16 < se_size e
        then (t1, s1, Some ''invalid XShm image size'')
        else if \<not> se_shmget e then (t1, s1, Some ''shmget failed'')
        else
          let s2 = s1\<lparr>si_shmid := True\<rparr>; t2 = t1 @ [Acq Shm_Segment] in
          if \<not> se_shmat e then (t2, s2, Some ''shmat failed'')
          else
            let s3 = s2\<lparr>si_shmaddr := True\<rparr>; t3 = t2 @ [Acq Shm_Mapping] in
            if \<not> se_attach e then (t3, s3, Some ''XShmAttach failed'')
            else
              let s4 = s3\<lparr>si_attached := True\<rparr>; t4 = t3 @ [Acq Shm_Attachment] in
              if \<not> se_rmid e then (t4, s4, Some ''shmctl(IPC_RMID) failed'')
              else (t4 @ [Rel Shm_Segment], s4\<lparr>si_marked := True\<rparr>, None))"

definition shm_construct :: "shm_env \<Rightarrow> x_resource res_event list \<times> (string + shm_image)" where
  "shm_construct e = (case shm_try e of
     (t, s, None) \<Rightarrow> (t, Inr s)
   | (t, s, Some err) \<Rightarrow> (t @ fst (shm_cleanup s), Inl err))"

definition shm_destroy :: "shm_image \<Rightarrow> x_resource res_event list" where
  "shm_destroy s = fst (shm_cleanup s)"

lemmas shm_defs = shm_construct_def shm_try_def shm_cleanup_def shm_destroy_def Let_def

lemma shm_construct_cases:
  "shm_construct e = (t, Inl err) \<Longrightarrow> clean t"
  "shm_construct e = (t, Inr s) \<Longrightarrow> clean (t @ shm_destroy s)"
  by (auto simp: shm_defs clean_def leaks_def split: if_split_asm)

text \<open>The shared-memory image never leaks and never frees twice: whichever call fails, the
  constructor's exception leaves nothing held; when it succeeds, construction followed by
  destruction releases exactly what was acquired, and a second clean-up does nothing.\<close>

theorem shm_image_no_leak:
  "(case shm_construct e of
      (t, Inl err) \<Rightarrow> clean t
    | (t, Inr s) \<Rightarrow> clean (t @ shm_destroy s) \<and> fst (shm_cleanup (snd (shm_cleanup s))) = [] \<and>
        leaks t = Some [Shm_Attachment, Shm_Mapping, Shm_Image])"
  by (simp add: shm_defs clean_def leaks_def)


section \<open>The 1024-code round trips\<close>

definition code_pixel :: "channel list \<Rightarrow> u32 \<Rightarrow> u64" where
  "code_pixel channels code = fold (\<lambda>c pixel. or pixel (pack_code c code)) channels 0"

definition codes_exact :: "channel list \<Rightarrow> (nat \<Rightarrow> u64) \<Rightarrow> bool" where
  "codes_exact channels captured =
     list_all (\<lambda>code. list_all (\<lambda>c. unpack_code c (captured code) = of_nat code) channels) [0..<1024]"

record controlled_env =
  ce_pixmap :: bool
  ce_gc :: bool
  ce_create_image :: bool
  ce_calloc :: bool
  ce_shm :: shm_env
  ce_shm_capture :: bool
  ce_get_image :: bool
  ce_read :: "bool \<Rightarrow> (nat \<Rightarrow> u64) \<Rightarrow> nat \<Rightarrow> u64"

definition controlled_round_trip ::
  "controlled_env \<Rightarrow> channel list \<Rightarrow> bool \<Rightarrow> x_resource res_event list \<times> (string + bool)" where
  "controlled_round_trip e channels use_shm =
     (if \<not> ce_pixmap e then ([], Inl ''XCreatePixmap failed'')
      else if \<not> ce_gc e then ([Acq X_Pixmap, Rel X_Pixmap], Inl ''XCreateGC failed'')
      else if \<not> ce_create_image e then
        ([Acq X_Pixmap, Acq X_Gc, Rel X_Gc, Rel X_Pixmap], Inl ''XCreateImage failed'')
      else if \<not> ce_calloc e then
        ([Acq X_Pixmap, Acq X_Gc, Acq X_Source_Image, Rel X_Source_Image, Rel X_Gc, Rel X_Pixmap],
         Inl ''source image allocation failed'')
      else
        let acquired = [Acq X_Pixmap, Acq X_Gc, Acq X_Source_Image];
            release = [Rel X_Source_Image, Rel X_Gc, Rel X_Pixmap];
            pixmap = (\<lambda>x. code_pixel channels (of_nat x));
            captured = ce_read e use_shm pixmap
        in if use_shm then
             (case shm_construct (ce_shm e) of
                (t, Inl err) \<Rightarrow> (acquired @ t, Inl err)
              | (t, Inr shm) \<Rightarrow>
                  if \<not> ce_shm_capture e then
                    (acquired @ t @ shm_destroy shm @ release, Inl ''controlled XShmGetImage failed'')
                  else (acquired @ t @ shm_destroy shm @ release, Inr (codes_exact channels captured)))
           else if \<not> ce_get_image e then (acquired @ release, Inl ''controlled XGetImage failed'')
           else (acquired @ [Acq X_Get_Image] @ [Rel X_Get_Image] @ release,
                 Inr (codes_exact channels captured)))"

record visible_env =
  ve_window :: bool
  ve_gc :: bool
  ve_root_attributes :: bool
  ve_create_image :: bool
  ve_calloc :: bool
  ve_get_image :: bool
  ve_shm :: shm_env
  ve_shm_capture :: bool
  ve_read :: "bool \<Rightarrow> (nat \<Rightarrow> nat \<Rightarrow> u64) \<Rightarrow> nat \<Rightarrow> nat \<Rightarrow> u64"

definition visible_drawable_round_trip ::
  "visible_env \<Rightarrow> channel list \<Rightarrow> x_resource res_event list \<times> (string + bool \<times> bool)" where
  "visible_drawable_round_trip e channels =
     (if \<not> ve_window e then ([], Inl ''XCreateSimpleWindow failed'')
      else if \<not> ve_gc e then
        ([Acq X_Window, Rel X_Window], Inl ''visible-window XCreateGC failed'')
      else if \<not> ve_root_attributes e then
        ([Acq X_Window, Acq X_Gc, Rel X_Gc, Rel X_Window],
         Inl ''visible-window root attributes failed'')
      else if \<not> ve_create_image e then
        ([Acq X_Window, Acq X_Gc, Rel X_Gc, Rel X_Window], Inl ''visible-window XCreateImage failed'')
      else if \<not> ve_calloc e then
        ([Acq X_Window, Acq X_Gc, Acq X_Source_Image, Rel X_Source_Image, Rel X_Gc, Rel X_Window],
         Inl ''visible-window image allocation failed'')
      else
        let acquired = [Acq X_Window, Acq X_Gc, Acq X_Source_Image];
            release = [Rel X_Source_Image, Rel X_Gc, Rel X_Window];
            window = (\<lambda>x y. code_pixel channels (of_nat x));
            exact = (\<lambda>captured. codes_exact channels (\<lambda>code. captured code 16))
        in if \<not> ve_get_image e then (acquired @ release, Inl ''visible-root XGetImage failed'')
           else
             (case shm_construct (ve_shm e) of
                (t, Inl err) \<Rightarrow> (acquired @ [Acq X_Get_Image] @ t, Inl err)
              | (t, Inr shm) \<Rightarrow>
                  let events = acquired @ [Acq X_Get_Image] @ t @ [Rel X_Get_Image] @ release @
                        shm_destroy shm
                  in if \<not> ve_shm_capture e then (events, Inl ''visible-root XShmGetImage failed'')
                     else (events, Inr (exact (ve_read e False window), exact (ve_read e True window)))))"

lemma shm_leaks_append:
  assumes "shm_construct e = (t, Inr s)"
  shows "run_events h (t @ shm_destroy s @ u) = run_events h u"
    "run_events h (t @ Rel X_Get_Image # Rel X_Source_Image # Rel X_Gc # Rel X_Window # shm_destroy s) =
      run_events h [Rel X_Get_Image, Rel X_Source_Image, Rel X_Gc, Rel X_Window]"
proof -
  have "clean (t @ shm_destroy s)" using shm_construct_cases(2) [OF assms] .
  then show "run_events h (t @ shm_destroy s @ u) = run_events h u"
    using run_events_append [of h "t @ shm_destroy s" u] by (simp add: run_events_clean)
  have t: "t = [Acq Shm_Image, Acq Shm_Segment, Acq Shm_Mapping, Acq Shm_Attachment, Rel Shm_Segment]"
    and s: "shm_destroy s = [Rel Shm_Attachment, Rel Shm_Image, Rel Shm_Mapping]"
    using assms by (auto simp: shm_defs split: if_split_asm)
  show "run_events h (t @ Rel X_Get_Image # Rel X_Source_Image # Rel X_Gc # Rel X_Window # shm_destroy s) =
      run_events h [Rel X_Get_Image, Rel X_Source_Image, Rel X_Gc, Rel X_Window]"
    unfolding t s by (simp add: remove1_commute)
qed

lemma shm_leaks_fail:
  "shm_construct e = (t, Inl err) \<Longrightarrow> run_events h t = Some h"
  using run_events_clean [OF shm_construct_cases(1)] .

lemma shm_construct_disj:
  "(\<exists>t err. shm_construct e = (t, Inl err)) \<or> (\<exists>t s. shm_construct e = (t, Inr s))"
  by (metis old.prod.exhaust sum.exhaust)

text \<open>The controlled round trip releases everything on each of its exits except one: when the
  constructor of the shared-memory image throws, the source image, the graphics context and the
  pixmap stay allocated. On every other path, errors included, nothing is leaked or freed twice.\<close>

theorem controlled_round_trip_leaks:
  "leaks (fst (controlled_round_trip e channels use_shm)) =
    Some (if use_shm \<and> ce_pixmap e \<and> ce_gc e \<and> ce_create_image e \<and> ce_calloc e \<and>
             (case snd (shm_construct (ce_shm e)) of Inl _ \<Rightarrow> True | Inr _ \<Rightarrow> False)
          then [X_Source_Image, X_Gc, X_Pixmap] else [])"
  using shm_construct_disj [of "ce_shm e"]
  by (auto simp: controlled_round_trip_def leaks_def Let_def shm_leaks_append shm_leaks_fail)

lemma visible_round_trip_leaks:
  "leaks (fst (visible_drawable_round_trip e channels)) =
    Some (if ve_window e \<and> ve_gc e \<and> ve_root_attributes e \<and> ve_create_image e \<and> ve_calloc e \<and>
             ve_get_image e \<and> (case snd (shm_construct (ve_shm e)) of Inl _ \<Rightarrow> True | Inr _ \<Rightarrow> False)
          then [X_Get_Image, X_Source_Image, X_Gc, X_Window] else [])"
  using shm_construct_disj [of "ve_shm e"]
  by (auto simp: visible_drawable_round_trip_def leaks_def Let_def shm_leaks_append shm_leaks_fail)


text \<open>Three channels whose masks are ten consecutive bits each and do not overlap.\<close>

definition native10 :: "nat \<Rightarrow> nat \<Rightarrow> nat \<Rightarrow> bool" where
  "native10 r g b \<longleftrightarrow> r + 10 \<le> 64 \<and> g + 10 \<le> 64 \<and> b + 10 \<le> 64 \<and>
     and (field_mask r 10) (field_mask g 10) = 0 \<and> and (field_mask r 10) (field_mask b 10) = 0 \<and>
     and (field_mask g 10) (field_mask b 10) = 0"

abbreviation channels10 :: "nat \<Rightarrow> nat \<Rightarrow> nat \<Rightarrow> channel list" where
  "channels10 r g b \<equiv> map make_channel [field_mask r 10, field_mask g 10, field_mask b 10]"

lemma ch_mask_make [simp]: "ch_mask (make_channel m) = m"
  by (simp add: make_channel_def)

lemma pack_and_disjoint: "and (ch_mask c) m = 0 \<Longrightarrow> and (pack_code c code) m = 0"
  by (simp add: pack_code_def and.assoc)

lemma unpack_rest:
  assumes "s + 10 \<le> 64" "n < 1024" "and rest (field_mask s 10) = 0"
  shows "unpack_code (make_channel (field_mask s 10))
      (or (pack_code (make_channel (field_mask s 10)) (of_nat n)) rest) = of_nat n"
  using assms by (intro unpack_pack_field) (simp_all add: unat_of_nat)

lemma unpack_code_pixel:
  assumes "native10 r g b" "n < 1024" "c \<in> set (channels10 r g b)"
  shows "unpack_code c (code_pixel (channels10 r g b) (of_nat n)) = of_nat n"
proof -
  let ?p = "\<lambda>s. pack_code (make_channel (field_mask s 10)) (of_nat n)"
  have d: "and (?p r) (field_mask g 10) = 0" "and (?p r) (field_mask b 10) = 0"
    "and (?p g) (field_mask r 10) = 0" "and (?p g) (field_mask b 10) = 0"
    "and (?p b) (field_mask r 10) = 0" "and (?p b) (field_mask g 10) = 0"
    using assms(1) and.commute [of "field_mask r 10" "field_mask g 10"]
      and.commute [of "field_mask r 10" "field_mask b 10"]
      and.commute [of "field_mask g 10" "field_mask b 10"]
    by (simp_all add: pack_and_disjoint native10_def)
  have l: "r + 10 \<le> 64" "g + 10 \<le> 64" "b + 10 \<le> 64" using assms(1) by (simp_all add: native10_def)
  have dist: "and (or x y) z = or (and x z) (and y z)" for x y z :: u64
    by (rule and.commute [of "or x y" z, THEN trans]) (simp add: bit.conj_disj_distrib and.commute)
  have p: "code_pixel (channels10 r g b) (of_nat n) = or (or (?p r) (?p g)) (?p b)"
    by (simp add: code_pixel_def)
  have "or (or (?p r) (?p g)) (?p b) = or (?p r) (or (?p g) (?p b))"
    "or (or (?p r) (?p g)) (?p b) = or (?p g) (or (?p r) (?p b))"
    "or (or (?p r) (?p g)) (?p b) = or (?p b) (or (?p r) (?p g))"
    by (simp_all add: or.assoc or.commute or.left_commute)
  then show ?thesis
    using assms(3) unpack_rest [OF l(1) assms(2), of "or (?p g) (?p b)"]
      unpack_rest [OF l(2) assms(2), of "or (?p r) (?p b)"]
      unpack_rest [OF l(3) assms(2), of "or (?p r) (?p g)"] d dist
    unfolding p by auto
qed

lemma codes_exact_native:
  assumes "native10 r g b"
  shows "codes_exact (channels10 r g b) (\<lambda>x. code_pixel (channels10 r g b) (of_nat x))"
  unfolding codes_exact_def list_all_iff set_upt atLeastLessThan_iff
  by (intro ballI unpack_code_pixel [OF assms]) simp_all

lemma native10_standard: "native10 20 10 0"
  unfolding native10_def by (auto intro!: bit_word_eqI simp: bit_simps bit_field_mask)

text \<open>On a server that returns the pixels it was given, the controlled round trip over a native
  10:10:10 drawable succeeds on both capture paths: when every call works and the three masks are
  ten consecutive, non-overlapping bits, all 1024 codes survive in all channels, for
  \<^verbatim>\<open>XGetImage\<close> and for the shared-memory path.\<close>

theorem controlled_round_trip_exact:
  assumes "native10 r g b"
    and "ce_pixmap e" "ce_gc e" "ce_create_image e" "ce_calloc e" "ce_get_image e" "ce_shm_capture e"
    and "snd (shm_construct (ce_shm e)) = Inr s"
    and "\<forall>shm put x. ce_read e shm put x = put x"
  shows "snd (controlled_round_trip e (channels10 r g b) use_shm) = Inr True"
proof -
  have read: "ce_read e use_shm put = put" for put using assms(9) by (simp add: fun_eq_iff)
  note x = codes_exact_native [OF assms(1)]
  obtain t where t: "shm_construct (ce_shm e) = (t, Inr s)"
    using assms(8) by (cases "shm_construct (ce_shm e)") simp
  show ?thesis
    using assms(2-7) x by (simp add: controlled_round_trip_def t Let_def read del: list.map)
qed

theorem controlled_round_trip_exact_witness:
  "snd (controlled_round_trip \<lparr>ce_pixmap = True, ce_gc = True, ce_create_image = True,
      ce_calloc = True,
      ce_shm = \<lparr>se_create_image = True, se_size = 4096, se_shmget = True, se_shmat = True,
        se_attach = True, se_rmid = True\<rparr>,
      ce_shm_capture = True, ce_get_image = True, ce_read = (\<lambda>shm put x. put x)\<rparr>
    (channels10 20 10 0) True) = Inr True"
proof (rule controlled_round_trip_exact)
  show "native10 20 10 0" by (rule native10_standard)
qed (simp_all add: shm_construct_def shm_try_def)

text \<open>The test that separates true ten-bit content from expanded eight-bit content accepts exactly
  the ten-bit codes whose two low bits repeat the two high ones: 256 of the 1024 codes.\<close>

theorem eight_to_ten_expansion_iff:
  "is_eight_to_ten_expansion v \<longleftrightarrow> unat v < 1024 \<and> unat v mod 4 = unat v div 256"
proof -
  have "(or (push_bit 2 (of_nat s)) (drop_bit 6 (of_nat s)) = v) \<longleftrightarrow> expand10 s = unat v"
    if "s < 256" for s
  proof -
    have "unat (of_nat (expand10 s) :: u32) = expand10 s"
      using expand10_less [OF that] by (simp add: unat_of_nat)
    then show ?thesis using expand10_word [OF that, where 'a = 32] by (auto simp: word_unat_eq_iff)
  qed
  then have "is_eight_to_ten_expansion v \<longleftrightarrow> (\<exists>s < 256. expand10 s = unat v)"
    unfolding is_eight_to_ten_expansion_def set_upt Bex_def atLeastLessThan_iff by blast
  then show ?thesis by (simp add: expand10_image)
qed

end
