(* ===== verification/X11_Main.thy ===== *)
theory X11_Main
  imports X11_Probe
begin

text \<open>
  The command line, the timing summary, the capture loop and the gates of \<^verbatim>\<open>main\<close> in
  plank-probe-x11-native10.cpp. An \<^verbatim>\<open>Inl\<close> value is a C++ exception, which \<^verbatim>\<open>main\<close> turns into
  exit code 1; exit code 2 is a failed gate. Timings are natural numbers of nanoseconds, and the
  percentile index is the exact product of the fraction and the last index, rounded down.
\<close>

section \<open>Timing summary\<close>

record timing =
  tm_minimum :: nat
  tm_median :: nat
  tm_p95 :: nat
  tm_maximum :: nat

definition percentile_index :: "nat \<Rightarrow> nat \<Rightarrow> nat" where
  "percentile_index percent n = percent * (n - 1) div 100"

definition summarize :: "nat list \<Rightarrow> timing" where
  "summarize samples = (let s = sort samples in
     \<lparr>tm_minimum = hd s, tm_median = s ! percentile_index 50 (length s),
      tm_p95 = s ! percentile_index 95 (length s), tm_maximum = last s\<rparr>)"

lemma percentile_index_less: "percent \<le> 100 \<Longrightarrow> 0 < n \<Longrightarrow> percentile_index percent n < n"
proof -
  assume a: "percent \<le> 100" "0 < n"
  then have "percent * (n - 1) div 100 \<le> 100 * (n - 1) div 100"
    by (intro div_le_mono mult_le_mono1)
  then show ?thesis using a by (simp add: percentile_index_def)
qed

lemma percentile_index_mono: "p \<le> q \<Longrightarrow> percentile_index p n \<le> percentile_index q n"
  by (simp add: percentile_index_def div_le_mono mult_le_mono1)

text \<open>The timing summary of any non-empty list of samples is ordered, minimum, median, 95th
  percentile, maximum, and each of the four values is one of the samples; the two percentile
  indices never leave the list.\<close>

theorem summarize_ordered:
  assumes "samples \<noteq> []"
  shows "tm_minimum (summarize samples) \<le> tm_median (summarize samples) \<and>
    tm_median (summarize samples) \<le> tm_p95 (summarize samples) \<and>
    tm_p95 (summarize samples) \<le> tm_maximum (summarize samples) \<and>
    {tm_minimum (summarize samples), tm_median (summarize samples), tm_p95 (summarize samples),
      tm_maximum (summarize samples)} \<subseteq> set samples"
proof -
  let ?s = "sort samples"
  have n: "0 < length ?s" "?s \<noteq> []" using assms by (simp_all, metis set_empty set_sort)
  have i: "percentile_index 50 (length ?s) < length ?s" "percentile_index 95 (length ?s) < length ?s"
    by (rule percentile_index_less [OF _ n(1)], simp)+
  have m: "?s ! a \<le> ?s ! b" if "a \<le> b" "b < length ?s" for a b
    using sorted_nth_mono [OF sorted_sort that] .
  have h: "hd ?s = ?s ! 0" "last ?s = ?s ! (length ?s - 1)"
    using n by (simp_all add: hd_conv_nth last_conv_nth)
  have mem: "?s ! a \<in> set samples" if "a < length ?s" for a using nth_mem [OF that] by simp
  have "percentile_index 50 (length ?s) \<le> percentile_index 95 (length ?s)"
    by (rule percentile_index_mono) simp
  then show ?thesis
    unfolding summarize_def Let_def h using i n(1) mem [of 0] mem [OF i(1)] mem [OF i(2)]
      mem [of "length ?s - 1"] m [of 0 "percentile_index 50 (length ?s)"]
      m [of "percentile_index 50 (length ?s)" "percentile_index 95 (length ?s)"]
      m [of "percentile_index 95 (length ?s)" "length ?s - 1"] by simp
qed

theorem summarize_ordered_witness:
  "tm_minimum (summarize [5, 3, 9]) \<le> tm_median (summarize [5, 3, 9])"
  using summarize_ordered [of "[5, 3, 9]"] by blast

section \<open>Command line\<close>

text \<open>The argument vector from the first argument on; the loop looks at each word that has a
  successor.\<close>

fun parse_frames_from :: "string list \<Rightarrow> string \<Rightarrow> int \<Rightarrow> string + int" where
  "parse_frames_from (a # b # rest) name default_value =
     (if a = name then
        (case stoi b of
           Inl _ \<Rightarrow> Inl ''stoi''
         | Inr value \<Rightarrow>
             if value \<le> 0 \<or> 1000 < value then Inl (name @ '' must be between 1 and 1000'')
             else Inr value)
      else parse_frames_from (b # rest) name default_value)"
| "parse_frames_from _ name default_value = Inr default_value"

definition parse_frames :: "string list \<Rightarrow> string \<Rightarrow> int \<Rightarrow> string + int" where
  "parse_frames argv name default_value = parse_frames_from (drop 1 argv) name default_value"

fun parse_drawable_from :: "string list \<Rightarrow> string + u64 option" where
  "parse_drawable_from (a # b # rest) =
     (if a = ''--drawable'' then
        (case stoul_base 0 b of
           Inl _ \<Rightarrow> Inl ''stoul''
         | Inr (value, consumed) \<Rightarrow>
             if consumed \<noteq> length b \<or> value = 0
             then Inl ''--drawable must be a nonzero X11 window ID''
             else Inr (Some value))
      else parse_drawable_from (b # rest))"
| "parse_drawable_from _ = Inr None"

definition parse_drawable :: "string list \<Rightarrow> string + u64 option" where
  "parse_drawable argv = parse_drawable_from (drop 1 argv)"

definition has_flag :: "string list \<Rightarrow> string \<Rightarrow> bool" where
  "has_flag argv name \<longleftrightarrow> name \<in> set (drop 1 argv)"

record x11_options =
  xo_shm_frames :: int
  xo_get_frames :: int
  xo_capture_fps :: int
  xo_drawable :: "u64 option"
  xo_force_composite :: bool

definition x11_parse_options :: "string list \<Rightarrow> string + x11_options" where
  "x11_parse_options argv =
     (case parse_frames argv ''--shm-frames'' 20 of Inl e \<Rightarrow> Inl e | Inr shm_frames \<Rightarrow>
      case parse_frames argv ''--get-frames'' 3 of Inl e \<Rightarrow> Inl e | Inr get_frames \<Rightarrow>
      case parse_frames argv ''--fps'' 0 of Inl e \<Rightarrow> Inl e | Inr capture_fps \<Rightarrow>
      case parse_drawable argv of Inl e \<Rightarrow> Inl e | Inr drawable \<Rightarrow>
      Inr \<lparr>xo_shm_frames = shm_frames, xo_get_frames = get_frames, xo_capture_fps = capture_fps,
           xo_drawable = drawable, xo_force_composite = has_flag argv ''--force-composite''\<rparr>)"

lemma parse_frames_range:
  "parse_frames_from argv name default_value = Inr v \<Longrightarrow>
    v = default_value \<or> (1 \<le> v \<and> v \<le> 1000)"
  by (induction argv name default_value rule: parse_frames_from.induct)
    (auto split: if_split_asm sum.splits)

lemma parse_drawable_nonzero: "parse_drawable_from argv = Inr (Some d) \<Longrightarrow> d \<noteq> 0"
  by (induction argv rule: parse_drawable_from.induct) (auto split: if_split_asm sum.splits)

section \<open>Capture loop\<close>

record capture_loop =
  cl_fingerprints :: "u64 list"
  cl_previous :: u64
  cl_changed :: nat

text \<open>One frame: the fingerprint joins the set (a list without repetitions), and a frame other than
  the first whose fingerprint differs from its predecessor's counts as a change.\<close>

definition capture_step :: "nat \<Rightarrow> u64 \<Rightarrow> capture_loop \<Rightarrow> capture_loop" where
  "capture_step frame fingerprint st =
     \<lparr>cl_fingerprints = List.insert fingerprint (cl_fingerprints st),
      cl_previous = fingerprint,
      cl_changed = (if frame \<noteq> 0 \<and> fingerprint \<noteq> cl_previous st then cl_changed st + 1
                    else cl_changed st)\<rparr>"

fun capture_frames ::
  "(nat \<Rightarrow> ximage option) \<Rightarrow> nat \<Rightarrow> nat \<Rightarrow> capture_loop \<Rightarrow> string + capture_loop" where
  "capture_frames capture frame 0 st = Inr st"
| "capture_frames capture frame (Suc left) st =
     (case capture frame of
        None \<Rightarrow> Inl ''capture drawable XShmGetImage failed''
      | Some img \<Rightarrow>
          capture_frames capture (Suc frame) left (capture_step frame (sample_fingerprint img) st))"

abbreviation capture_initial :: capture_loop where
  "capture_initial \<equiv> \<lparr>cl_fingerprints = [], cl_previous = 0, cl_changed = 0\<rparr>"

definition capture_inv :: "nat \<Rightarrow> capture_loop \<Rightarrow> bool" where
  "capture_inv frame st \<longleftrightarrow> distinct (cl_fingerprints st) \<and>
     (if frame = 0 then cl_fingerprints st = [] \<and> cl_changed st = 0
      else cl_previous st \<in> set (cl_fingerprints st) \<and> cl_changed st \<le> frame - 1 \<and>
        length (cl_fingerprints st) \<le> cl_changed st + 1)"

lemma capture_step_inv:
  "capture_inv frame st \<Longrightarrow> capture_inv (Suc frame) (capture_step frame f st)"
  by (auto simp: capture_inv_def capture_step_def List.insert_def split: if_split_asm)

lemma capture_frames_inv:
  "capture_frames capture frame n st = Inr st' \<Longrightarrow> capture_inv frame st \<Longrightarrow>
    capture_inv (frame + n) st'"
  by (induction capture frame n st rule: capture_frames.induct)
    (auto split: option.splits dest: capture_step_inv)

text \<open>The capture statistics are consistent: after \<^verbatim>\<open>n\<close> captured frames the number of
  distinct fingerprints is at most one more than the number of transitions, which is below \<^verbatim>\<open>n\<close>;
  so several distinct frames are never reported without as many observed changes.\<close>

theorem capture_statistics:
  assumes "capture_frames capture 0 n capture_initial = Inr st" "0 < n"
  shows "distinct (cl_fingerprints st) \<and> cl_changed st < n \<and>
    length (cl_fingerprints st) \<le> cl_changed st + 1"
proof -
  have "capture_inv 0 capture_initial" by (simp add: capture_inv_def)
  from capture_frames_inv [OF assms(1) this] show ?thesis
    using assms(2) by (auto simp: capture_inv_def split: if_split_asm)
qed

section \<open>The gates of main\<close>

record x11_attributes =
  xa_width :: nat
  xa_height :: nat
  xa_depth :: nat
  xa_red_mask :: u64
  xa_green_mask :: u64
  xa_blue_mask :: u64

definition attribute_channels :: "x11_attributes \<Rightarrow> channel list" where
  "attribute_channels a = [make_channel (xa_red_mask a), make_channel (xa_green_mask a),
     make_channel (xa_blue_mask a)]"

definition masks_are_10_bit :: "channel list \<Rightarrow> bool" where
  "masks_are_10_bit channels \<longleftrightarrow> list_all (\<lambda>c. ch_bits c = 10) channels"

definition masks_overlap :: "channel list \<Rightarrow> bool" where
  "masks_overlap channels \<longleftrightarrow>
     and (ch_mask (channels ! 0)) (ch_mask (channels ! 1)) \<noteq> 0 \<or>
     and (ch_mask (channels ! 0)) (ch_mask (channels ! 2)) \<noteq> 0 \<or>
     and (ch_mask (channels ! 1)) (ch_mask (channels ! 2)) \<noteq> 0"

definition matching_native_10_bit :: "channel list \<Rightarrow> x11_attributes \<Rightarrow> bool" where
  "matching_native_10_bit channels a \<longleftrightarrow> xa_depth a = 30 \<and>
     list_all2 (\<lambda>l r. ch_mask l = ch_mask r \<and> ch_bits l = ch_bits r) channels (attribute_channels a)"

record x11_env =
  xe_open_display :: bool
  xe_root :: "x11_attributes option"
  xe_shm_extension :: bool
  xe_composite_extension :: bool
  xe_overlay :: "x11_attributes option"
  xe_keepalive :: bool
  xe_drawable_attributes :: "u64 \<Rightarrow> x11_attributes option"
  xe_controlled :: controlled_env
  xe_visible_root :: visible_env
  xe_visible_overlay :: visible_env
  xe_root_shm :: shm_env
  xe_shm_capture :: "nat \<Rightarrow> ximage option"
  xe_get_capture :: "nat \<Rightarrow> bool"
  xe_shm_image :: ximage

text \<open>Up to the choice of the capture drawable: the exit code if a gate ends the program, or the
  root's channels, the overlay's attributes and the capture drawable's attributes.\<close>

definition x11_setup ::
  "x11_env \<Rightarrow> x11_options \<Rightarrow> nat + channel list \<times> x11_attributes \<times> x11_attributes" where
  "x11_setup e opt =
     (if \<not> xe_open_display e then Inl 1
      else case xe_root e of None \<Rightarrow> Inl 1 | Some root \<Rightarrow>
        let channels = attribute_channels root in
        if xa_depth root \<noteq> 30 \<or> \<not> masks_are_10_bit channels \<or> masks_overlap channels then Inl 2
        else if \<not> xe_shm_extension e then Inl 2
        else if \<not> xe_composite_extension e then Inl 2
        else case xe_overlay e of None \<Rightarrow> Inl 1 | Some overlay \<Rightarrow>
          if \<not> matching_native_10_bit channels overlay \<or> xa_width overlay \<noteq> xa_width root \<or>
             xa_height overlay \<noteq> xa_height root then Inl 2
          else if xo_force_composite opt \<and> \<not> xe_keepalive e then Inl 1
          else
            (case (case xo_drawable opt of None \<Rightarrow> Some overlay
                   | Some d \<Rightarrow> xe_drawable_attributes e d) of
               None \<Rightarrow> Inl 1
             | Some capture \<Rightarrow>
                 if \<not> matching_native_10_bit channels capture then Inl 2
                 else Inr (channels, overlay, capture)))"

text \<open>The four round trips: an exception of any of them ends the program with exit code 1; the visible
  ones are skipped when a drawable was named.\<close>

definition x11_round_trips ::
  "x11_env \<Rightarrow> x11_options \<Rightarrow> channel list \<Rightarrow> x11_attributes \<Rightarrow>
   string + bool \<times> bool \<times> (bool \<times> bool) \<times> (bool \<times> bool)" where
  "x11_round_trips e opt channels overlay =
     (case snd (controlled_round_trip (xe_controlled e) channels False) of Inl m \<Rightarrow> Inl m
      | Inr get_rt \<Rightarrow>
      case snd (controlled_round_trip (xe_controlled e) channels True) of Inl m \<Rightarrow> Inl m
      | Inr shm_rt \<Rightarrow>
      if xo_drawable opt \<noteq> None then Inr (get_rt, shm_rt, (False, False), (False, False))
      else
        case snd (visible_drawable_round_trip (xe_visible_root e) channels) of Inl m \<Rightarrow> Inl m
        | Inr root_rt \<Rightarrow>
        case snd (visible_drawable_round_trip (xe_visible_overlay e) (attribute_channels overlay))
          of Inl m \<Rightarrow> Inl m
        | Inr overlay_rt \<Rightarrow> Inr (get_rt, shm_rt, root_rt, overlay_rt))"

definition x11_main :: "x11_env \<Rightarrow> string list \<Rightarrow> nat" where
  "x11_main e argv =
     (case x11_parse_options argv of Inl _ \<Rightarrow> 1 | Inr opt \<Rightarrow>
      case x11_setup e opt of Inl code \<Rightarrow> code | Inr (channels, overlay, capture) \<Rightarrow>
      case x11_round_trips e opt channels overlay of Inl _ \<Rightarrow> 1
      | Inr (get_rt, shm_rt, root_rt, overlay_rt) \<Rightarrow>
      case snd (shm_construct (xe_root_shm e)) of Inl _ \<Rightarrow> 1 | Inr root_shm \<Rightarrow>
      case capture_frames (xe_shm_capture e) 0 (nat (xo_shm_frames opt)) capture_initial of
        Inl _ \<Rightarrow> 1
      | Inr stats \<Rightarrow>
        if \<not> list_all (xe_get_capture e) [0..<nat (xo_get_frames opt)] then 1
        else
          let visible_gate = (xo_drawable opt \<noteq> None \<or> (fst overlay_rt \<and> snd overlay_rt));
              pass = (get_rt \<and> shm_rt \<and> visible_gate \<and> xi_depth (xe_shm_image e) = 30 \<and>
                xi_bits_per_pixel (xe_shm_image e) = 32)
          in if pass then 0 else 2)"


lemma controlled_success:
  "snd (controlled_round_trip e channels use_shm) = Inr b \<Longrightarrow>
    b = codes_exact channels (ce_read e use_shm (\<lambda>x. code_pixel channels (of_nat x)))"
  by (auto simp: controlled_round_trip_def Let_def split: if_split_asm sum.split_asm prod.split_asm)

lemma codes_exactD:
  "codes_exact channels captured \<Longrightarrow> code < 1024 \<Longrightarrow> c \<in> set channels \<Longrightarrow>
    unpack_code c (captured code) = of_nat code"
  by (simp add: codes_exact_def list_all_iff del: upt_Suc)

text \<open>C40: The probe passes only on a proven native ten-bit display: exit code 0 means that the root
  window has depth 30 and three non-overlapping ten-bit channel masks, that both controlled capture
  paths returned every one of the 1024 codes in every channel, that the captured image has depth 30
  in 32-bit pixels, and that the visible overlay round trip was exact or a drawable was named.\<close>

theorem x11_pass_sound:
  assumes "x11_main e argv = 0"
  shows "\<exists>root opt. xe_root e = Some root \<and> x11_parse_options argv = Inr opt \<and> xa_depth root = 30 \<and>
    masks_are_10_bit (attribute_channels root) \<and> \<not> masks_overlap (attribute_channels root) \<and>
    (\<forall>use_shm. \<forall>code < 1024. \<forall>c \<in> set (attribute_channels root).
      unpack_code c (ce_read (xe_controlled e) use_shm
        (\<lambda>x. code_pixel (attribute_channels root) (of_nat x)) code) = of_nat code) \<and>
    xi_depth (xe_shm_image e) = 30 \<and> xi_bits_per_pixel (xe_shm_image e) = 32 \<and>
    (xo_drawable opt = None \<longrightarrow>
      (\<exists>overlay. xe_overlay e = Some overlay \<and>
        snd (visible_drawable_round_trip (xe_visible_overlay e) (attribute_channels overlay)) =
          Inr (True, True)))"
proof -
  obtain opt where opt: "x11_parse_options argv = Inr opt"
    using assms by (auto simp: x11_main_def split: sum.split_asm)
  obtain channels overlay capture where st: "x11_setup e opt = Inr (channels, overlay, capture)"
    using assms opt by (auto simp: x11_main_def x11_setup_def Let_def
        split: sum.split_asm option.split_asm if_split_asm)
  obtain g s r ov where rt: "x11_round_trips e opt channels overlay = Inr (g, s, r, ov)"
    using assms opt st by (auto simp: x11_main_def split: sum.split_asm)
  have gates: "g" "s" "xo_drawable opt \<noteq> None \<or> (fst ov \<and> snd ov)"
    "xi_depth (xe_shm_image e) = 30" "xi_bits_per_pixel (xe_shm_image e) = 32"
    using assms opt st rt by (auto simp: x11_main_def Let_def split: sum.split_asm if_split_asm)
  obtain root where root: "xe_root e = Some root" "channels = attribute_channels root"
    "xa_depth root = 30" "masks_are_10_bit channels" "\<not> masks_overlap channels"
    "xe_overlay e = Some overlay"
    using st by (auto simp: x11_setup_def Let_def split: option.split_asm if_split_asm)
  have rts: "snd (controlled_round_trip (xe_controlled e) channels False) = Inr g"
    "snd (controlled_round_trip (xe_controlled e) channels True) = Inr s"
    and ov: "xo_drawable opt = None \<longrightarrow> snd (visible_drawable_round_trip (xe_visible_overlay e)
      (attribute_channels overlay)) = Inr ov"
    using rt by (auto simp: x11_round_trips_def split: sum.split_asm if_split_asm)
  have ex: "codes_exact channels
      (ce_read (xe_controlled e) use_shm (\<lambda>x. code_pixel channels (of_nat x)))" for use_shm
    using controlled_success [OF rts(1)] controlled_success [OF rts(2)] gates(1,2)
    by (cases use_shm) simp_all
  have "ov = (True, True)" if "xo_drawable opt = None" using that gates(3) by (cases ov) simp
  then have "xo_drawable opt = None \<longrightarrow>
      (\<exists>overlay. xe_overlay e = Some overlay \<and>
        snd (visible_drawable_round_trip (xe_visible_overlay e) (attribute_channels overlay)) =
          Inr (True, True))" using ov root(6) by blast
  then show ?thesis
    using opt root(1,3-5) gates(4,5) codes_exactD [OF ex] unfolding root(2)
    by - (rule exI [of _ root], rule exI [of _ opt], intro conjI allI impI ballI, simp_all)
qed

definition demo_attributes :: x11_attributes where
  "demo_attributes = \<lparr>xa_width = 2, xa_height = 1, xa_depth = 30, xa_red_mask = field_mask 20 10,
     xa_green_mask = field_mask 10 10, xa_blue_mask = field_mask 0 10\<rparr>"

definition demo_env :: x11_env where
  "demo_env = (let ok = \<lparr>se_create_image = True, se_size = 4096, se_shmget = True, se_shmat = True,
        se_attach = True, se_rmid = True\<rparr>;
      img = \<lparr>xi_width = 2, xi_height = 1, xi_bytes_per_line = 8, xi_depth = 30,
        xi_bits_per_pixel = 32, xi_data = replicate 8 0, xi_pixel = (\<lambda>x y. 0)\<rparr>;
      vis = \<lparr>ve_window = False, ve_gc = False, ve_root_attributes = False,
        ve_create_image = False, ve_calloc = False, ve_get_image = False, ve_shm = ok,
        ve_shm_capture = False, ve_read = (\<lambda>shm put x y. put x y)\<rparr>
    in \<lparr>xe_open_display = True, xe_root = Some demo_attributes, xe_shm_extension = True,
      xe_composite_extension = True, xe_overlay = Some demo_attributes, xe_keepalive = True,
      xe_drawable_attributes = (\<lambda>d. Some demo_attributes),
      xe_controlled = \<lparr>ce_pixmap = True, ce_gc = True, ce_create_image = True, ce_calloc = True,
        ce_shm = ok, ce_shm_capture = True, ce_get_image = True, ce_read = (\<lambda>shm put x. put x)\<rparr>,
      xe_visible_root = vis, xe_visible_overlay = vis, xe_root_shm = ok,
      xe_shm_capture = (\<lambda>n. Some img), xe_get_capture = (\<lambda>n. True), xe_shm_image = img\<rparr>)"

lemma demo_pass: "x11_main demo_env [''probe'', ''--drawable'', ''7''] = 0"
proof -
  let ?opt = "\<lparr>xo_shm_frames = 20, xo_get_frames = 3, xo_capture_fps = 0, xo_drawable = Some 7,
    xo_force_composite = False\<rparr>"
  have o: "x11_parse_options [''probe'', ''--drawable'', ''7''] = Inr ?opt"
    by (simp add: x11_parse_options_def parse_frames_def parse_drawable_def has_flag_def parse_simps)
  have c: "attribute_channels demo_attributes = channels10 20 10 0"
    by (simp add: attribute_channels_def demo_attributes_def)
  have s: "x11_setup demo_env ?opt = Inr (channels10 20 10 0, demo_attributes, demo_attributes)"
    using native10_standard
    by (simp add: x11_setup_def demo_env_def Let_def c matching_native_10_bit_def
        masks_are_10_bit_def masks_overlap_def native10_def make_channel_field)
      (simp add: demo_attributes_def)
  have r: "x11_round_trips demo_env ?opt (channels10 20 10 0) demo_attributes =
      Inr (True, True, (False, False), (False, False))"
    using codes_exact_native [OF native10_standard]
    by (simp add: x11_round_trips_def demo_env_def Let_def controlled_round_trip_def
        shm_construct_def shm_try_def del: list.map)
  have f: "\<exists>stats. capture_frames (\<lambda>n. Some img) k n st = Inr stats" for img k n st
    by (induction n arbitrary: k st) simp_all
  from f [of "xe_shm_image demo_env" 0 20 capture_initial] obtain stats where
    "capture_frames (xe_shm_capture demo_env) 0 20 capture_initial = Inr stats"
    by (auto simp: demo_env_def Let_def)
  then show ?thesis
    by (simp add: x11_main_def o s r del: list.map)
      (simp add: demo_env_def Let_def shm_construct_def shm_try_def list_all_iff)
qed

theorem x11_pass_sound_witness:
  "\<exists>root. xe_root demo_env = Some root \<and> xa_depth root = 30"
  using x11_pass_sound [OF demo_pass] by blast

theorem capture_statistics_witness:
  "\<exists>st. capture_frames (\<lambda>n. Some (xe_shm_image demo_env)) 0 2 capture_initial = Inr st \<and>
    cl_changed st < 2"
proof -
  obtain st where "capture_frames (\<lambda>n. Some (xe_shm_image demo_env)) 0 2 capture_initial = Inr st"
    by (simp add: numeral_2_eq_2)
  from capture_statistics [OF this] this show ?thesis by simp
qed

end
