(* ===== verification/Byte_Io.thy ===== *)
theory Byte_Io
  imports Prelude
begin

text \<open>
  Transfer of a byte block over a descriptor whose system calls may be interrupted or may move
  fewer bytes than asked for (\<^verbatim>\<open>write_all\<close> and \<^verbatim>\<open>read_all\<close> of plank-wacom-raw-bridge.cpp),
  and the contract of a frame format on such a stream.

  The replies of the system calls are a list consumed from the front. \<^verbatim>\<open>None\<close> as a result means
  that the loop is still running when the list is exhausted.
\<close>

datatype io_reply = Io_Eintr | Io_Stop | Io_Moved nat

fun write_all :: "io_reply list \<Rightarrow> bytes \<Rightarrow> bool option \<times> bytes \<times> io_reply list" where
  "write_all rs [] = (Some True, [], rs)"
| "write_all [] (b # bs) = (None, [], [])"
| "write_all (Io_Eintr # rs) (b # bs) = write_all rs (b # bs)"
| "write_all (Io_Stop # rs) (b # bs) = (Some False, [], rs)"
| "write_all (Io_Moved n # rs) (b # bs) =
     (if n = 0 then (Some False, [], rs)
      else case write_all rs (drop n (b # bs)) of
        (r, sent, rs') \<Rightarrow> (r, take n (b # bs) @ sent, rs'))"

text \<open>\<^verbatim>\<open>read_all rs n stream\<close>: result, the bytes stored, the rest of the stream, the rest of the
  replies. A receive moves at most what is asked for and at most what the stream holds.\<close>

fun read_all :: "io_reply list \<Rightarrow> nat \<Rightarrow> bytes \<Rightarrow> bool option \<times> bytes \<times> bytes \<times> io_reply list" where
  "read_all rs 0 stream = (Some True, [], stream, rs)"
| "read_all [] (Suc n) stream = (None, [], stream, [])"
| "read_all (Io_Eintr # rs) (Suc n) stream = read_all rs (Suc n) stream"
| "read_all (Io_Stop # rs) (Suc n) stream = (Some False, [], stream, rs)"
| "read_all (Io_Moved k # rs) (Suc n) stream =
     (let m = min k (min (Suc n) (length stream)) in
      if m = 0 then (Some False, [], stream, rs)
      else case read_all rs (Suc n - m) (drop m stream) of
        (r, got, stream', rs') \<Rightarrow> (r, take m stream @ got, stream', rs'))"

text \<open>Replies that keep moving data: interruptions and transfers of at least one byte.\<close>

definition makes_progress :: "io_reply list \<Rightarrow> bool" where
  "makes_progress rs \<longleftrightarrow> (\<forall>r \<in> set rs. r \<noteq> Io_Stop \<and> r \<noteq> Io_Moved 0)"

definition transfers :: "io_reply list \<Rightarrow> nat" where
  "transfers rs = length (filter (\<lambda>r. r \<noteq> Io_Eintr) rs)"

lemma write_all_prefix:
  "write_all rs bs = (r, sent, rs') \<Longrightarrow> \<exists>rest. bs = sent @ rest \<and> (r = Some True \<longleftrightarrow> rest = [])"
proof (induction rs bs arbitrary: r sent rs' rule: write_all.induct)
  case (5 n rs b bs)
  show ?case
  proof (cases "n = 0")
    case False
    obtain r1 s1 q1 where w: "write_all rs (drop n (b # bs)) = (r1, s1, q1)"
      by (cases "write_all rs (drop n (b # bs))")
    from "5.IH" [OF False w] obtain rest where
      "drop n (b # bs) = s1 @ rest" "r1 = Some True \<longleftrightarrow> rest = []" by auto
    moreover have "r = r1" "sent = take n (b # bs) @ s1" using "5.prems" False w by auto
    ultimately show ?thesis by (metis append.assoc append_take_drop_id)
  qed (use 5 in auto)
qed auto

lemma write_all_completes:
  "makes_progress rs \<Longrightarrow> length bs \<le> transfers rs \<Longrightarrow> fst (write_all rs bs) = Some True"
proof (induction rs bs rule: write_all.induct)
  case (5 n rs b bs)
  then show ?case by (auto simp: makes_progress_def transfers_def split: prod.split)
qed (auto simp: makes_progress_def transfers_def)

lemma read_all_prefix:
  "read_all rs n stream = (r, got, stream', rs') \<Longrightarrow>
    stream = got @ stream' \<and> (r = Some True \<longrightarrow> length got = n) \<and> (r \<noteq> Some True \<longrightarrow> length got < n)"
proof (induction rs n stream arbitrary: r got stream' rs' rule: read_all.induct)
  case (5 k rs n stream)
  define m where "m = min k (min (Suc n) (length stream))"
  show ?case
  proof (cases "m = 0")
    case False
    obtain r1 g1 s1 q1 where w: "read_all rs (Suc n - m) (drop m stream) = (r1, g1, s1, q1)"
      by (cases "read_all rs (Suc n - m) (drop m stream)")
    note IH = "5.IH" [OF m_def False w]
    have "got = take m stream @ g1" "stream' = s1" "r = r1"
      using "5.prems" False w by (simp_all add: m_def [symmetric] Let_def)
    moreover have "stream = take m stream @ drop m stream" "m \<le> length stream" "m \<le> Suc n"
      by (simp_all add: m_def)
    ultimately show ?thesis using IH by (auto simp: min_def)
  qed (use 5 in \<open>auto simp: m_def [symmetric] Let_def\<close>)
qed auto

lemma read_all_completes:
  "makes_progress rs \<Longrightarrow> n \<le> transfers rs \<Longrightarrow> n \<le> length stream \<Longrightarrow>
    fst (read_all rs n stream) = Some True"
proof (induction rs n stream rule: read_all.induct)
  case (5 k rs n stream)
  then show ?case by (auto simp: makes_progress_def transfers_def Let_def split: prod.split)
qed (auto simp: makes_progress_def transfers_def)

section \<open>Frames on a stream\<close>

text \<open>A frame format with which the receiver, given the sender's bytes followed by anything, gets the
  frame and stands exactly behind it.\<close>

locale frame_stream =
  fixes put_frame :: "'f \<Rightarrow> bytes option"
    and get_frame :: "bytes \<Rightarrow> ('f \<times> bytes) option"
  assumes get_put: "put_frame f = Some w \<Longrightarrow> get_frame (w @ rest) = Some (f, rest)"
    and get_suffix: "get_frame s = Some (f, rest) \<Longrightarrow> length rest < length s"
begin

fun put_frames :: "'f list \<Rightarrow> bytes option" where
  "put_frames [] = Some []"
| "put_frames (f # fs) = (case put_frame f of None \<Rightarrow> None
    | Some w \<Rightarrow> (case put_frames fs of None \<Rightarrow> None | Some ws \<Rightarrow> Some (w @ ws)))"

function get_frames :: "bytes \<Rightarrow> 'f list \<times> bytes" where
  "get_frames s = (case get_frame s of None \<Rightarrow> ([], s)
    | Some (f, rest) \<Rightarrow> (case get_frames rest of (fs, r) \<Rightarrow> (f # fs, r)))"
  by pat_completeness simp_all

termination get_frames
  by (relation "measure length") (auto dest: get_suffix)

declare get_frames.simps [simp del]

lemma frames_roundtrip:
  assumes "put_frames fs = Some w" "get_frame rest = None"
  shows "get_frames (w @ rest) = (fs, rest)"
  using assms(1)
proof (induction fs arbitrary: w)
  case Nil
  then show ?case using assms(2) by (simp add: get_frames.simps)
next
  case (Cons f fs)
  then obtain u v where uv: "put_frame f = Some u" "put_frames fs = Some v" "w = u @ v"
    by (auto split: option.splits)
  then show ?case
    using Cons.IH [OF uv(2)] get_put [OF uv(1), of "v @ rest"] by (subst get_frames.simps) simp
qed

lemma put_frame_prefix_free:
  assumes "put_frame f = Some u" "put_frame g = Some v" "u @ r = v @ s"
  shows "f = g \<and> r = s"
  using get_put [OF assms(1), of r] get_put [OF assms(2), of s] assms(3) by simp

end

text \<open>Writing a block in full: whatever mixture of interruptions, partial transfers and failures the
  socket gives, what was sent is a prefix of the block, success is reported exactly when the whole
  block was sent, and as many transfers as bytes are always enough for the loop to finish with
  success.\<close>

theorem write_all_correct:
  "(\<exists>rest. bs = fst (snd (write_all rs bs)) @ rest \<and>
      (fst (write_all rs bs) = Some True \<longleftrightarrow> rest = [])) \<and>
    (makes_progress rs \<and> length bs \<le> transfers rs \<longrightarrow> fst (write_all rs bs) = Some True)"
  using write_all_prefix [of rs bs] write_all_completes [of rs bs] by (metis prod.collapse)

theorem write_all_correct_witness:
  "fst (write_all [Io_Moved 2, Io_Eintr, Io_Moved 1] [1, 2, 3]) = Some True"
  using write_all_correct [of "[1, 2, 3]" "[Io_Moved 2, Io_Eintr, Io_Moved 1]"]
  by (simp add: eval_nat_numeral)

end
