(* ===== verification/Wacom_Frame.thy ===== *)
theory Wacom_Frame
  imports Byte_Io Resources
begin

text \<open>
  The wire format of the raw Wacom bridge (plank-wacom-raw-bridge.cpp): message types, the packed
  header and device message as they lie in memory on a little-endian machine, sending and receiving
  of frames, and the connection set-up loops.
\<close>

abbreviation kMagic :: u32 where "kMagic \<equiv> 0x504c5748"
abbreviation kVersion :: u16 where "kVersion \<equiv> 1"
abbreviation UHID_DATA_MAX :: nat where "UHID_DATA_MAX \<equiv> 4096"
abbreviation HID_MAX_DESCRIPTOR_SIZE :: nat where "HID_MAX_DESCRIPTOR_SIZE \<equiv> 4096"
abbreviation kMaximumPayload :: nat where "kMaximumPayload \<equiv> UHID_DATA_MAX + 64"

abbreviation MT_device :: u16 where "MT_device \<equiv> 1"
abbreviation MT_descriptor :: u16 where "MT_descriptor \<equiv> 2"
abbreviation MT_input :: u16 where "MT_input \<equiv> 3"
abbreviation MT_get_report :: u16 where "MT_get_report \<equiv> 4"
abbreviation MT_get_report_reply :: u16 where "MT_get_report_reply \<equiv> 5"
abbreviation MT_set_report :: u16 where "MT_set_report \<equiv> 6"
abbreviation MT_set_report_reply :: u16 where "MT_set_report_reply \<equiv> 7"
abbreviation MT_output :: u16 where "MT_output \<equiv> 8"
abbreviation MT_detach :: u16 where "MT_detach \<equiv> 9"

record wire_header =
  wh_magic :: u32
  wh_version :: u16
  wh_type :: u16
  wh_interface :: u16
  wh_reserved :: u16
  wh_transaction :: u32
  wh_size :: u32

definition wire_header_bytes :: "wire_header \<Rightarrow> bytes" where
  "wire_header_bytes h = le32 (wh_magic h) @ le16 (wh_version h) @ le16 (wh_type h) @
     le16 (wh_interface h) @ le16 (wh_reserved h) @ le32 (wh_transaction h) @ le32 (wh_size h)"

definition wire_header_of_bytes :: "bytes \<Rightarrow> wire_header" where
  "wire_header_of_bytes p = \<lparr>wh_magic = from_le32 p, wh_version = from_le16 (drop 4 p),
     wh_type = from_le16 (drop 6 p), wh_interface = from_le16 (drop 8 p),
     wh_reserved = from_le16 (drop 10 p), wh_transaction = from_le32 (drop 12 p),
     wh_size = from_le32 (drop 16 p)\<rparr>"

record device_message =
  dm_interface_count :: u16
  dm_bus :: u16
  dm_vendor :: u32
  dm_product :: u32
  dm_version :: u32
  dm_country :: u32
  dm_name :: bytes
  dm_physical :: bytes
  dm_unique :: bytes

definition device_message_bytes :: "device_message \<Rightarrow> bytes" where
  "device_message_bytes d = le16 (dm_interface_count d) @ le16 (dm_bus d) @ le32 (dm_vendor d) @
     le32 (dm_product d) @ le32 (dm_version d) @ le32 (dm_country d) @ dm_name d @
     dm_physical d @ dm_unique d"

definition device_message_of_bytes :: "bytes \<Rightarrow> device_message" where
  "device_message_of_bytes p = \<lparr>dm_interface_count = from_le16 p, dm_bus = from_le16 (drop 2 p),
     dm_vendor = from_le32 (drop 4 p), dm_product = from_le32 (drop 8 p),
     dm_version = from_le32 (drop 12 p), dm_country = from_le32 (drop 16 p),
     dm_name = take 128 (drop 20 p), dm_physical = take 64 (drop 148 p),
     dm_unique = take 64 (drop 212 p)\<rparr>"

record frame =
  fr_type :: u16
  fr_interface :: u16
  fr_transaction :: u32
  fr_payload :: bytes

text \<open>The bytes a successful \<^verbatim>\<open>send_frame\<close> hands to the socket; \<^verbatim>\<open>None\<close> when the size check refuses.\<close>

definition frame_bytes :: "frame \<Rightarrow> bytes option" where
  "frame_bytes f =
     (if kMaximumPayload < length (fr_payload f) then None
      else Some (wire_header_bytes \<lparr>wh_magic = kMagic, wh_version = kVersion, wh_type = fr_type f,
             wh_interface = fr_interface f, wh_reserved = 0, wh_transaction = fr_transaction f,
             wh_size = of_nat (length (fr_payload f))\<rparr> @ fr_payload f))"

definition send_frame :: "io_reply list \<Rightarrow> frame \<Rightarrow> bool option \<times> bytes \<times> io_reply list" where
  "send_frame rs f =
     (if kMaximumPayload < length (fr_payload f) then (Some False, [], rs)
      else
        let header = wire_header_bytes \<lparr>wh_magic = kMagic, wh_version = kVersion,
              wh_type = fr_type f, wh_interface = fr_interface f, wh_reserved = 0,
              wh_transaction = fr_transaction f, wh_size = of_nat (length (fr_payload f))\<rparr>
        in case write_all rs header of
             (Some True, sent, rs') \<Rightarrow>
               if fr_payload f = [] then (Some True, sent, rs')
               else (case write_all rs' (fr_payload f) of (r, sent', rs'') \<Rightarrow> (r, sent @ sent', rs''))
           | other \<Rightarrow> other)"

definition header_valid :: "wire_header \<Rightarrow> bool" where
  "header_valid h \<longleftrightarrow> wh_magic h = kMagic \<and> wh_version h = kVersion \<and>
     unat (wh_size h) \<le> kMaximumPayload"

definition receive_frame ::
  "io_reply list \<Rightarrow> bytes \<Rightarrow> (bool \<times> frame) option \<times> bytes \<times> io_reply list" where
  "receive_frame rs stream =
     (case read_all rs 20 stream of
        (None, _, stream', rs') \<Rightarrow> (None, stream', rs')
      | (Some False, _, stream', rs') \<Rightarrow>
          (Some (False, \<lparr>fr_type = 0, fr_interface = 0, fr_transaction = 0, fr_payload = []\<rparr>), stream', rs')
      | (Some True, got, stream', rs') \<Rightarrow>
          let header = wire_header_of_bytes got in
          if \<not> header_valid header then
            (Some (False, \<lparr>fr_type = 0, fr_interface = 0, fr_transaction = 0, fr_payload = []\<rparr>), stream', rs')
          else
            let f = \<lparr>fr_type = wh_type header, fr_interface = wh_interface header,
                  fr_transaction = wh_transaction header,
                  fr_payload = replicate (unat (wh_size header)) 0\<rparr>
            in if wh_size header = 0 then (Some (True, f), stream', rs')
               else (case read_all rs' (unat (wh_size header)) stream' of
                  (None, _, s, q) \<Rightarrow> (None, s, q)
                | (Some ok, got', s, q) \<Rightarrow>
                    (Some (ok, f\<lparr>fr_payload := got' @ drop (length got') (fr_payload f)\<rparr>), s, q)))"

section \<open>Connection set-up\<close>

datatype net_resource = Addr_Info | Sock nat

record address_reply =
  ar_socket :: bool
  ar_connect :: bool
  ar_bind_listen :: bool

text \<open>The loop over the resolved addresses; \<^verbatim>\<open>ok\<close> is connect, or bind and listen.\<close>

fun try_addresses ::
  "(address_reply \<Rightarrow> bool) \<Rightarrow> nat \<Rightarrow> address_reply list \<Rightarrow> net_resource res_event list \<times> nat option" where
  "try_addresses ok i [] = ([], None)"
| "try_addresses ok i (a # as) =
     (if ar_socket a \<and> ok a then ([Acq (Sock i)], Some i)
      else case try_addresses ok (Suc i) as of
        (t, r) \<Rightarrow> ((if ar_socket a then [Acq (Sock i), Rel (Sock i)] else []) @ t, r))"

definition connect_tcp :: "address_reply list option \<Rightarrow> net_resource res_event list \<times> nat option" where
  "connect_tcp addresses = (case addresses of None \<Rightarrow> ([], None)
   | Some as \<Rightarrow> (case try_addresses ar_connect 0 as of
       (t, r) \<Rightarrow> (Acq Addr_Info # t @ [Rel Addr_Info], r)))"

definition listen_tcp :: "address_reply list option \<Rightarrow> net_resource res_event list \<times> nat option" where
  "listen_tcp addresses = (case addresses of None \<Rightarrow> ([], None)
   | Some as \<Rightarrow> (case try_addresses ar_bind_listen 0 as of
       (t, r) \<Rightarrow> (Acq Addr_Info # t @ [Rel Addr_Info], r)))"

section \<open>Facts\<close>

lemma length_wire_header [simp]: "length (wire_header_bytes h) = 20"
  by (simp add: wire_header_bytes_def)

lemma wire_header_roundtrip [simp]: "wire_header_of_bytes (wire_header_bytes h @ r) = h"
  "wire_header_of_bytes (wire_header_bytes h) = h"
  by (simp_all add: wire_header_of_bytes_def wire_header_bytes_def)

lemma device_message_roundtrip:
  assumes "length (dm_name d) = 128" "length (dm_physical d) = 64" "length (dm_unique d) = 64"
  shows "device_message_of_bytes (device_message_bytes d) = d" "length (device_message_bytes d) = 276"
  using assms by (simp_all add: device_message_of_bytes_def device_message_bytes_def)

lemma try_addresses_leaks:
  "run_events h (fst (try_addresses ok i as)) =
    Some (case snd (try_addresses ok i as) of None \<Rightarrow> h | Some k \<Rightarrow> Sock k # h)"
proof (induction as arbitrary: i h)
  case (Cons a as)
  then show ?case using Cons.IH [of h "Suc i"]
    by (cases "try_addresses ok (Suc i) as") (auto simp: run_events_append split: option.splits)
qed simp

lemma connect_leaks:
  "leaks (fst (connect_tcp as)) = Some (case snd (connect_tcp as) of None \<Rightarrow> [] | Some k \<Rightarrow> [Sock k])"
  "leaks (fst (listen_tcp as)) = Some (case snd (listen_tcp as) of None \<Rightarrow> [] | Some k \<Rightarrow> [Sock k])"
  using try_addresses_leaks [of "[Addr_Info]" ar_connect 0 "the as"]
    try_addresses_leaks [of "[Addr_Info]" ar_bind_listen 0 "the as"]
  by (auto simp: connect_tcp_def listen_tcp_def leaks_def run_events_append
      split: option.splits prod.splits)

text \<open>The receiver on a stream that delivers everything: the pure format behind \<^verbatim>\<open>receive_frame\<close>.\<close>

definition parse_frame :: "bytes \<Rightarrow> (frame \<times> bytes) option" where
  "parse_frame s =
     (if length s < 20 then None
      else let header = wire_header_of_bytes (take 20 s) in
        if \<not> header_valid header \<or> length s - 20 < unat (wh_size header) then None
        else Some (\<lparr>fr_type = wh_type header, fr_interface = wh_interface header,
          fr_transaction = wh_transaction header,
          fr_payload = take (unat (wh_size header)) (drop 20 s)\<rparr>,
          drop (20 + unat (wh_size header)) s))"

interpretation bridge: frame_stream frame_bytes parse_frame
proof unfold_locales
  fix f w rest
  assume "frame_bytes f = Some w"
  then show "parse_frame (w @ rest) = Some (f, rest)"
    by (cases f) (auto simp: frame_bytes_def parse_frame_def Let_def header_valid_def unat_of_nat
        split: if_split_asm)
next
  fix s f rest
  assume "parse_frame s = Some (f, rest)"
  then show "length rest < length s"
    by (auto simp: parse_frame_def Let_def split: if_split_asm)
qed


lemma read_all_exact:
  assumes "read_all rs n (w @ rest) = (Some True, got, s, q)" "n = length w"
  shows "got = w \<and> s = rest"
  using read_all_prefix [OF assms(1)] assms(2) by (auto simp: append_eq_append_conv)

lemma read_all_transfers:
  "read_all rs n s = (r, got, s', q) \<Longrightarrow> transfers rs \<le> transfers q + length got \<or> r = Some False"
proof (induction rs n s arbitrary: r got s' q rule: read_all.induct)
  case (5 k rs n stream)
  define m where "m = min k (min (Suc n) (length stream))"
  show ?case
  proof (cases "m = 0")
    case False
    obtain r1 g1 s1 q1 where w: "read_all rs (Suc n - m) (drop m stream) = (r1, g1, s1, q1)"
      by (cases "read_all rs (Suc n - m) (drop m stream)")
    note IH = "5.IH" [OF m_def False w]
    have "got = take m stream @ g1" "r = r1" "q = q1" "m \<le> length stream"
      using "5.prems" False w by (simp_all add: m_def [symmetric] Let_def, simp add: m_def)
    then show ?thesis using IH False by (auto simp: transfers_def min_def)
  qed (use 5 in \<open>auto simp: m_def [symmetric] Let_def\<close>)
qed (auto simp: transfers_def)

lemma read_all_replies: "set (snd (snd (snd (read_all rs n s)))) \<subseteq> set rs"
  by (induction rs n s rule: read_all.induct) (auto simp: Let_def split: prod.splits)

lemma read_all_progress:
  "makes_progress rs \<Longrightarrow> read_all rs n s = (r, got, s', q) \<Longrightarrow> makes_progress q"
  using read_all_replies [of rs n s] unfolding makes_progress_def by auto

lemma read_all_full:
  assumes "makes_progress rs" "length w \<le> transfers rs"
  shows "\<exists>q. read_all rs (length w) (w @ rest) = (Some True, w, rest, q) \<and> makes_progress q \<and>
    transfers rs \<le> transfers q + length w"
proof -
  obtain r got s q where x: "read_all rs (length w) (w @ rest) = (r, got, s, q)"
    by (cases "read_all rs (length w) (w @ rest)")
  have r: "r = Some True" using read_all_completes [OF assms, of "w @ rest"] x by simp
  then show ?thesis
    using read_all_exact [OF x [unfolded r] refl] read_all_transfers [OF x]
      read_all_progress [OF assms(1) x] x by auto
qed

lemma send_frame_sent:
  assumes "send_frame rs f = (Some True, sent, rs')"
  shows "frame_bytes f = Some sent"
proof -
  have w: "b = s" if "write_all q b = (Some True, s, q')" for q b s q'
    using write_all_prefix [OF that] by auto
  show ?thesis using assms
    by (auto simp: send_frame_def frame_bytes_def Let_def dest: w
        split: if_split_asm prod.split_asm option.split_asm bool.split_asm)
qed

text \<open>A frame survives the bridge's socket: when \<^verbatim>\<open>send_frame\<close> reports success, what it put on
  the wire followed by anything else is received as exactly this frame, whatever way the
  receiver's calls are interrupted or return partial data, and the receiver then stands at the
  first byte behind the frame.\<close>

theorem bridge_frame_roundtrip:
  assumes "send_frame ws f = (Some True, sent, ws')"
    and "makes_progress rs" "length sent \<le> transfers rs"
  shows "\<exists>q. receive_frame rs (sent @ rest) = (Some (True, f), rest, q)"
proof -
  have fb: "frame_bytes f = Some sent" by (rule send_frame_sent [OF assms(1)])
  let ?h = "\<lparr>wh_magic = kMagic, wh_version = kVersion, wh_type = fr_type f,
      wh_interface = fr_interface f, wh_reserved = 0, wh_transaction = fr_transaction f,
      wh_size = of_nat (length (fr_payload f))\<rparr>"
  have n: "length (fr_payload f) \<le> kMaximumPayload"
    and sent: "sent = wire_header_bytes ?h @ fr_payload f"
    using fb by (auto simp: frame_bytes_def split: if_split_asm)
  have sz: "unat (wh_size ?h) = length (fr_payload f)" using n by (simp add: unat_of_nat)
  have "length (wire_header_bytes ?h) \<le> transfers rs" using assms(3) sent by simp
  from read_all_full [OF assms(2) this, of "fr_payload f @ rest"] obtain q where
    q: "read_all rs 20 (sent @ rest) = (Some True, wire_header_bytes ?h, fr_payload f @ rest, q)"
      "makes_progress q" "transfers rs \<le> transfers q + 20"
    unfolding sent by auto
  have "length (fr_payload f) \<le> transfers q" using q(3) assms(3) sent by simp
  from read_all_full [OF q(2) this, of rest] obtain q' where
    q': "read_all q (length (fr_payload f)) (fr_payload f @ rest) = (Some True, fr_payload f, rest, q')"
    by auto
  have v: "header_valid ?h" using n sz by (simp add: header_valid_def)
  have z: "wh_size ?h = 0 \<longleftrightarrow> fr_payload f = []" using sz by (metis length_0_conv unat_eq_zero)
  show ?thesis
    using v z sz q' by (cases f) (simp add: receive_frame_def q(1) Let_def)
qed

theorem bridge_frame_roundtrip_witness:
  "\<exists>q. receive_frame (replicate 24 (Io_Moved 1))
      (fst (snd (send_frame [Io_Moved 20, Io_Eintr, Io_Moved 2]
        \<lparr>fr_type = 3, fr_interface = 1, fr_transaction = 9, fr_payload = [5, 6]\<rparr>)) @ [7]) =
    (Some (True, \<lparr>fr_type = 3, fr_interface = 1, fr_transaction = 9, fr_payload = [5, 6]\<rparr>), [7], q)"
proof -
  let ?f = "\<lparr>fr_type = 3, fr_interface = 1, fr_transaction = 9, fr_payload = [5, 6]\<rparr>"
  have s: "send_frame [Io_Moved 20, Io_Eintr, Io_Moved 2] ?f = (Some True,
      wire_header_bytes \<lparr>wh_magic = kMagic, wh_version = kVersion, wh_type = 3, wh_interface = 1,
        wh_reserved = 0, wh_transaction = 9, wh_size = 2\<rparr> @ [5, 6], [])"
    by (simp add: send_frame_def Let_def wire_header_bytes_def le32_def le16_def)
  show ?thesis
    unfolding s fst_conv snd_conv
    by (rule bridge_frame_roundtrip [OF s]) (simp_all add: makes_progress_def transfers_def)
qed

end
