(* ===== verification/Wacom_Bridge.thy ===== *)
theory Wacom_Bridge
  imports Wacom_Frame Cxx_Parse
begin

text \<open>
  The two ends of the raw Wacom bridge (plank-wacom-raw-bridge.cpp): how the client collects and
  checks the HID interfaces of one tablet, its session loop, the host's handshake and creation of
  UHID devices, the host's session loop, and the command line. Kernel replies (ioctl, open, read,
  poll) are inputs of the definitions; frames sent, UHID events written and releases are outputs.
\<close>

section \<open>Client: one physical tablet\<close>

definition c_string :: "nat \<Rightarrow> bytes \<Rightarrow> bytes" where
  "c_string n arr = takeWhile (\<lambda>c. c \<noteq> 0) (take (n - 1) arr)"

definition SLASH_INPUT :: bytes where
  "SLASH_INPUT = [0x2f, 0x69, 0x6e, 0x70, 0x75, 0x74]"

definition rfind :: "bytes \<Rightarrow> bytes \<Rightarrow> nat option" where
  "rfind pat s = find (\<lambda>i. take (length pat) (drop i s) = pat)
     (rev [0..<Suc (length s) - length pat])"

definition physical_group :: "bytes \<Rightarrow> bytes" where
  "physical_group physical =
     (case rfind SLASH_INPUT physical of None \<Rightarrow> physical | Some i \<Rightarrow> take i physical)"

text \<open>The version files found under the hidraw device, in directory order.\<close>

fun read_input_version :: "string option list \<Rightarrow> u32 option" where
  "read_input_version [] = None"
| "read_input_version (None # es) = read_input_version es"
| "read_input_version (Some version # es) =
     (case strtoull 16 version of (value, consumed, erange) \<Rightarrow>
        if consumed \<noteq> 0 \<and> consumed = length version \<and> unat value \<le> 0xffffffff
        then Some (ucast value) else read_input_version es)"

record hid_info =
  hi_bus :: u16
  hi_vendor :: u16
  hi_product :: u16

record hid_reply =
  hr_open :: bool
  hr_info :: "hid_info option"
  hr_phys :: bytes
  hr_uniq :: bytes
  hr_versions :: "string option list"
  hr_name :: "bytes option"
  hr_dev_phys :: "bytes option"
  hr_dev_uniq :: "bytes option"
  hr_desc_size :: "int option"
  hr_desc :: "bytes option"

record client_setup =
  cs_fds :: nat
  cs_descriptors :: "bytes list"
  cs_device :: device_message
  cs_group :: bytes
  cs_unique :: bytes

definition copy_ioctl_string :: "nat \<Rightarrow> bytes option \<Rightarrow> bytes \<Rightarrow> bytes" where
  "copy_ioctl_string n reply destination =
     (case reply of None \<Rightarrow> destination
      | Some value \<Rightarrow> (take n (value @ replicate n 0))[n - 1 := 0])"

definition open_interface :: "hid_reply \<Rightarrow> client_setup \<Rightarrow> nat + client_setup" where
  "open_interface r st =
     (if \<not> hr_open r then Inl 3
      else
        let st1 = st\<lparr>cs_fds := cs_fds st + 1\<rparr> in
        case hr_info r of None \<Rightarrow> Inl 3 | Some info \<Rightarrow>
        let current_group = physical_group (c_string 64 (hr_phys r));
            current_unique = c_string 64 (hr_uniq r);
            first = (cs_fds st1 = 1);
            same = (dm_bus (cs_device st1) = hi_bus info \<and>
                    dm_vendor (cs_device st1) = ucast (hi_vendor info) \<and>
                    dm_product (cs_device st1) = ucast (hi_product info) \<and>
                    current_group = cs_group st1 \<and>
                    (cs_unique st1 = [] \<or> current_unique = cs_unique st1));
            d = cs_device st1;
            st2 = (if first then st1\<lparr>
                cs_device := d\<lparr>dm_bus := hi_bus info, dm_vendor := ucast (hi_vendor info),
                  dm_product := ucast (hi_product info),
                  dm_version := (case read_input_version (hr_versions r) of None \<Rightarrow> 0 | Some v \<Rightarrow> v),
                  dm_name := copy_ioctl_string 128 (hr_name r) (dm_name d),
                  dm_physical := copy_ioctl_string 64 (hr_dev_phys r) (dm_physical d),
                  dm_unique := copy_ioctl_string 64 (hr_dev_uniq r) (dm_unique d)\<rparr>,
                cs_group := current_group, cs_unique := current_unique\<rparr> else st1)
        in if \<not> first \<and> \<not> same then Inl 3
           else case hr_desc_size r of None \<Rightarrow> Inl 3 | Some n \<Rightarrow>
             if n \<le> 0 \<or> int HID_MAX_DESCRIPTOR_SIZE < n then Inl 3
             else case hr_desc r of None \<Rightarrow> Inl 3 | Some value \<Rightarrow>
               Inr (st2\<lparr>cs_descriptors := cs_descriptors st2 @ [take (nat n) (value @ replicate (nat n) 0)]\<rparr>))"

fun open_interfaces :: "hid_reply list \<Rightarrow> client_setup \<Rightarrow> nat + client_setup" where
  "open_interfaces [] st = Inr st"
| "open_interfaces (r # rs) st =
     (case open_interface r st of Inl code \<Rightarrow> Inl code | Inr st' \<Rightarrow> open_interfaces rs st')"

definition client_initial :: "nat \<Rightarrow> client_setup" where
  "client_initial n = \<lparr>cs_fds = 0, cs_descriptors = [],
     cs_device = \<lparr>dm_interface_count = of_nat n, dm_bus = 0, dm_vendor = 0, dm_product = 0,
       dm_version = 0, dm_country = 0, dm_name = replicate 128 0, dm_physical = replicate 64 0,
       dm_unique = replicate 64 0\<rparr>,
     cs_group = [], cs_unique = []\<rparr>"

text \<open>The frames the client announces itself with: the device, then one descriptor per interface.\<close>

definition client_hello :: "client_setup \<Rightarrow> frame list" where
  "client_hello st =
     \<lparr>fr_type = MT_device, fr_interface = 0, fr_transaction = 0,
      fr_payload = device_message_bytes (cs_device st)\<rparr> #
     map (\<lambda>index. \<lparr>fr_type = MT_descriptor, fr_interface = of_nat index, fr_transaction = 0,
       fr_payload = cs_descriptors st ! index\<rparr>) [0..<length (cs_descriptors st)]"

section \<open>Client: session\<close>

abbreviation EIO :: nat where "EIO \<equiv> 5"
abbreviation EINVAL :: nat where "EINVAL \<equiv> 22"
abbreviation UHID_FEATURE_REPORT :: u8 where "UHID_FEATURE_REPORT \<equiv> 0"
abbreviation UHID_OUTPUT_REPORT :: u8 where "UHID_OUTPUT_REPORT \<equiv> 1"
abbreviation UHID_INPUT_REPORT :: u8 where "UHID_INPUT_REPORT \<equiv> 2"

datatype hid_request = HIDIOCGFEATURE nat | HIDIOCGOUTPUT nat | HIDIOCGINPUT nat
  | HIDIOCSFEATURE nat | HIDIOCSOUTPUT nat | HIDIOCSINPUT nat

definition get_report_ioctl :: "u8 \<Rightarrow> nat \<Rightarrow> hid_request option" where
  "get_report_ioctl type n =
     (if type = UHID_FEATURE_REPORT then Some (HIDIOCGFEATURE n)
      else if type = UHID_OUTPUT_REPORT then Some (HIDIOCGOUTPUT n)
      else if type = UHID_INPUT_REPORT then Some (HIDIOCGINPUT n)
      else None)"

definition set_report_ioctl :: "u8 \<Rightarrow> nat \<Rightarrow> hid_request option" where
  "set_report_ioctl type n =
     (if type = UHID_FEATURE_REPORT then Some (HIDIOCSFEATURE n)
      else if type = UHID_OUTPUT_REPORT then Some (HIDIOCSOUTPUT n)
      else if type = UHID_INPUT_REPORT then Some (HIDIOCSINPUT n)
      else None)"

text \<open>The reply of an ioctl: the byte count and data, or errno.\<close>

type_synonym ioctl_reply = "nat + nat \<times> bytes"

definition errno_of :: "hid_request option \<Rightarrow> ioctl_reply \<Rightarrow> u32" where
  "errno_of request reply = (case request of None \<Rightarrow> of_nat EINVAL
     | Some _ \<Rightarrow> (case reply of Inl errno \<Rightarrow> of_nat errno | Inr _ \<Rightarrow> 0))"

text \<open>The answer to a frame from the host: nothing, or one reply frame. \<^verbatim>\<open>dev\<close> is the hidraw ioctl of the
  addressed interface.\<close>

definition client_answer :: "(hid_request \<Rightarrow> bytes \<Rightarrow> ioctl_reply) \<Rightarrow> frame \<Rightarrow> frame option" where
  "client_answer dev f =
     (if fr_type f = MT_get_report \<and> length (fr_payload f) = 2 then
        let report = (replicate UHID_DATA_MAX 0)[0 := fr_payload f ! 0];
            request = get_report_ioctl (fr_payload f ! 1) UHID_DATA_MAX;
            reply = (case request of None \<Rightarrow> Inl 0 | Some r \<Rightarrow> dev r report);
            data = (case request of None \<Rightarrow> [] | Some r \<Rightarrow>
              (case reply of Inl _ \<Rightarrow> [] | Inr (n, out) \<Rightarrow> take n out))
        in Some \<lparr>fr_type = MT_get_report_reply, fr_interface = fr_interface f,
                 fr_transaction = fr_transaction f,
                 fr_payload = le32 (errno_of request reply) @ data\<rparr>
      else if (fr_type f = MT_set_report \<or> fr_type f = MT_output) \<and> 2 \<le> length (fr_payload f) then
        let request = set_report_ioctl (fr_payload f ! 0) (length (fr_payload f) - 1);
            reply = (case request of None \<Rightarrow> Inl 0 | Some r \<Rightarrow> dev r (drop 1 (fr_payload f)))
        in if fr_type f = MT_set_report
           then Some \<lparr>fr_type = MT_set_report_reply, fr_interface = fr_interface f,
                      fr_transaction = fr_transaction f,
                      fr_payload = le32 (errno_of request reply)\<rparr>
           else None
      else None)"

record client_event =
  cv_poll :: bool
  cv_socket_error :: bool
  cv_frame :: "frame option option"
  cv_reads :: "bytes option list"
  cv_send_ok :: "frame \<Rightarrow> bool"

text \<open>The loop over the readable interfaces; a failed send leaves this loop only.\<close>

fun forward_reports :: "(frame \<Rightarrow> bool) \<Rightarrow> nat \<Rightarrow> bytes option list \<Rightarrow> frame list" where
  "forward_reports ok index [] = []"
| "forward_reports ok index (None # rs) = forward_reports ok (Suc index) rs"
| "forward_reports ok index (Some report # rs) =
     (if report = [] then forward_reports ok (Suc index) rs
      else
        let f = \<lparr>fr_type = MT_input, fr_interface = of_nat index, fr_transaction = 0,
              fr_payload = report\<rparr>
        in if ok f then f # forward_reports ok (Suc index) rs else [f])"

text \<open>The hidraw ioctl a frame from the host causes, with the buffer handed to it.\<close>

definition client_ioctl :: "frame \<Rightarrow> (hid_request \<times> bytes) option" where
  "client_ioctl f =
     (if fr_type f = MT_get_report \<and> length (fr_payload f) = 2 then
        map_option (\<lambda>r. (r, (replicate UHID_DATA_MAX 0)[0 := fr_payload f ! 0]))
          (get_report_ioctl (fr_payload f ! 1) UHID_DATA_MAX)
      else if (fr_type f = MT_set_report \<or> fr_type f = MT_output) \<and> 2 \<le> length (fr_payload f) then
        map_option (\<lambda>r. (r, drop 1 (fr_payload f)))
          (set_report_ioctl (fr_payload f ! 0) (length (fr_payload f) - 1))
      else None)"

text \<open>One iteration: whether the loop goes on, the ioctls issued with the index of their interface, and
  the frames handed to \<^verbatim>\<open>send_frame\<close>.\<close>

definition client_step ::
  "nat \<Rightarrow> (nat \<Rightarrow> hid_request \<Rightarrow> bytes \<Rightarrow> ioctl_reply) \<Rightarrow> client_event \<Rightarrow>
    bool \<times> (nat \<times> hid_request \<times> bytes) list \<times> frame list" where
  "client_step interfaces devs e =
     (if \<not> cv_poll e \<or> cv_socket_error e then (False, [], [])
      else case cv_frame e of
        None \<Rightarrow> (True, [], forward_reports (cv_send_ok e) 0 (cv_reads e))
      | Some None \<Rightarrow> (False, [], [])
      | Some (Some f) \<Rightarrow>
          if interfaces \<le> unat (fr_interface f) then (False, [], [])
          else
            let i = unat (fr_interface f);
                calls = (case client_ioctl f of None \<Rightarrow> [] | Some c \<Rightarrow> [(i, c)])
            in case client_answer (devs i) f of
              None \<Rightarrow> (True, calls, forward_reports (cv_send_ok e) 0 (cv_reads e))
            | Some reply \<Rightarrow>
                if cv_send_ok e reply
                then (True, calls, reply # forward_reports (cv_send_ok e) 0 (cv_reads e))
                else (False, calls, [reply]))"

text \<open>The session: everything sent and every ioctl issued, up to and including the detach frame that
  is sent when the loop ends.\<close>

fun client_loop ::
  "nat \<Rightarrow> (nat \<Rightarrow> hid_request \<Rightarrow> bytes \<Rightarrow> ioctl_reply) \<Rightarrow> client_event list \<Rightarrow>
    (nat \<times> hid_request \<times> bytes) list \<times> frame list" where
  "client_loop n devs [] = ([], [])"
| "client_loop n devs (e # es) = (case client_step n devs e of
     (True, cs, fs) \<Rightarrow> (case client_loop n devs es of (cs', fs') \<Rightarrow> (cs @ cs', fs @ fs'))
   | (False, cs, fs) \<Rightarrow>
       (cs, fs @ [\<lparr>fr_type = MT_detach, fr_interface = 0, fr_transaction = 0, fr_payload = []\<rparr>]))"

section \<open>Client: the whole run\<close>

text \<open>What the system answers during a run: the hidraw devices, for each event device whether it opened
  and whether the exclusive grab worked, the connection, the sends of the announcement and the
  session. The descriptors the client holds are named.\<close>

datatype client_resource = Hidraw_Fd nat | Grab_Fd nat | Grab nat | Client_Socket

record client_env =
  ce_interfaces :: "hid_reply list"
  ce_grabs :: "(bool \<times> bool) list"
  ce_connected :: bool
  ce_hello_ok :: "frame \<Rightarrow> bool"
  ce_devs :: "nat \<Rightarrow> hid_request \<Rightarrow> bytes \<Rightarrow> ioctl_reply"
  ce_events :: "client_event list"

fun send_all :: "(frame \<Rightarrow> bool) \<Rightarrow> frame list \<Rightarrow> bool \<times> frame list" where
  "send_all ok [] = (True, [])"
| "send_all ok (f # fs) =
     (if ok f then (case send_all ok fs of (b, sent) \<Rightarrow> (b, f # sent)) else (False, [f]))"

definition grab_events :: "(bool \<times> bool) list \<Rightarrow> bool" where
  "grab_events grabs = list_all (\<lambda>(opened, grabbed). opened \<and> grabbed) grabs"

definition client_cleanup :: "nat \<Rightarrow> nat \<Rightarrow> client_resource list" where
  "client_cleanup grabs interfaces =
     concat (map (\<lambda>i. [Grab i, Grab_Fd i]) [0..<grabs]) @ map Hidraw_Fd [0..<interfaces] @ [Client_Socket]"

text \<open>The exit code, the ioctls, the frames handed to \<^verbatim>\<open>send_frame\<close> and what the run gives back at
  its regular end; the early returns give nothing back and leave it to the process exit.\<close>

definition run_client ::
  "client_env \<Rightarrow> nat \<times> (nat \<times> hid_request \<times> bytes) list \<times> frame list \<times> client_resource list" where
  "run_client env =
     (case open_interfaces (ce_interfaces env) (client_initial (length (ce_interfaces env))) of
        Inl code \<Rightarrow> (code, [], [], [])
      | Inr st \<Rightarrow>
          if \<not> grab_events (ce_grabs env) then (3, [], [], [])
          else if \<not> ce_connected env then (4, [], [], [])
          else (case send_all (ce_hello_ok env) (client_hello st) of
              (False, sent) \<Rightarrow> (5, [], sent, [])
            | (True, sent) \<Rightarrow>
                (case client_loop (cs_fds st) (ce_devs env) (ce_events env) of
                   (calls, frames) \<Rightarrow>
                     (0, calls, sent @ frames,
                      client_cleanup (length (ce_grabs env)) (cs_fds st)))))"

section \<open>Host: handshake\<close>

definition terminate_string :: "nat \<Rightarrow> bytes \<Rightarrow> bytes" where
  "terminate_string n s = s[n - 1 := 0]"

text \<open>The frames \<^verbatim>\<open>receive_frame\<close> delivers one after the other; \<^verbatim>\<open>None\<close>, or the end of the list, is
  a failed receive.\<close>

fun receive_descriptors :: "nat \<Rightarrow> frame option list \<Rightarrow> bytes list \<Rightarrow> nat + bytes list \<times> frame option list"
  where
  "receive_descriptors 0 fs ds = Inr (ds, fs)"
| "receive_descriptors (Suc n) [] ds = Inl 5"
| "receive_descriptors (Suc n) (None # fs) ds = Inl 5"
| "receive_descriptors (Suc n) (Some f # fs) ds =
     (if fr_type f \<noteq> MT_descriptor \<or> length ds \<le> unat (fr_interface f) \<or> fr_payload f = [] \<or>
         HID_MAX_DESCRIPTOR_SIZE < length (fr_payload f)
      then Inl 5
      else receive_descriptors n fs (ds[unat (fr_interface f) := fr_payload f]))"

definition host_handshake ::
  "frame option list \<Rightarrow> nat + device_message \<times> bytes list \<times> frame option list" where
  "host_handshake fs = (case fs of
     Some f # rest \<Rightarrow>
       if fr_type f \<noteq> MT_device \<or> length (fr_payload f) \<noteq> 276 then Inl 5
       else
         let d0 = device_message_of_bytes (fr_payload f);
             device = d0\<lparr>dm_name := terminate_string 128 (dm_name d0),
               dm_physical := terminate_string 64 (dm_physical d0),
               dm_unique := terminate_string 64 (dm_unique d0)\<rparr>;
             n = unat (dm_interface_count device)
         in if n = 0 \<or> 16 < n then Inl 5
            else (case receive_descriptors n rest (replicate n []) of
               Inl code \<Rightarrow> Inl code
             | Inr (ds, rest') \<Rightarrow> Inr (device, ds, rest'))
   | _ \<Rightarrow> Inl 5)"

datatype uhid_write =
    Uhid_Create2 device_message bytes bytes
  | Uhid_Input2 u16 bytes
  | Uhid_Get_Report_Reply u32 u16 u16 bytes
  | Uhid_Set_Report_Reply u32 u16
  | Uhid_Destroy

definition plank_raw_wacom :: bytes where
  "plank_raw_wacom = [0x70, 0x6c, 0x61, 0x6e, 0x6b, 0x2f, 0x72, 0x61, 0x77, 0x2d, 0x77, 0x61,
     0x63, 0x6f, 0x6d]"

text \<open>Creation of the devices: \<^verbatim>\<open>opens\<close> and \<^verbatim>\<open>writes\<close> say which of the calls succeed. The exit
  code of an early return, if any, and the creations the kernel has accepted by then.\<close>

fun create_devices ::
  "device_message \<Rightarrow> (nat \<Rightarrow> bool) \<Rightarrow> (nat \<Rightarrow> bool) \<Rightarrow> nat \<Rightarrow> bytes list \<Rightarrow>
    nat option \<times> (nat \<times> uhid_write) list" where
  "create_devices d opens writes i [] = (None, [])"
| "create_devices d opens writes i (desc # ds) =
     (if desc = [] then (Some 5, [])
      else if \<not> opens i then (Some 6, [])
      else if \<not> writes i then (Some 6, [])
      else case create_devices d opens writes (Suc i) ds of
        (code, ws) \<Rightarrow> (code, (i, Uhid_Create2 d plank_raw_wacom desc) # ws))"

section \<open>Host: session\<close>

text \<open>The effect of one frame: UHID writes, or a copy that leaves the kernel structure's data array.\<close>

datatype host_effect = Host_Writes "(nat \<times> uhid_write) list" | Host_Detach | Host_Break | Host_Overflow

definition host_frame :: "nat \<Rightarrow> frame \<Rightarrow> host_effect" where
  "host_frame devices f =
     (if fr_type f = MT_detach then Host_Detach
      else if devices \<le> unat (fr_interface f) then Host_Break
      else if fr_type f = MT_input then
        (if UHID_DATA_MAX < length (fr_payload f) then Host_Overflow
         else Host_Writes [(unat (fr_interface f),
           Uhid_Input2 (of_nat (length (fr_payload f))) (fr_payload f))])
      else if fr_type f = MT_get_report_reply \<and> 4 \<le> length (fr_payload f) then
        (if UHID_DATA_MAX < length (fr_payload f) - 4 then Host_Overflow
         else Host_Writes [(unat (fr_interface f),
           Uhid_Get_Report_Reply (fr_transaction f) (ucast (from_le32 (fr_payload f)))
             (of_nat (length (fr_payload f) - 4)) (drop 4 (fr_payload f)))])
      else if fr_type f = MT_set_report_reply \<and> length (fr_payload f) = 4 then
        Host_Writes [(unat (fr_interface f),
          Uhid_Set_Report_Reply (fr_transaction f) (ucast (from_le32 (fr_payload f))))]
      else Host_Writes [])"

datatype uhid_event =
    Uhid_Start
  | Uhid_Get_Report u32 u8 u8
  | Uhid_Set_Report u32 u8 bytes
  | Uhid_Output u8 bytes
  | Uhid_Short
  | Uhid_Other

definition host_event :: "nat \<Rightarrow> uhid_event \<Rightarrow> frame option" where
  "host_event index e = (case e of
     Uhid_Get_Report i rnum rtype \<Rightarrow> Some \<lparr>fr_type = MT_get_report, fr_interface = of_nat index,
       fr_transaction = i, fr_payload = [rnum, rtype]\<rparr>
   | Uhid_Set_Report i rtype data \<Rightarrow> Some \<lparr>fr_type = MT_set_report, fr_interface = of_nat index,
       fr_transaction = i, fr_payload = rtype # data\<rparr>
   | Uhid_Output rtype data \<Rightarrow> Some \<lparr>fr_type = MT_output, fr_interface = of_nat index,
       fr_transaction = 0, fr_payload = rtype # data\<rparr>
   | _ \<Rightarrow> None)"

fun host_events :: "nat \<Rightarrow> uhid_event option list \<Rightarrow> frame list" where
  "host_events index [] = []"
| "host_events index (None # es) = host_events (Suc index) es"
| "host_events index (Some e # es) =
     (case host_event index e of None \<Rightarrow> [] | Some f \<Rightarrow> [f]) @ host_events (Suc index) es"

record host_poll =
  hp_poll :: bool
  hp_socket_error :: bool
  hp_frame :: "frame option option"
  hp_events :: "uhid_event option list"

record host_state =
  hs_running :: bool
  hs_writes :: "(nat \<times> uhid_write) list"
  hs_sent :: "frame list"
  hs_overflow :: bool

text \<open>One iteration; \<^verbatim>\<open>None\<close> is a break out of the loop. A detach still serves the readable devices.\<close>

definition host_step :: "nat \<Rightarrow> host_poll \<Rightarrow> host_state \<Rightarrow> host_state option" where
  "host_step devices e st =
     (if \<not> hp_poll e \<or> hp_socket_error e then None
      else
        let serve = (\<lambda>s. s\<lparr>hs_sent := hs_sent s @ host_events 0 (hp_events e)\<rparr>) in
        case hp_frame e of
          None \<Rightarrow> Some (serve st)
        | Some None \<Rightarrow> None
        | Some (Some f) \<Rightarrow>
            (case host_frame devices f of
               Host_Detach \<Rightarrow> Some (serve (st\<lparr>hs_running := False\<rparr>))
             | Host_Break \<Rightarrow> None
             | Host_Overflow \<Rightarrow> Some (serve (st\<lparr>hs_overflow := True\<rparr>))
             | Host_Writes ws \<Rightarrow> Some (serve (st\<lparr>hs_writes := hs_writes st @ ws\<rparr>))))"

fun host_loop :: "nat \<Rightarrow> host_poll list \<Rightarrow> host_state \<Rightarrow> host_state" where
  "host_loop devices [] st = st"
| "host_loop devices (e # es) st =
     (if \<not> hs_running st then st
      else case host_step devices e st of None \<Rightarrow> st | Some st' \<Rightarrow> host_loop devices es st')"

definition host_finish :: "nat \<Rightarrow> host_state \<Rightarrow> host_state" where
  "host_finish devices st =
     st\<lparr>hs_writes := hs_writes st @ map (\<lambda>i. (i, Uhid_Destroy)) [0..<devices]\<rparr>"

section \<open>Host: the whole run\<close>

record host_env =
  he_listening :: bool
  he_accepted :: bool
  he_handshake :: "frame option list"
  he_opens :: "nat \<Rightarrow> bool"
  he_creates :: "nat \<Rightarrow> bool"
  he_polls :: "host_poll list"

text \<open>The exit code, the UHID writes in order (the creations first) and the frames sent.\<close>

definition run_host :: "host_env \<Rightarrow> nat \<times> (nat \<times> uhid_write) list \<times> frame list" where
  "run_host env =
     (if \<not> he_listening env \<or> \<not> he_accepted env then (4, [], [])
      else case host_handshake (he_handshake env) of
        Inl code \<Rightarrow> (code, [], [])
      | Inr (device, descriptors, rest) \<Rightarrow>
          (case create_devices device (he_opens env) (he_creates env) 0 descriptors of
             (Some code, created) \<Rightarrow> (code, created, [])
           | (None, created) \<Rightarrow>
               let n = length descriptors;
                   start = \<lparr>hs_running = True, hs_writes = created,
                     hs_sent = [], hs_overflow = False\<rparr>;
                   final = host_finish n (host_loop n (he_polls env) start)
               in (0, hs_writes final, hs_sent final)))"

section \<open>Command line\<close>

datatype bridge_command =
    Run_Host string string
  | Run_Client string string "string list" "string list"
  | Exit_Usage

fun parse_client_options ::
  "string list \<Rightarrow> string list \<Rightarrow> string list \<Rightarrow> (string list \<times> string list) option" where
  "parse_client_options [] hidraw grab = Some (hidraw, grab)"
| "parse_client_options (a # rest) hidraw grab =
     (case rest of
        b # rest' \<Rightarrow>
          if a = ''--hidraw'' then parse_client_options rest' (hidraw @ [b]) grab
          else if a = ''--grab'' then parse_client_options rest' hidraw (grab @ [b])
          else None
      | [] \<Rightarrow> None)"

definition bridge_main :: "string list \<Rightarrow> bridge_command" where
  "bridge_main argv =
     (if length argv = 5 \<and> argv ! 1 = ''--listen'' \<and> argv ! 4 = ''--allow-insecure-qualification''
      then Run_Host (argv ! 2) (argv ! 3)
      else if 7 \<le> length argv \<and> argv ! 1 = ''--connect'' then
        (case parse_client_options (drop 4 argv) [] [] of
           None \<Rightarrow> Exit_Usage
         | Some (hidraw, grab) \<Rightarrow>
             if hidraw = [] then Exit_Usage else Run_Client (argv ! 2) (argv ! 3) hidraw grab)
      else Exit_Usage)"

end
