(* ===== verification/Wacom_Proofs.thy ===== *)
theory Wacom_Proofs
  imports Wacom_Bridge
begin

text \<open>
  What the raw Wacom bridge guarantees: the client only joins interfaces of one tablet, the host
  rebuilds exactly the client's device and descriptors, report requests are answered once and with
  their own identity, and which frames the host copies safely.
\<close>

section \<open>The client's set-up\<close>

definition setup_inv :: "nat \<Rightarrow> client_setup \<Rightarrow> bool" where
  "setup_inv n st \<longleftrightarrow> length (cs_descriptors st) = cs_fds st \<and>
     (\<forall>d \<in> set (cs_descriptors st). d \<noteq> [] \<and> length d \<le> HID_MAX_DESCRIPTOR_SIZE) \<and>
     dm_interface_count (cs_device st) = of_nat n \<and>
     length (dm_name (cs_device st)) = 128 \<and> dm_name (cs_device st) ! 127 = 0 \<and>
     length (dm_physical (cs_device st)) = 64 \<and> dm_physical (cs_device st) ! 63 = 0 \<and>
     length (dm_unique (cs_device st)) = 64 \<and> dm_unique (cs_device st) ! 63 = 0"

lemma setup_inv_initial: "setup_inv n (client_initial n)"
  by (simp add: setup_inv_def client_initial_def)

lemma copy_ioctl_string_length:
  "length d = n \<Longrightarrow> length (copy_ioctl_string n r d) = n"
  "length d = n \<Longrightarrow> 0 < n \<Longrightarrow> d ! (n - 1) = 0 \<Longrightarrow> copy_ioctl_string n r d ! (n - 1) = 0"
  by (auto simp: copy_ioctl_string_def split: option.split)

lemma copy_ioctl_string_128 [simp]:
  "length d = 128 \<Longrightarrow> length (copy_ioctl_string 128 r d) = 128"
  "length d = 128 \<Longrightarrow> d ! 127 = 0 \<Longrightarrow> copy_ioctl_string 128 r d ! 127 = 0"
  using copy_ioctl_string_length [of d 128 r] by simp_all

lemma copy_ioctl_string_64 [simp]:
  "length d = 64 \<Longrightarrow> length (copy_ioctl_string 64 r d) = 64"
  "length d = 64 \<Longrightarrow> d ! 63 = 0 \<Longrightarrow> copy_ioctl_string 64 r d ! 63 = 0"
  using copy_ioctl_string_length [of d 64 r] by simp_all

text \<open>What one accepted interface contributes.\<close>

lemma open_interface_fields:
  assumes "open_interface r st = Inr st'"
  shows "cs_fds st' = cs_fds st + 1"
    "0 < the (hr_desc_size r) \<and> the (hr_desc_size r) \<le> int HID_MAX_DESCRIPTOR_SIZE \<and>
      cs_descriptors st' = cs_descriptors st @ [take (nat (the (hr_desc_size r)))
        (the (hr_desc r) @ replicate (nat (the (hr_desc_size r))) 0)]"
    "dm_interface_count (cs_device st') = dm_interface_count (cs_device st)"
    "dm_name (cs_device st') \<in> {dm_name (cs_device st),
      copy_ioctl_string 128 (hr_name r) (dm_name (cs_device st))}"
    "dm_physical (cs_device st') \<in> {dm_physical (cs_device st),
      copy_ioctl_string 64 (hr_dev_phys r) (dm_physical (cs_device st))}"
    "dm_unique (cs_device st') \<in> {dm_unique (cs_device st),
      copy_ioctl_string 64 (hr_dev_uniq r) (dm_unique (cs_device st))}"
  using assms
  by (auto simp: open_interface_def Let_def not_le split: if_split_asm option.split_asm)

lemma descriptor_size:
  assumes "0 < k" "k \<le> int HID_MAX_DESCRIPTOR_SIZE"
  shows "take (nat k) (val @ replicate (nat k) 0) \<noteq> []"
    "length (take (nat k) (val @ replicate (nat k) 0)) \<le> HID_MAX_DESCRIPTOR_SIZE"
  using assms by (cases val; simp)+

lemma open_interface_ok:
  assumes "open_interface r st = Inr st'" "setup_inv n st"
  shows "setup_inv n st'" "cs_fds st' = cs_fds st + 1"
proof -
  note f = open_interface_fields [OF assms(1)]
  from f(2) obtain k val where k: "0 < k" "k \<le> int HID_MAX_DESCRIPTOR_SIZE"
    "cs_descriptors st' = cs_descriptors st @ [take (nat k) (val @ replicate (nat k) 0)]" by blast
  have i: "length (cs_descriptors st) = cs_fds st"
      "\<forall>d \<in> set (cs_descriptors st). d \<noteq> [] \<and> length d \<le> HID_MAX_DESCRIPTOR_SIZE"
      "dm_interface_count (cs_device st) = of_nat n"
    and n: "length (dm_name (cs_device st)) = 128" "dm_name (cs_device st) ! 127 = 0"
    and p: "length (dm_physical (cs_device st)) = 64" "dm_physical (cs_device st) ! 63 = 0"
    and u: "length (dm_unique (cs_device st)) = 64" "dm_unique (cs_device st) ! 63 = 0"
    using assms(2) by (simp_all add: setup_inv_def)
  have "length (dm_name (cs_device st')) = 128 \<and> dm_name (cs_device st') ! 127 = 0"
    using f(4) n by auto
  moreover have "length (dm_physical (cs_device st')) = 64 \<and> dm_physical (cs_device st') ! 63 = 0"
    using f(5) p by auto
  moreover have "length (dm_unique (cs_device st')) = 64 \<and> dm_unique (cs_device st') ! 63 = 0"
    using f(6) u by auto
  moreover have "length (cs_descriptors st') = cs_fds st'" using f(1) k(3) i(1) by simp
  moreover have "\<forall>d \<in> set (cs_descriptors st'). d \<noteq> [] \<and> length d \<le> HID_MAX_DESCRIPTOR_SIZE"
    using k(3) i(2) descriptor_size [OF k(1,2), of val] by (auto simp del: length_take take_append)
  ultimately show "setup_inv n st'" using f(3) i(3) by (simp add: setup_inv_def)
  show "cs_fds st' = cs_fds st + 1" by (rule f(1))
qed

lemma open_interfaces_ok:
  "open_interfaces rs st = Inr st' \<Longrightarrow> setup_inv n st \<Longrightarrow>
    setup_inv n st' \<and> cs_fds st' = cs_fds st + length rs"
proof (induction rs st rule: open_interfaces.induct)
  case (2 r rs st)
  then obtain st1 where s: "open_interface r st = Inr st1" "open_interfaces rs st1 = Inr st'"
    by (auto split: sum.split_asm)
  show ?case using "2.IH" [OF s] open_interface_ok [OF s(1) "2.prems"(2)] by simp
qed simp

section \<open>Handshake\<close>

lemma receive_descriptors_list:
  assumes "\<forall>d \<in> set ds. d \<noteq> [] \<and> length d \<le> HID_MAX_DESCRIPTOR_SIZE" "length ds \<le> 65535"
  shows "k \<le> length ds \<Longrightarrow> receive_descriptors (length ds - k)
      (map (\<lambda>i. Some \<lparr>fr_type = MT_descriptor, fr_interface = of_nat i, fr_transaction = 0,
         fr_payload = ds ! i\<rparr>) [k..<length ds] @ rest)
      (take k ds @ replicate (length ds - k) []) = Inr (ds, rest)"
proof (induction "length ds - k" arbitrary: k)
  case 0
  then show ?case by simp
next
  case (Suc m)
  then have k: "k < length ds" "length ds - k = Suc (length ds - Suc k)" by linarith+
  have u: "unat (of_nat k :: u16) = k" using k(1) assms(2) by (simp add: unat_of_nat)
  have d: "ds ! k \<noteq> []" "length (ds ! k) \<le> HID_MAX_DESCRIPTOR_SIZE"
    using assms(1) k(1) by (simp_all add: nth_mem)
  have up: "(take k ds @ replicate (Suc (length ds - Suc k)) [])[k := ds ! k] =
      take (Suc k) ds @ replicate (length ds - Suc k) []"
    using k(1) by (simp add: list_update_append take_Suc_conv_app_nth)
  have "m = length ds - Suc k" "Suc k \<le> length ds" using Suc.hyps(2) k by linarith+
  from Suc.hyps(1) [OF this] show ?case
    using k d u up by (simp add: upt_conv_Cons)
qed

text \<open>C2: The handshake transfers the tablet exactly: when the client has opened between one and sixteen
  interfaces, every frame it announces itself with fits the bridge's payload limit, and the host
  that receives these frames ends with the client's device message and the client's report
  descriptors in interface order, with nothing left unread.\<close>

theorem bridge_handshake_exact:
  assumes "open_interfaces rs (client_initial (length rs)) = Inr st"
    and "0 < length rs" "length rs \<le> 16"
  shows "host_handshake (map Some (client_hello st)) = Inr (cs_device st, cs_descriptors st, []) \<and>
    (\<forall>f \<in> set (client_hello st). frame_bytes f \<noteq> None)"
proof -
  have inv: "setup_inv (length rs) st" "cs_fds st = length rs"
    using open_interfaces_ok [OF assms(1) setup_inv_initial] by (simp_all add: client_initial_def)
  let ?d = "cs_device st"
  let ?ds = "cs_descriptors st"
  have n: "length ?ds = length rs" "dm_interface_count ?d = of_nat (length rs)"
    "\<forall>d \<in> set ?ds. d \<noteq> [] \<and> length d \<le> HID_MAX_DESCRIPTOR_SIZE"
    and l: "length (dm_name ?d) = 128" "length (dm_physical ?d) = 64" "length (dm_unique ?d) = 64"
    and z: "dm_name ?d ! 127 = 0" "dm_physical ?d ! 63 = 0" "dm_unique ?d ! 63 = 0"
    using inv by (simp_all add: setup_inv_def)
  have c: "unat (dm_interface_count ?d) = length rs" using n(2) assms(3) by (simp add: unat_of_nat)
  note m = device_message_roundtrip [OF l]
  have t: "terminate_string 128 (dm_name ?d) = dm_name ?d"
    "terminate_string 64 (dm_physical ?d) = dm_physical ?d"
    "terminate_string 64 (dm_unique ?d) = dm_unique ?d"
    using z by (simp_all add: terminate_string_def list_update_same_conv l)
  have r: "receive_descriptors (length rs)
      (map (\<lambda>i. Some \<lparr>fr_type = MT_descriptor, fr_interface = of_nat i, fr_transaction = 0,
         fr_payload = ?ds ! i\<rparr>) [0..<length ?ds]) (replicate (length rs) []) = Inr (?ds, [])"
    using receive_descriptors_list [OF n(3), of 0 "[]"] n(1) assms(3) by simp
  have b: "length (?ds ! x) \<le> 4096" if "x < length ?ds" for x using n(3) nth_mem [OF that] by blast
  have "frame_bytes f \<noteq> None" if f: "f \<in> set (client_hello st)" for f
  proof -
    have "length (fr_payload f) = 276 \<or> (\<exists>x < length ?ds. fr_payload f = ?ds ! x)"
      using f m(2) by (auto simp: client_hello_def)
    then show ?thesis using b by (fastforce simp: frame_bytes_def)
  qed
  moreover have "host_handshake (map Some (client_hello st)) = Inr (?d, ?ds, [])"
    using r assms(2,3) c
    by (simp add: host_handshake_def client_hello_def m t Let_def comp_def)
  ultimately show ?thesis by blast
qed

section \<open>One tablet\<close>

definition interface_identity :: "hid_reply \<Rightarrow> (u16 \<times> u32 \<times> u32 \<times> bytes) option" where
  "interface_identity r = map_option (\<lambda>i. (hi_bus i, ucast (hi_vendor i), ucast (hi_product i),
     physical_group (c_string 64 (hr_phys r)))) (hr_info r)"

definition setup_identity :: "client_setup \<Rightarrow> u16 \<times> u32 \<times> u32 \<times> bytes" where
  "setup_identity st = (dm_bus (cs_device st), dm_vendor (cs_device st), dm_product (cs_device st),
     cs_group st)"

lemma open_interface_identity:
  assumes "open_interface r st = Inr st'"
  shows "interface_identity r = Some (setup_identity st')"
    "0 < cs_fds st \<Longrightarrow> setup_identity st' = setup_identity st \<and> cs_unique st' = cs_unique st"
    "cs_unique st' = [] \<or> c_string 64 (hr_uniq r) = cs_unique st'" "0 < cs_fds st'"
  using assms
  by (auto simp: open_interface_def interface_identity_def setup_identity_def Let_def
      split: if_split_asm option.split_asm)

lemma open_interfaces_identity:
  "open_interfaces rs st = Inr st' \<Longrightarrow> 0 < cs_fds st \<Longrightarrow>
    setup_identity st' = setup_identity st \<and> cs_unique st' = cs_unique st \<and>
    (\<forall>r \<in> set rs. interface_identity r = Some (setup_identity st') \<and>
      (cs_unique st' = [] \<or> c_string 64 (hr_uniq r) = cs_unique st'))"
proof (induction rs st rule: open_interfaces.induct)
  case (2 r rs st)
  then obtain st1 where s: "open_interface r st = Inr st1" "open_interfaces rs st1 = Inr st'"
    by (auto split: sum.split_asm)
  note o = open_interface_identity [OF s(1)]
  show ?case using "2.IH" [OF s o(4)] o(1,3) o(2) [OF "2.prems"(2)] by auto
qed simp

text \<open>The client never bridges interfaces of different tablets: if it accepts a list of hidraw
  devices, they all report the bus, vendor, product and physical USB group recorded in the
  device message, and the unique id of the first one unless that is empty.\<close>

theorem client_single_tablet:
  assumes "open_interfaces rs (client_initial (length rs)) = Inr st"
  shows "\<forall>r \<in> set rs. interface_identity r = Some (setup_identity st) \<and>
    (cs_unique st = [] \<or> c_string 64 (hr_uniq r) = cs_unique st)"
proof (cases rs)
  case (Cons r rs')
  then obtain st1 where s: "open_interface r (client_initial (length rs)) = Inr st1"
    "open_interfaces rs' st1 = Inr st"
    using assms by (auto split: sum.split_asm)
  note o = open_interface_identity [OF s(1)]
  show ?thesis using open_interfaces_identity [OF s(2) o(4)] o(1,3) Cons by auto
qed simp


definition demo_hid :: "bytes \<Rightarrow> hid_reply" where
  "demo_hid phys = \<lparr>hr_open = True, hr_info = Some \<lparr>hi_bus = 3, hi_vendor = 0x56a, hi_product = 7\<rparr>,
     hr_phys = phys, hr_uniq = [], hr_versions = [], hr_name = None, hr_dev_phys = None,
     hr_dev_uniq = None, hr_desc_size = Some 3, hr_desc = Some [1, 2, 3]\<rparr>"

lemma demo_open:
  "\<exists>st. open_interfaces [demo_hid [9], demo_hid [9]] (client_initial (length [demo_hid [9], demo_hid [9]])) = Inr st"
  by (simp add: open_interface_def demo_hid_def client_initial_def Let_def physical_group_def
      c_string_def rfind_def SLASH_INPUT_def)

theorem bridge_handshake_exact_witness:
  "\<exists>st. host_handshake (map Some (client_hello st)) = Inr (cs_device st, cs_descriptors st, [])"
proof -
  obtain st where "open_interfaces [demo_hid [9], demo_hid [9]]
      (client_initial (length [demo_hid [9], demo_hid [9]])) = Inr st" using demo_open by blast
  from bridge_handshake_exact [OF this] show ?thesis by auto
qed

theorem client_single_tablet_witness:
  "\<exists>st. open_interfaces [demo_hid [9], demo_hid [9]]
      (client_initial (length [demo_hid [9], demo_hid [9]])) = Inr st \<and>
    interface_identity (demo_hid [9]) = Some (setup_identity st)"
proof -
  obtain st where s: "open_interfaces [demo_hid [9], demo_hid [9]]
      (client_initial (length [demo_hid [9], demo_hid [9]])) = Inr st" using demo_open by blast
  from client_single_tablet [OF s] s show ?thesis by auto
qed

section \<open>Report requests end to end\<close>

text \<open>C32: A GET_REPORT request from the host's kernel reaches the tablet and its answer comes back to
  the same request: for every device and report type, the request frame and the client's single
  reply both fit the wire, and the host writes one reply with the kernel's request id to the
  device that asked, carrying the ioctl's data and error 0, its errno, or EINVAL for an unknown
  report type.\<close>

theorem get_report_end_to_end:
  assumes "i < devices" "devices \<le> 16"
    and "\<forall>r buf n out. dev r buf = Inr (n, out) \<longrightarrow> n \<le> UHID_DATA_MAX \<and> n \<le> length out"
  shows "\<exists>request reply. host_event i (Uhid_Get_Report tid rnum rtype) = Some request \<and>
    frame_bytes request \<noteq> None \<and> client_answer dev request = Some reply \<and>
    frame_bytes reply \<noteq> None \<and>
    host_frame devices reply = Host_Writes [(i,
      (case get_report_ioctl rtype UHID_DATA_MAX of
         None \<Rightarrow> Uhid_Get_Report_Reply tid (of_nat EINVAL) 0 []
       | Some r \<Rightarrow> (case dev r ((replicate UHID_DATA_MAX 0)[0 := rnum]) of
           Inl e \<Rightarrow> Uhid_Get_Report_Reply tid (of_nat e) 0 []
         | Inr (n, out) \<Rightarrow> Uhid_Get_Report_Reply tid 0 (of_nat n) (take n out))))]"
proof -
  have i: "unat (of_nat i :: u16) = i" using assms(1,2) by (simp add: unat_of_nat)
  have c: "ucast (of_nat e :: u32) = (of_nat e :: u16)" for e
    by (rule bit_word_eqI) (simp add: bit_simps)
  let ?req = "\<lparr>fr_type = MT_get_report, fr_interface = of_nat i, fr_transaction = tid,
      fr_payload = [rnum, rtype]\<rparr>"
  have req: "host_event i (Uhid_Get_Report tid rnum rtype) = Some ?req" "frame_bytes ?req \<noteq> None"
    by (simp_all add: host_event_def frame_bytes_def)
  show ?thesis
  proof (cases "get_report_ioctl rtype UHID_DATA_MAX")
    case None
    let ?rep = "\<lparr>fr_type = MT_get_report_reply, fr_interface = of_nat i, fr_transaction = tid,
      fr_payload = le32 (of_nat EINVAL)\<rparr>"
    have "client_answer dev ?req = Some ?rep"
      using None by (simp add: client_answer_def errno_of_def Let_def)
    moreover have "host_frame devices ?rep =
        Host_Writes [(i, Uhid_Get_Report_Reply tid (of_nat EINVAL) 0 [])]"
      using i assms(1) c [of EINVAL] by (simp add: host_frame_def)
    ultimately show ?thesis using req None
      by (intro exI [of _ ?req] exI [of _ ?rep]) (simp add: frame_bytes_def)
  next
    case (Some r)
    show ?thesis
    proof (cases "dev r ((replicate UHID_DATA_MAX 0)[0 := rnum])")
      case (Inl e)
      let ?rep = "\<lparr>fr_type = MT_get_report_reply, fr_interface = of_nat i, fr_transaction = tid,
        fr_payload = le32 (of_nat e)\<rparr>"
      have "client_answer dev ?req = Some ?rep"
        using Inl Some by (simp add: client_answer_def errno_of_def Let_def)
      moreover have "host_frame devices ?rep =
          Host_Writes [(i, Uhid_Get_Report_Reply tid (of_nat e) 0 [])]"
        using i assms(1) c [of e] by (simp add: host_frame_def)
      ultimately show ?thesis using req Inl Some
        by (intro exI [of _ ?req] exI [of _ ?rep]) (simp add: frame_bytes_def)
    next
      case (Inr x)
      obtain n out where x: "x = (n, out)" by (cases x)
      have n: "n \<le> UHID_DATA_MAX" "n \<le> length out" using assms(3) Inr x by blast+
      let ?rep = "\<lparr>fr_type = MT_get_report_reply, fr_interface = of_nat i, fr_transaction = tid,
        fr_payload = le32 0 @ take n out\<rparr>"
      have "client_answer dev ?req = Some ?rep"
        using Inr x Some by (simp add: client_answer_def errno_of_def Let_def)
      moreover have "host_frame devices ?rep =
          Host_Writes [(i, Uhid_Get_Report_Reply tid 0 (of_nat n) (take n out))]"
        using i assms(1) n by (simp add: host_frame_def min_def)
      ultimately show ?thesis using req Inr x Some n
        by (intro exI [of _ ?req] exI [of _ ?rep]) (simp add: frame_bytes_def)
    qed
  qed
qed

theorem get_report_end_to_end_witness:
  "\<exists>request reply. host_event 1 (Uhid_Get_Report 77 5 0) = Some request \<and>
    client_answer (\<lambda>r buf. Inr (2, [5, 9])) request = Some reply \<and>
    host_frame 2 reply = Host_Writes [(1, Uhid_Get_Report_Reply 77 0 2 [5, 9])]"
  using get_report_end_to_end [of 1 2 "\<lambda>r buf. Inr (2, [5, 9])" 77 5 0]
  by (auto simp: get_report_ioctl_def)

section \<open>Copies into the kernel structure\<close>

text \<open>The host's copy of a frame into a UHID event stays inside the event's data array exactly when
  the payload is at most 4096 bytes (4100 for a report reply); frames that \<^verbatim>\<open>receive_frame\<close> lets
  through may be up to 64 bytes larger, and such an input frame overruns the array.\<close>

theorem host_copy_overflow_iff:
  "(host_frame devices f = Host_Overflow \<longleftrightarrow>
      unat (fr_interface f) < devices \<and>
      (fr_type f = MT_input \<and> UHID_DATA_MAX < length (fr_payload f) \<or>
       fr_type f = MT_get_report_reply \<and> UHID_DATA_MAX + 4 < length (fr_payload f))) \<and>
   (\<exists>g. frame_bytes g \<noteq> None \<and> host_frame 1 g = Host_Overflow)"
proof -
  let ?g = "\<lparr>fr_type = MT_input, fr_interface = 0, fr_transaction = 0, fr_payload = replicate 4097 0\<rparr>"
  have "frame_bytes ?g \<noteq> None \<and> host_frame 1 ?g = Host_Overflow"
    unfolding frame_bytes_def host_frame_def frame.simps length_replicate by simp
  moreover have "host_frame devices f = Host_Overflow \<longleftrightarrow>
      unat (fr_interface f) < devices \<and>
      (fr_type f = MT_input \<and> UHID_DATA_MAX < length (fr_payload f) \<or>
       fr_type f = MT_get_report_reply \<and> UHID_DATA_MAX + 4 < length (fr_payload f))"
    by (auto simp: host_frame_def)
  ultimately show ?thesis by blast
qed

definition reads_bounded :: "client_event \<Rightarrow> bool" where
  "reads_bounded e \<longleftrightarrow> (\<forall>r \<in> set (cv_reads e). case r of None \<Rightarrow> True
     | Some report \<Rightarrow> length report \<le> UHID_DATA_MAX)"

lemma forward_reports_frames:
  "f \<in> set (forward_reports ok k rs) \<Longrightarrow>
    fr_type f = MT_input \<and> (\<exists>report. Some report \<in> set rs \<and> fr_payload f = report)"
  by (induction ok k rs rule: forward_reports.induct) (auto simp: Let_def split: if_split_asm)

lemma client_answer_bounded:
  assumes "client_answer dev f = Some reply"
    and "\<forall>r buf n out. dev r buf = Inr (n, out) \<longrightarrow> n \<le> UHID_DATA_MAX"
  shows "fr_type reply \<noteq> MT_input \<and> length (fr_payload reply) \<le> UHID_DATA_MAX + 4"
  using assms
  by (auto simp: client_answer_def Let_def split: if_split_asm option.splits sum.splits)
     (force)+

text \<open>A client of this program never makes the host overrun: with reads and ioctls that return at
  most the buffer's 4096 bytes, no frame of any session iteration, reply or input report, is one
  whose copy leaves the host's data array, and every one of them fits the wire.\<close>

theorem client_frames_safe:
  assumes "reads_bounded e"
    and "\<forall>i r buf n out. devs i r buf = Inr (n, out) \<longrightarrow> n \<le> UHID_DATA_MAX"
    and "f \<in> set (snd (snd (client_step interfaces devs e)))"
  shows "host_frame devices f \<noteq> Host_Overflow \<and> frame_bytes f \<noteq> None"
proof -
  have "fr_type f = MT_input \<and> length (fr_payload f) \<le> UHID_DATA_MAX \<or>
      fr_type f \<noteq> MT_input \<and> length (fr_payload f) \<le> UHID_DATA_MAX + 4"
  proof -
    have fw: ?thesis if "f \<in> set (forward_reports (cv_send_ok e) 0 (cv_reads e))"
      using forward_reports_frames [OF that] assms(1) by (auto simp: reads_bounded_def)
    have an: ?thesis if "client_answer (devs j) g = Some f" for j g
      using client_answer_bounded [OF that] assms(2) by blast
    show ?thesis using assms(3) fw an
      by (auto simp: client_step_def Let_def split: if_split_asm option.split_asm)
  qed
  then show ?thesis by (auto simp: host_frame_def frame_bytes_def)
qed

theorem client_frames_safe_witness:
  "host_frame 1 \<lparr>fr_type = MT_input, fr_interface = 0, fr_transaction = 0, fr_payload = [1]\<rparr> \<noteq> Host_Overflow"
  using client_frames_safe [of "\<lparr>cv_poll = True, cv_socket_error = False, cv_frame = None,
      cv_reads = [Some [1]], cv_send_ok = (\<lambda>f. True)\<rparr>" "\<lambda>i r b. Inl 5"
      "\<lparr>fr_type = MT_input, fr_interface = 0, fr_transaction = 0, fr_payload = [1]\<rparr>" 1 1]
  by (simp add: reads_bounded_def client_step_def)

text \<open>A failed send of an input report does not end the client's session: the break leaves only the
  loop over the interfaces, so the iteration reports that the session goes on, the remaining
  reports of the round are dropped, and the next round tries again.\<close>

theorem client_continues_after_failed_send:
  assumes "cv_poll e" "\<not> cv_socket_error e" "cv_frame e = None" "cv_reads e = Some report # rs"
    and "report \<noteq> []" "\<forall>f. \<not> cv_send_ok e f"
  shows "client_step interfaces devs e = (True, [], [\<lparr>fr_type = MT_input, fr_interface = 0,
    fr_transaction = 0, fr_payload = report\<rparr>])"
  using assms by (simp add: client_step_def)

theorem client_continues_after_failed_send_witness:
  "client_step 2 (\<lambda>i r b. Inl 5) \<lparr>cv_poll = True, cv_socket_error = False, cv_frame = None,
      cv_reads = [Some [1], Some [2]], cv_send_ok = (\<lambda>f. False)\<rparr> =
    (True, [], [\<lparr>fr_type = MT_input, fr_interface = 0, fr_transaction = 0, fr_payload = [1]\<rparr>])"
  by (rule client_continues_after_failed_send [of _ "[1]" "[Some [2]]"]) simp_all

section \<open>Whole runs\<close>

lemma create_devices_creates:
  "create_devices d opens writes i ds = (None, ws) \<Longrightarrow>
    ws = map (\<lambda>k. (i + k, Uhid_Create2 d plank_raw_wacom (ds ! k))) [0..<length ds]"
proof (induction ds arbitrary: i ws)
  case (Cons desc ds)
  then obtain ws' where ws: "ws = (i, Uhid_Create2 d plank_raw_wacom desc) # ws'"
    and "create_devices d opens writes (Suc i) ds = (None, ws')"
    by (auto split: if_split_asm prod.split_asm)
  then have "ws' = map (\<lambda>k. (Suc i + k, Uhid_Create2 d plank_raw_wacom (ds ! k))) [0..<length ds]"
    using Cons.IH by blast
  then show ?case
    unfolding ws by (simp add: upt_conv_Cons map_Suc_upt [symmetric] o_def del: upt_Suc map_Suc_upt)
qed simp

definition session_write :: "nat \<Rightarrow> nat \<times> uhid_write \<Rightarrow> bool" where
  "session_write n = (\<lambda>(i, w). i < n \<and> (case w of Uhid_Create2 _ _ _ \<Rightarrow> False | Uhid_Destroy \<Rightarrow> False | _ \<Rightarrow> True))"

lemma host_step_appends:
  "host_step n e st = Some st' \<Longrightarrow>
    \<exists>ws. hs_writes st' = hs_writes st @ ws \<and> list_all (session_write n) ws"
  by (auto simp: host_step_def host_frame_def session_write_def Let_def
      split: if_split_asm option.split_asm)

lemma host_loop_appends:
  "\<exists>ws. hs_writes (host_loop n es st) = hs_writes st @ ws \<and> list_all (session_write n) ws"
proof (induction n es st rule: host_loop.induct)
  case (2 n e es st)
  show ?case
  proof (cases "hs_running st")
    case True
    show ?thesis
    proof (cases "host_step n e st")
      case (Some st')
      from host_step_appends [OF Some] 2 [OF _ Some] True show ?thesis
        using Some by auto
    qed (simp add: True)
  qed simp
qed simp

lemma receive_descriptors_code: "receive_descriptors n fs ds = Inl code \<Longrightarrow> code = 5"
  by (induction n fs ds rule: receive_descriptors.induct) (auto split: if_split_asm)

lemma host_handshake_code: "host_handshake fs = Inl code \<Longrightarrow> code = 5"
  by (auto simp: host_handshake_def receive_descriptors_code Let_def
      split: list.split_asm option.split_asm if_split_asm sum.split_asm dest: receive_descriptors_code)

lemma create_devices_code: "create_devices d opens writes i ds = (Some code, ws) \<Longrightarrow> code \<noteq> 0"
  by (induction ds arbitrary: i ws) (auto split: if_split_asm prod.split_asm)

text \<open>C33: A host run that ends regularly has created each announced interface exactly once, in order and
  before anything else is written, only ever wrote reports and replies to created devices in
  between, and has destroyed each of them once at the end.\<close>

theorem run_host_create_destroy:
  assumes "run_host env = (0, writes, sent)"
  shows "\<exists>device descriptors rest body.
    host_handshake (he_handshake env) = Inr (device, descriptors, rest) \<and>
    writes = map (\<lambda>k. (k, Uhid_Create2 device plank_raw_wacom (descriptors ! k))) [0..<length descriptors]
      @ body @ map (\<lambda>k. (k, Uhid_Destroy)) [0..<length descriptors] \<and>
    list_all (session_write (length descriptors)) body"
proof -
  obtain device ds rest created where hs: "host_handshake (he_handshake env) = Inr (device, ds, rest)"
    and cr: "create_devices device (he_opens env) (he_creates env) 0 ds = (None, created)"
    and wr: "writes = hs_writes (host_loop (length ds) (he_polls env) \<lparr>hs_running = True,
        hs_writes = created, hs_sent = [], hs_overflow = False\<rparr>) @ map (\<lambda>k. (k, Uhid_Destroy)) [0..<length ds]"
    using assms host_handshake_code [of "he_handshake env"] create_devices_code
    by (fastforce simp: run_host_def Let_def host_finish_def
        split: if_split_asm sum.split_asm prod.split_asm option.split_asm)
  obtain body where "hs_writes (host_loop (length ds) (he_polls env) \<lparr>hs_running = True,
        hs_writes = created, hs_sent = [], hs_overflow = False\<rparr>) = created @ body"
    "list_all (session_write (length ds)) body"
    using host_loop_appends [of "length ds" "he_polls env" "\<lparr>hs_running = True,
        hs_writes = created, hs_sent = [], hs_overflow = False\<rparr>"] by auto
  with hs wr create_devices_creates [OF cr] show ?thesis by auto
qed

definition demo_device_frame :: frame where
  "demo_device_frame = \<lparr>fr_type = MT_device, fr_interface = 0, fr_transaction = 0,
     fr_payload = [1, 0] @ replicate 274 0\<rparr>"

theorem run_host_create_destroy_witness:
  "\<exists>device descriptors rest body.
    host_handshake [Some demo_device_frame, Some \<lparr>fr_type = MT_descriptor, fr_interface = 0,
      fr_transaction = 0, fr_payload = [5]\<rparr>] = Inr (device, descriptors, rest) \<and>
    list_all (session_write (length descriptors)) body"
proof -
  let ?fs = "[Some demo_device_frame, Some \<lparr>fr_type = MT_descriptor, fr_interface = 0,
      fr_transaction = 0, fr_payload = [5]\<rparr>]"
  let ?env = "\<lparr>he_listening = True, he_accepted = True, he_handshake = ?fs,
    he_opens = (\<lambda>i. True), he_creates = (\<lambda>i. True), he_polls = []\<rparr>"
  have hs: "\<exists>d. host_handshake ?fs = Inr (d, [[5]], [])"
    by (simp add: host_handshake_def demo_device_frame_def device_message_of_bytes_def Let_def
        codec_simps from_le16_def)
  have "\<exists>ws sent. run_host ?env = (0, ws, sent)"
    using hs by (auto simp: run_host_def Let_def)
  then obtain ws sent where "run_host ?env = (0, ws, sent)" by blast
  from run_host_create_destroy [OF this] show ?thesis by auto
qed

end
