(* ===== verification/Ptx_Kernel.thy ===== *)
theory Ptx_Kernel
  imports Prelude
begin

text \<open>
  The CUDA pixel conversion of plank-probe-video-pipeline.cpp: the two PTX kernels of the string
  \<^verbatim>\<open>kIdentityKernelPtx\<close>, transcribed instruction by instruction and run by a small interpreter of
  the PTX subset they use, the grid of \<^verbatim>\<open>launch_conversion\<close>, and the C reference expansion.
\<close>

datatype ptx_param64 = P_source_ptr | P_destination_ptr | P_destination_pitch
datatype ptx_param32 = P_width | P_height
datatype ptx_special = S_ctaid_x | S_ntid_x | S_tid_x

datatype ptx_instr =
    Ld_param_u64 nat ptx_param64
  | Ld_param_u32 nat ptx_param32
  | Mov_u32 nat ptx_special
  | Mad_lo_u32 nat nat nat nat
  | Mul_lo_u32 nat nat nat
  | Setp_ge_u32 nat nat nat
  | Setp_ge_imm nat nat u32
  | Bra_done nat
  | Mul_wide_u32 nat nat u32
  | Add_u64 nat nat nat
  | Ld_global_u8 nat nat u64
  | Cvt_u64_u32 nat nat
  | Mul_lo_u64 nat nat nat
  | St_global_u8 nat nat
  | St_global_u16 nat nat
  | Shl_b32 nat nat nat
  | Selp_u32 nat u32 u32 nat
  | Add_u32 nat nat nat

record ptx_env =
  pe_source_ptr :: u64
  pe_destination_ptr :: u64
  pe_destination_pitch :: u64
  pe_width :: u32
  pe_height :: u32
  pe_ctaid :: u32
  pe_ntid :: u32
  pe_tid :: u32

record ptx_state =
  ps_p :: "nat \<Rightarrow> bool"
  ps_r :: "nat \<Rightarrow> u32"
  ps_rd :: "nat \<Rightarrow> u64"
  ps_mem :: "u64 \<Rightarrow> u8"

fun param64 :: "ptx_env \<Rightarrow> ptx_param64 \<Rightarrow> u64" where
  "param64 e P_source_ptr = pe_source_ptr e"
| "param64 e P_destination_ptr = pe_destination_ptr e"
| "param64 e P_destination_pitch = pe_destination_pitch e"

fun param32 :: "ptx_env \<Rightarrow> ptx_param32 \<Rightarrow> u32" where
  "param32 e P_width = pe_width e"
| "param32 e P_height = pe_height e"

fun special32 :: "ptx_env \<Rightarrow> ptx_special \<Rightarrow> u32" where
  "special32 e S_ctaid_x = pe_ctaid e"
| "special32 e S_ntid_x = pe_ntid e"
| "special32 e S_tid_x = pe_tid e"

definition set_r :: "nat \<Rightarrow> u32 \<Rightarrow> ptx_state \<Rightarrow> ptx_state" where
  "set_r d v s = s\<lparr>ps_r := (ps_r s)(d := v)\<rparr>"

definition set_rd :: "nat \<Rightarrow> u64 \<Rightarrow> ptx_state \<Rightarrow> ptx_state" where
  "set_rd d v s = s\<lparr>ps_rd := (ps_rd s)(d := v)\<rparr>"

definition set_p :: "nat \<Rightarrow> bool \<Rightarrow> ptx_state \<Rightarrow> ptx_state" where
  "set_p d v s = s\<lparr>ps_p := (ps_p s)(d := v)\<rparr>"

definition store8 :: "u64 \<Rightarrow> u8 \<Rightarrow> (u64 \<Rightarrow> u8) \<Rightarrow> (u64 \<Rightarrow> u8)" where
  "store8 a v m = m(a := v)"

definition store16 :: "u64 \<Rightarrow> u16 \<Rightarrow> (u64 \<Rightarrow> u8) \<Rightarrow> (u64 \<Rightarrow> u8)" where
  "store16 a v m = m(a := ucast v, a + 1 := ucast (drop_bit 8 v))"

definition set_mem :: "(u64 \<Rightarrow> u8) \<Rightarrow> ptx_state \<Rightarrow> ptx_state" where
  "set_mem m s = s\<lparr>ps_mem := m\<rparr>"

text \<open>A taken branch goes to the label at the end of the kernel, where the thread returns.\<close>

fun exec :: "ptx_env \<Rightarrow> ptx_instr list \<Rightarrow> ptx_state \<Rightarrow> ptx_state" where
  "exec e [] s = s"
| "exec e (Ld_param_u64 d x # is) s = exec e is (set_rd d (param64 e x) s)"
| "exec e (Ld_param_u32 d x # is) s = exec e is (set_r d (param32 e x) s)"
| "exec e (Mov_u32 d x # is) s = exec e is (set_r d (special32 e x) s)"
| "exec e (Mad_lo_u32 d a b c # is) s = exec e is (set_r d (ps_r s a * ps_r s b + ps_r s c) s)"
| "exec e (Mul_lo_u32 d a b # is) s = exec e is (set_r d (ps_r s a * ps_r s b) s)"
| "exec e (Setp_ge_u32 p a b # is) s = exec e is (set_p p (ps_r s b \<le> ps_r s a) s)"
| "exec e (Setp_ge_imm p a k # is) s = exec e is (set_p p (k \<le> ps_r s a) s)"
| "exec e (Bra_done p # is) s = (if ps_p s p then s else exec e is s)"
| "exec e (Mul_wide_u32 d a k # is) s = exec e is (set_rd d (ucast (ps_r s a) * ucast k) s)"
| "exec e (Add_u64 d a b # is) s = exec e is (set_rd d (ps_rd s a + ps_rd s b) s)"
| "exec e (Ld_global_u8 d a off # is) s = exec e is (set_r d (ucast (ps_mem s (ps_rd s a + off))) s)"
| "exec e (Cvt_u64_u32 d a # is) s = exec e is (set_rd d (ucast (ps_r s a)) s)"
| "exec e (Mul_lo_u64 d a b # is) s = exec e is (set_rd d (ps_rd s a * ps_rd s b) s)"
| "exec e (St_global_u8 a v # is) s = exec e is (set_mem (store8 (ps_rd s a) (ucast (ps_r s v)) (ps_mem s)) s)"
| "exec e (St_global_u16 a v # is) s = exec e is (set_mem (store16 (ps_rd s a) (ucast (ps_r s v)) (ps_mem s)) s)"
| "exec e (Shl_b32 d a n # is) s = exec e is (set_r d (push_bit n (ps_r s a)) s)"
| "exec e (Selp_u32 d a b p # is) s = exec e is (set_r d (if ps_p s p then a else b) s)"
| "exec e (Add_u32 d a b # is) s = exec e is (set_r d (ps_r s a + ps_r s b) s)"

definition kernel_prologue :: "ptx_instr list" where
  "kernel_prologue = [
    Ld_param_u64 1 P_source_ptr, Ld_param_u64 2 P_destination_ptr,
    Ld_param_u32 1 P_width, Ld_param_u32 2 P_height, Ld_param_u64 3 P_destination_pitch,
    Mov_u32 3 S_ctaid_x, Mov_u32 4 S_ntid_x, Mov_u32 5 S_tid_x,
    Mad_lo_u32 6 3 4 5, Mul_lo_u32 7 1 2, Setp_ge_u32 1 6 7, Bra_done 1,
    Mul_wide_u32 4 6 4, Add_u64 5 1 4,
    Ld_global_u8 8 5 0, Ld_global_u8 9 5 1, Ld_global_u8 10 5 2]"

definition bgra8_to_gbr8 :: "ptx_instr list" where
  "bgra8_to_gbr8 = kernel_prologue @ [
    Cvt_u64_u32 6 6, Cvt_u64_u32 7 2, Mul_lo_u64 8 3 7,
    Add_u64 9 2 6, St_global_u8 9 9,
    Add_u64 10 9 8, St_global_u8 10 8,
    Add_u64 11 10 8, St_global_u8 11 10]"

text \<open>The expansion of the channel in register \<^verbatim>\<open>src\<close> into register \<^verbatim>\<open>dst\<close>; it occurs three times.\<close>

definition expand_channel :: "nat \<Rightarrow> nat \<Rightarrow> ptx_instr list" where
  "expand_channel dst src = [
    Shl_b32 dst src 2,
    Setp_ge_imm 2 src 43, Selp_u32 14 1 0 2, Add_u32 dst dst 14,
    Setp_ge_imm 3 src 128, Selp_u32 15 1 0 3, Add_u32 dst dst 15,
    Setp_ge_imm 4 src 213, Selp_u32 16 1 0 4, Add_u32 dst dst 16,
    Shl_b32 dst dst 6]"

definition bgra8_to_gbr10 :: "ptx_instr list" where
  "bgra8_to_gbr10 = kernel_prologue @ expand_channel 11 8 @ expand_channel 12 9 @
    expand_channel 13 10 @ [
    Mul_wide_u32 6 6 2, Cvt_u64_u32 7 2, Mul_lo_u64 8 3 7,
    Add_u64 9 2 6, St_global_u16 9 12,
    Add_u64 10 9 8, St_global_u16 10 11,
    Add_u64 11 10 8, St_global_u16 11 13]"

definition expand_to_msb_aligned_10_bit :: "u8 \<Rightarrow> u16" where
  "expand_to_msb_aligned_10_bit value =
     (let expanded = (ucast value * 1023 + 127) div 255 :: u32 in ucast (push_bit 6 expanded))"

text \<open>Grid size of \<^verbatim>\<open>launch_conversion\<close>, and the index of a thread in it.\<close>

definition launch_blocks :: "u32 \<Rightarrow> u32 \<Rightarrow> u32" where
  "launch_blocks width height = (let pixels = ucast width * ucast height :: u64 in
     ucast ((pixels + 256 - 1) div 256))"

section \<open>Symbolic execution\<close>

lemmas state_simps = set_r_def set_rd_def set_p_def set_mem_def

lemma exec_append_nobranch:
  "(\<forall>i \<in> set is. \<forall>p. i \<noteq> Bra_done p) \<Longrightarrow> exec e (is @ js) s = exec e js (exec e is s)"
  by (induction e "is" s rule: exec.induct) simp_all

definition thread_index :: "ptx_env \<Rightarrow> u32" where
  "thread_index e = pe_ctaid e * pe_ntid e + pe_tid e"

definition ptx_expand :: "u32 \<Rightarrow> u32" where
  "ptx_expand v = push_bit 6 (push_bit 2 v + (if 43 \<le> v then 1 else 0) +
     (if 128 \<le> v then 1 else 0) + (if 213 \<le> v then 1 else 0))"

lemma kernel8_outside:
  "pe_width e * pe_height e \<le> thread_index e \<Longrightarrow> ps_mem (exec e bgra8_to_gbr8 s) = ps_mem s"
  "pe_width e * pe_height e \<le> thread_index e \<Longrightarrow> ps_mem (exec e bgra8_to_gbr10 s) = ps_mem s"
  by (simp_all add: bgra8_to_gbr8_def bgra8_to_gbr10_def kernel_prologue_def thread_index_def
      state_simps)

definition source_address :: "ptx_env \<Rightarrow> u64" where
  "source_address e = pe_source_ptr e + ucast (thread_index e) * 4"

definition plane_size :: "ptx_env \<Rightarrow> u64" where
  "plane_size e = pe_destination_pitch e * ucast (pe_height e)"

lemma ucast_back [simp]: "ucast (ucast (b :: u8) :: u32) = b"
  by (rule bit_word_eqI) (simp add: bit_simps)

lemma kernel8_inside:
  assumes "\<not> pe_width e * pe_height e \<le> thread_index e"
  shows "ps_mem (exec e bgra8_to_gbr8 s) =
    (let a = source_address e; d = pe_destination_ptr e + ucast (thread_index e); m = ps_mem s in
     store8 (d + plane_size e + plane_size e) (m (a + 2))
       (store8 (d + plane_size e) (m a) (store8 d (m (a + 1)) m)))"
  using assms
  by (simp add: bgra8_to_gbr8_def kernel_prologue_def thread_index_def state_simps
      source_address_def plane_size_def Let_def)

lemma kernel10_inside:
  assumes "\<not> pe_width e * pe_height e \<le> thread_index e"
  shows "ps_mem (exec e bgra8_to_gbr10 s) =
    (let a = source_address e; d = pe_destination_ptr e + ucast (thread_index e) * 2; m = ps_mem s in
     store16 (d + plane_size e + plane_size e) (ucast (ptx_expand (ucast (m (a + 2)))))
       (store16 (d + plane_size e) (ucast (ptx_expand (ucast (m a))))
         (store16 d (ucast (ptx_expand (ucast (m (a + 1))))) m)))"
proof -
  have pro: "\<forall>i \<in> set (expand_channel d v). \<forall>p. i \<noteq> Bra_done p" for d v
    by (simp add: expand_channel_def)
  define t where "t = exec e (drop 12 kernel_prologue)
    (exec e (take 12 kernel_prologue) s)"
  have ex: "exec e (expand_channel d v) u = (let x = ps_r u v in
      u\<lparr>ps_r := (ps_r u)(d := ptx_expand x, 14 := (if 43 \<le> x then 1 else 0),
        15 := (if 128 \<le> x then 1 else 0), 16 := (if 213 \<le> x then 1 else 0)),
        ps_p := (ps_p u)(2 := 43 \<le> x, 3 := 128 \<le> x, 4 := 213 \<le> x)\<rparr>)"
    if "v < 11" "10 < d" "d < 14" for d v u
    using that by (auto simp: expand_channel_def state_simps ptx_expand_def Let_def fun_eq_iff)
  show ?thesis
    using assms
    by (simp add: bgra8_to_gbr10_def kernel_prologue_def thread_index_def state_simps
        source_address_def plane_size_def Let_def exec_append_nobranch pro ex)
qed

section \<open>The expansion\<close>

lemma expand_threshold:
  "n < 256 \<Longrightarrow> (n * 1023 + 127) div 255 =
    4 * n + (if 43 \<le> n then 1 else 0) + (if 128 \<le> n then 1 else 0) + (if 213 \<le> n then 1 else (0 :: nat))"
  by (intro div_nat_eqI) auto

lemma of_nat_u32_le: "m < 2 ^ 32 \<Longrightarrow> n < 2 ^ 32 \<Longrightarrow> (of_nat m :: u32) \<le> of_nat n \<longleftrightarrow> m \<le> n"
  by (simp add: word_le_nat_alt unat_of_nat)

lemma of_nat_div_255:
  assumes "k < 2 ^ 32"
  shows "(of_nat k :: u32) div 255 = of_nat (k div 255)"
proof -
  have "k div 255 < 2 ^ 32" using assms div_le_dividend [of k 255] by linarith
  then show ?thesis
    unfolding word_unat_eq_iff unat_div using assms by (simp add: unat_of_nat)
qed

lemma ptx_expand_correct: "ucast (ptx_expand (ucast b)) = expand_to_msb_aligned_10_bit b"
proof -
  define n where "n = unat b"
  have n: "n < 256" using unsigned_less [of b] by (simp add: n_def)
  have b: "(ucast b :: u32) = of_nat n" by (simp add: n_def)
  have l: "(43 :: u32) \<le> of_nat n \<longleftrightarrow> 43 \<le> n" "(128 :: u32) \<le> of_nat n \<longleftrightarrow> 128 \<le> n"
    "(213 :: u32) \<le> of_nat n \<longleftrightarrow> 213 \<le> n"
    using of_nat_u32_le [of 43 n] of_nat_u32_le [of 128 n] of_nat_u32_le [of 213 n] n by simp_all
  have "(of_nat n * 1023 + 127 :: u32) div 255 = of_nat ((n * 1023 + 127) div 255)"
    using of_nat_div_255 [of "n * 1023 + 127"] n by simp
  moreover have "push_bit 2 (of_nat n) + (if 43 \<le> n then 1 else 0) + (if 128 \<le> n then 1 else 0) +
      (if 213 \<le> n then 1 else 0) = (of_nat ((n * 1023 + 127) div 255) :: u32)"
    unfolding expand_threshold [OF n] by (simp add: push_bit_eq_mult)
  ultimately show ?thesis
    unfolding ptx_expand_def expand_to_msb_aligned_10_bit_def b Let_def l by simp
qed

text \<open>C3: The ten-bit PTX kernel computes the C reference: run by any thread inside the picture it
  stores, at the thread's sample in three consecutive planes, the 16-bit values that
  \<^verbatim>\<open>expand_to_msb_aligned_10_bit\<close> gives for the green, blue and red byte of its BGRA pixel, and
  changes nothing else; a thread outside the picture changes no memory at all.\<close>

theorem kernel10_refines_reference:
  "ps_mem (exec e bgra8_to_gbr10 s) =
    (if pe_width e * pe_height e \<le> thread_index e then ps_mem s
     else let a = source_address e; d = pe_destination_ptr e + ucast (thread_index e) * 2;
         m = ps_mem s in
       store16 (d + plane_size e + plane_size e) (expand_to_msb_aligned_10_bit (m (a + 2)))
         (store16 (d + plane_size e) (expand_to_msb_aligned_10_bit (m a))
           (store16 d (expand_to_msb_aligned_10_bit (m (a + 1))) m)))"
  using kernel8_outside(2) kernel10_inside [of e s] by (simp add: ptx_expand_correct Let_def)

text \<open>The launch covers the picture: when the pixel count fits the grid arithmetic, every pixel
  index below width times height is the index of exactly one thread of the launched grid of
  256-thread blocks.\<close>

theorem launch_covers_every_pixel:
  assumes "unat width * unat height + 255 < 2 ^ 32" "i < unat width * unat height"
  shows "\<exists>!bt. fst bt < unat (launch_blocks width height) \<and> snd bt < 256 \<and>
    unat (of_nat (fst bt) * 256 + of_nat (snd bt) :: u32) = i"
proof -
  let ?n = "unat width * unat height"
  have up: "unat (ucast w :: u64) = unat w" for w :: u32
  proof -
    have "unat w < 2 ^ LENGTH(32)" by (rule unsigned_less)
    then show ?thesis unfolding unsigned_ucast_eq by (intro take_bit_nat_eq_self) simp
  qed
  have u: "unat (ucast width * ucast height :: u64) = ?n"
    using assms(1) by (simp add: unat_word_ariths up)
  have v: "unat ((ucast width * ucast height + 256 - 1 :: u64)) = ?n + 255"
  proof -
    have "(ucast width * ucast height + 256 - 1 :: u64) = ucast width * ucast height + 255" by simp
    then show ?thesis using u assms(1) by (simp add: unat_word_ariths)
  qed
  have blocks: "unat (launch_blocks width height) = (?n + 255) div 256"
  proof -
    have "unat (launch_blocks width height) = unat ((ucast width * ucast height + 256 - 1 :: u64) div 256) mod 2 ^ 32"
      unfolding launch_blocks_def Let_def by (simp add: unsigned_ucast_eq take_bit_eq_mod)
    also have "\<dots> = ((?n + 255) div 256) mod 2 ^ 32" unfolding unat_div v by simp
    finally show ?thesis using assms(1) by simp
  qed
  have idx: "unat (of_nat b * 256 + of_nat t :: u32) = b * 256 + t"
    if "b < (?n + 255) div 256" "t < 256" for b t
  proof -
    have "Suc b * 256 \<le> ?n + 255" using that(1) by (simp add: less_eq_div_iff_mult_less_eq [symmetric])
    then have "b * 256 + t < 2 ^ 32" using that(2) assms(1) by simp
    moreover have "(of_nat b * 256 + of_nat t :: u32) = of_nat (b * 256 + t)" by simp
    ultimately show ?thesis by (simp add: unat_of_nat del: of_nat_add of_nat_mult)
  qed
  show ?thesis
  proof (rule ex1I [of _ "(i div 256, i mod 256)"])
    have "i div 256 < (?n + 255) div 256" 
    proof -
      have "Suc (i div 256) * 256 \<le> ?n + 255"
        using assms(2) div_mult_mod_eq [of i 256] by simp
      then have "Suc (i div 256) \<le> (?n + 255) div 256" by (simp add: less_eq_div_iff_mult_less_eq)
      then show ?thesis by simp
    qed
    then show "fst (i div 256, i mod 256) < unat (launch_blocks width height) \<and>
        snd (i div 256, i mod 256) < 256 \<and>
        unat (of_nat (fst (i div 256, i mod 256)) * 256 + of_nat (snd (i div 256, i mod 256)) :: u32) = i"
      using idx blocks by simp
  next
    fix bt :: "nat \<times> nat"
    assume "fst bt < unat (launch_blocks width height) \<and> snd bt < 256 \<and>
        unat (of_nat (fst bt) * 256 + of_nat (snd bt) :: u32) = i"
    then show "bt = (i div 256, i mod 256)" using idx [of "fst bt" "snd bt"] blocks by (cases bt) auto
  qed
qed

theorem launch_covers_every_pixel_witness:
  "\<exists>!bt. fst bt < unat (launch_blocks 1920 1080) \<and> snd bt < 256 \<and>
    unat (of_nat (fst bt) * 256 + of_nat (snd bt) :: u32) = 2073599"
  by (rule launch_covers_every_pixel) simp_all

end
