(* ===== verification/Video_Options.thy ===== *)
theory Video_Options
  imports Cxx_Parse Ptx_Kernel
begin

text \<open>
  The command line of the capture and encode probe,
  \<^verbatim>\<open>src/probes/video/plank-probe-video-pipeline.cpp\<close>: the option loop at the head of \<^verbatim>\<open>main\<close>, the
  derived defaults and the cross-checks, and the host-side self-test. \<^verbatim>\<open>Inl\<close> is an exit code.
\<close>

datatype codec = kHevc10 | kH264EightBit
datatype split_encode_mode = NV_ENC_SPLIT_AUTO_MODE | NV_ENC_SPLIT_AUTO_FORCED_MODE | NV_ENC_SPLIT_DISABLE_MODE
datatype tuning_info = NV_ENC_TUNING_INFO_LOW_LATENCY | NV_ENC_TUNING_INFO_ULTRA_LOW_LATENCY

record video_options =
  frame_count :: nat
  frame_rate :: nat
  queue_depth :: nat
  simulate_loss_frame :: nat
  invalidate_delay_frames :: nat
  force_idr_frame :: nat
  reference_frames :: nat
  reference_invalidation_enabled :: bool
  intra_refresh_period :: int
  intra_refresh_count :: int
  single_slice_intra_refresh :: bool
  require_changing_source :: bool
  require_robustness :: bool
  unpaced :: bool
  codec_choice :: codec
  bitrate :: u32
  vbv_bits :: u32
  output_name :: string
  bitstream_path :: string
  reference_bitstream_path :: string
  split_mode :: split_encode_mode
  tuning :: tuning_info

definition video_defaults :: video_options where
  "video_defaults = \<lparr>frame_count = 600, frame_rate = 60, queue_depth = 1, simulate_loss_frame = 0,
     invalidate_delay_frames = 2, force_idr_frame = 0, reference_frames = 0,
     reference_invalidation_enabled = True, intra_refresh_period = - 1, intra_refresh_count = - 1,
     single_slice_intra_refresh = True, require_changing_source = False,
     require_robustness = False, unpaced = False, codec_choice = kHevc10,
     bitrate = 100000000, vbv_bits = 2000000, output_name = ''DP-2'',
     bitstream_path = ''plank-identity-gbr.hevc'', reference_bitstream_path = [],
     split_mode = NV_ENC_SPLIT_AUTO_MODE, tuning = NV_ENC_TUNING_INFO_LOW_LATENCY\<rparr>"

definition video_self_test :: nat where
  "video_self_test = (if expand_to_msb_aligned_10_bit 0 = 0 \<and>
     expand_to_msb_aligned_10_bit 128 = 32896 \<and> expand_to_msb_aligned_10_bit 255 = 65472
     then 0 else 1)"

section \<open>The option loop\<close>

definition set_flag :: "string \<Rightarrow> video_options \<Rightarrow> video_options option" where
  "set_flag argument opts =
     (if argument = ''--require-changing'' then Some (opts\<lparr>require_changing_source := True\<rparr>)
      else if argument = ''--require-robustness'' then Some (opts\<lparr>require_robustness := True\<rparr>)
      else if argument = ''--unpaced'' then Some (opts\<lparr>unpaced := True\<rparr>)
      else if argument = ''--no-reference-invalidation''
      then Some (opts\<lparr>reference_invalidation_enabled := False\<rparr>)
      else None)"

definition set_rate :: "string \<Rightarrow> string \<Rightarrow> video_options \<Rightarrow> nat + video_options" where
  "set_rate argument v opts = (case stoul v of
     Inl _ \<Rightarrow> Inl 2
   | Inr value \<Rightarrow>
       if value = 0 \<or> (if argument = ''--bitrate-mbps'' then 4000 else 1000000) < value then Inl 2
       else if argument = ''--bitrate-mbps''
       then Inr (opts\<lparr>bitrate := ucast (value * 1000000)\<rparr>)
       else Inr (opts\<lparr>vbv_bits := ucast (value * 1000)\<rparr>))"

definition numeric_names :: "string list" where
  "numeric_names = [''--frames'', ''--fps'', ''--simulate-loss-frame'', ''--invalidate-delay-frames'',
     ''--force-idr-frame'', ''--reference-frames'']"

definition set_numeric :: "string \<Rightarrow> string \<Rightarrow> video_options \<Rightarrow> nat + video_options" where
  "set_numeric argument v opts = (case stoul v of
     Inl _ \<Rightarrow> Inl 2
   | Inr w \<Rightarrow>
       let value = unat w in
       if argument \<noteq> ''--reference-frames'' \<and> value = 0 \<or> 36000 < value then Inl 2
       else Inr
         (if argument = ''--frames'' then opts\<lparr>frame_count := value\<rparr>
          else if argument = ''--fps'' then opts\<lparr>frame_rate := value\<rparr>
          else if argument = ''--simulate-loss-frame'' then opts\<lparr>simulate_loss_frame := value\<rparr>
          else if argument = ''--invalidate-delay-frames'' then opts\<lparr>invalidate_delay_frames := value\<rparr>
          else if argument = ''--force-idr-frame'' then opts\<lparr>force_idr_frame := value\<rparr>
          else opts\<lparr>reference_frames := value\<rparr>))"

definition set_refresh :: "string \<Rightarrow> string \<Rightarrow> video_options \<Rightarrow> nat + video_options" where
  "set_refresh argument v opts = (case stoi v of
     Inl _ \<Rightarrow> Inl 2
   | Inr value \<Rightarrow>
       if argument = ''--intra-refresh-count'' then
         (if value < 0 \<or> 36000 < value then Inl 2 else Inr (opts\<lparr>intra_refresh_count := value\<rparr>))
       else
         (if value \<le> 0 \<or> 36000 < value then Inl 2 else Inr (opts\<lparr>intra_refresh_period := value\<rparr>)))"

definition set_choice :: "string \<Rightarrow> string \<Rightarrow> video_options \<Rightarrow> nat + video_options" where
  "set_choice argument v opts =
     (if argument = ''--codec'' then
        (if v = ''hevc-10bit-444'' then Inr (opts\<lparr>codec_choice := kHevc10\<rparr>)
         else if v = ''h264-8bit-444'' then Inr (opts\<lparr>codec_choice := kH264EightBit\<rparr>) else Inl 2)
      else if argument = ''--queue-depth'' then
        (if v \<noteq> ''0'' \<and> v \<noteq> ''1'' then Inl 2
         else Inr (opts\<lparr>queue_depth := of_char (hd v) - 48\<rparr>))
      else if argument = ''--single-slice-intra-refresh'' then
        (if v \<noteq> ''0'' \<and> v \<noteq> ''1'' then Inl 2
         else Inr (opts\<lparr>single_slice_intra_refresh := (v = ''1'')\<rparr>))
      else if argument = ''--split'' then
        (if v = ''auto'' then Inr (opts\<lparr>split_mode := NV_ENC_SPLIT_AUTO_MODE\<rparr>)
         else if v = ''forced'' then Inr (opts\<lparr>split_mode := NV_ENC_SPLIT_AUTO_FORCED_MODE\<rparr>)
         else if v = ''disabled'' then Inr (opts\<lparr>split_mode := NV_ENC_SPLIT_DISABLE_MODE\<rparr>) else Inl 2)
      else
        (if v = ''low-latency'' then Inr (opts\<lparr>tuning := NV_ENC_TUNING_INFO_LOW_LATENCY\<rparr>)
         else if v = ''ultra-low-latency''
         then Inr (opts\<lparr>tuning := NV_ENC_TUNING_INFO_ULTRA_LOW_LATENCY\<rparr>) else Inl 2))"

definition set_path :: "string \<Rightarrow> string \<Rightarrow> video_options \<Rightarrow> video_options" where
  "set_path argument v opts =
     (if argument = ''--output'' then opts\<lparr>output_name := v\<rparr>
      else if argument = ''--bitstream'' then opts\<lparr>bitstream_path := v\<rparr>
      else opts\<lparr>reference_bitstream_path := v\<rparr>)"

text \<open>An option with a value; \<^verbatim>\<open>None\<close> for a name that is not one.\<close>

definition set_value :: "string \<Rightarrow> string \<Rightarrow> video_options \<Rightarrow> (nat + video_options) option" where
  "set_value argument v opts =
     (if argument \<in> {''--codec'', ''--queue-depth'', ''--single-slice-intra-refresh'', ''--split'', ''--tuning''}
      then Some (set_choice argument v opts)
      else if argument \<in> {''--bitrate-mbps'', ''--vbv-kbits''} then Some (set_rate argument v opts)
      else if argument \<in> {''--intra-refresh-count'', ''--intra-refresh-period''}
      then Some (set_refresh argument v opts)
      else if argument \<in> set numeric_names then Some (set_numeric argument v opts)
      else if argument \<in> {''--output'', ''--bitstream'', ''--reference-bitstream''}
      then Some (Inr (set_path argument v opts))
      else None)"

fun video_option_loop :: "string list \<Rightarrow> video_options \<Rightarrow> nat + video_options" where
  "video_option_loop [] opts = Inr opts"
| "video_option_loop (argument # rest) opts =
     (if argument = ''--self-test'' then Inl video_self_test
      else case set_flag argument opts of
        Some opts' \<Rightarrow> video_option_loop rest opts'
      | None \<Rightarrow>
          (case rest of
             [] \<Rightarrow> Inl 2
           | v # rest' \<Rightarrow>
               (case set_value argument v opts of
                  None \<Rightarrow> Inl 2
                | Some (Inl code) \<Rightarrow> Inl code
                | Some (Inr opts') \<Rightarrow> video_option_loop rest' opts')))"

section \<open>Defaults and cross-checks\<close>

definition refresh_defaults :: "video_options \<Rightarrow> video_options" where
  "refresh_defaults opts =
     (let o1 = (if intra_refresh_period opts < 0
                then opts\<lparr>intra_refresh_period := int (frame_rate opts)\<rparr> else opts)
      in if intra_refresh_count o1 < 0
         then o1\<lparr>intra_refresh_count := intra_refresh_period o1 div 2\<rparr> else o1)"

definition recovers :: "video_options \<Rightarrow> bool" where
  "recovers opts \<longleftrightarrow> simulate_loss_frame opts \<noteq> 0 \<and> reference_invalidation_enabled opts"

definition check_options :: "video_options \<Rightarrow> nat + video_options" where
  "check_options o0 =
     (if 240 < frame_rate o0 then Inl 2
      else
        let opts = refresh_defaults o0 in
        if 0 < intra_refresh_count opts \<and> intra_refresh_period opts \<le> intra_refresh_count opts then Inl 2
        else if frame_count opts < simulate_loss_frame opts \<or> frame_count opts < force_idr_frame opts \<or>
          recovers opts \<and> frame_count opts < simulate_loss_frame opts + invalidate_delay_frames opts
        then Inl 2
        else if 8 < reference_frames opts then Inl 2
        else
          let o2 = (if recovers opts \<and> reference_frames opts = 0
                    then opts\<lparr>reference_frames := 4\<rparr> else opts) in
          if recovers o2 \<and> queue_depth o2 = 1 \<and> invalidate_delay_frames o2 < 2 then Inl 2
          else if reference_bitstream_path o2 \<noteq> [] \<and> reference_bitstream_path o2 = bitstream_path o2
          then Inl 2
          else Inr o2)"

definition parse_video_options :: "string list \<Rightarrow> nat + video_options" where
  "parse_video_options arguments =
     (case video_option_loop arguments video_defaults of
        Inl code \<Rightarrow> Inl code
      | Inr opts \<Rightarrow> check_options opts)"

section \<open>Accepted option sets\<close>

text \<open>What every option keeps true while the loop runs: the values are inside the ranges their parsers
  enforce, and the two rates have not wrapped around.\<close>

definition options_ranged :: "video_options \<Rightarrow> bool" where
  "options_ranged opts \<longleftrightarrow>
     1 \<le> frame_count opts \<and> frame_count opts \<le> 36000 \<and> 1 \<le> frame_rate opts \<and>
     queue_depth opts \<le> 1 \<and> simulate_loss_frame opts \<le> 36000 \<and>
     1 \<le> invalidate_delay_frames opts \<and> invalidate_delay_frames opts \<le> 36000 \<and>
     (intra_refresh_period opts = - 1 \<or> 1 \<le> intra_refresh_period opts) \<and>
     (intra_refresh_count opts = - 1 \<or> 0 \<le> intra_refresh_count opts) \<and>
     1000000 \<le> unat (bitrate opts) \<and> unat (bitrate opts) \<le> 4000000000 \<and>
     1000 \<le> unat (vbv_bits opts) \<and> unat (vbv_bits opts) \<le> 1000000000"

lemma video_defaults_ranged: "options_ranged video_defaults"
  by (simp add: options_ranged_def video_defaults_def)

lemma set_flag_ranged: "set_flag a opts = Some opts' \<Longrightarrow> options_ranged opts \<Longrightarrow> options_ranged opts'"
  by (auto simp: set_flag_def options_ranged_def split: if_split_asm)

lemma unat_scaled:
  fixes w :: u64
  assumes "w \<le> of_nat bound" "bound * k < 2 ^ 32"
    and "bound < 2 ^ 64" "0 < k"
  shows "unat (ucast (w * of_nat k) :: u32) = unat w * k"
proof -
  have le: "unat w \<le> bound" using assms(1,3) by (simp add: word_le_nat_alt unat_of_nat)
  then have lt: "unat w * k < 2 ^ 32" using assms(2) by (rule le_less_trans [OF mult_le_mono1])
  then have k: "k < 2 ^ 64 \<or> unat w = 0" by (cases "unat w") auto
  have "unat (w * of_nat k) = unat w * k"
    using lt k by (auto simp: unat_word_ariths unat_of_nat)
  then show ?thesis using lt by (simp add: unsigned_ucast_eq unsigned_take_bit_eq take_bit_eq_mod)
qed

lemma set_rate_ranged:
  assumes "set_rate a v opts = Inr opts'" "options_ranged opts"
  shows "options_ranged opts'"
proof -
  obtain w where w: "stoul v = Inr w" using assms(1) by (auto simp: set_rate_def split: sum.split_asm)
  have nz: "w \<noteq> 0" using assms(1) w by (auto simp: set_rate_def split: if_split_asm)
  then have w1: "1 \<le> unat w" by (simp add: unat_gt_0 Suc_leI)
  show ?thesis
  proof (cases "a = ''--bitrate-mbps''")
    case True
    have le: "w \<le> 4000" using assms(1) w True by (auto simp: set_rate_def split: if_split_asm)
    have "unat (ucast (w * 1000000) :: u32) = unat w * 1000000"
      using unat_scaled [of w 4000 1000000] le by simp
    moreover have "unat w \<le> 4000" using le by (simp add: word_le_nat_alt)
    ultimately show ?thesis using assms w True nz w1 by (auto simp: set_rate_def options_ranged_def
          split: if_split_asm)
  next
    case False
    have le: "w \<le> 1000000" using assms(1) w False by (auto simp: set_rate_def split: if_split_asm)
    have "unat (ucast (w * 1000) :: u32) = unat w * 1000"
      using unat_scaled [of w 1000000 1000] le by simp
    moreover have "unat w \<le> 1000000" using le by (simp add: word_le_nat_alt)
    ultimately show ?thesis using assms w False nz w1 by (auto simp: set_rate_def options_ranged_def
          split: if_split_asm)
  qed
qed

lemma options_ranged_numeric:
  assumes "options_ranged opts" "n \<le> 36000"
  shows "1 \<le> n \<Longrightarrow> options_ranged (opts\<lparr>frame_count := n\<rparr>)"
    "1 \<le> n \<Longrightarrow> options_ranged (opts\<lparr>frame_rate := n\<rparr>)"
    "1 \<le> n \<Longrightarrow> options_ranged (opts\<lparr>simulate_loss_frame := n\<rparr>)"
    "1 \<le> n \<Longrightarrow> options_ranged (opts\<lparr>invalidate_delay_frames := n\<rparr>)"
    "1 \<le> n \<Longrightarrow> options_ranged (opts\<lparr>force_idr_frame := n\<rparr>)"
    "options_ranged (opts\<lparr>reference_frames := n\<rparr>)"
  using assms by (simp_all add: options_ranged_def)

lemma set_numeric_ranged:
  assumes "set_numeric a v opts = Inr opts'" "options_ranged opts" "a \<in> set numeric_names"
  shows "options_ranged opts'"
proof -
  obtain w where w: "stoul v = Inr w" using assms(1) by (auto simp: set_numeric_def split: sum.split_asm)
  have n: "unat w \<le> 36000" "a \<noteq> ''--reference-frames'' \<Longrightarrow> 1 \<le> unat w"
    using assms(1) w unfolding set_numeric_def Let_def by (simp_all only: sum.case split: if_split_asm) simp_all
  note r = options_ranged_numeric [OF assms(2) n(1)]
  show ?thesis
  proof (cases "a = ''--reference-frames''")
    case True
    then show ?thesis using assms(1) w r(6) unfolding set_numeric_def Let_def True
      by (simp split: if_split_asm)
  next
    case False
    have g: "\<not> (a \<noteq> ''--reference-frames'' \<and> unat w = 0 \<or> 36000 < unat w)" using n(1) n(2) [OF False] by simp
    have o: "opts' = (if a = ''--frames'' then opts\<lparr>frame_count := unat w\<rparr>
          else if a = ''--fps'' then opts\<lparr>frame_rate := unat w\<rparr>
          else if a = ''--simulate-loss-frame'' then opts\<lparr>simulate_loss_frame := unat w\<rparr>
          else if a = ''--invalidate-delay-frames'' then opts\<lparr>invalidate_delay_frames := unat w\<rparr>
          else if a = ''--force-idr-frame'' then opts\<lparr>force_idr_frame := unat w\<rparr>
          else opts\<lparr>reference_frames := unat w\<rparr>)"
      using assms(1) unfolding set_numeric_def Let_def w sum.case if_not_P [OF g] sum.inject
      by (rule sym)
    show ?thesis unfolding o
      by (simp only: r(1-5) [OF n(2) [OF False]] r(6) split: if_split) simp
  qed
qed

lemma set_refresh_ranged:
  "set_refresh a v opts = Inr opts' \<Longrightarrow> options_ranged opts \<Longrightarrow> options_ranged opts'"
  by (auto simp: set_refresh_def options_ranged_def split: if_split_asm sum.split_asm)

lemma options_ranged_other [simp]:
  "options_ranged (opts\<lparr>codec_choice := c\<rparr>) = options_ranged opts"
  "options_ranged (opts\<lparr>single_slice_intra_refresh := b\<rparr>) = options_ranged opts"
  "options_ranged (opts\<lparr>split_mode := sm\<rparr>) = options_ranged opts"
  "options_ranged (opts\<lparr>tuning := t\<rparr>) = options_ranged opts"
  "options_ranged (opts\<lparr>output_name := p\<rparr>) = options_ranged opts"
  "options_ranged (opts\<lparr>bitstream_path := p\<rparr>) = options_ranged opts"
  "options_ranged (opts\<lparr>reference_bitstream_path := p\<rparr>) = options_ranged opts"
  by (simp_all add: options_ranged_def)

lemma queue_depth_digit: "v = ''0'' \<or> v = ''1'' \<Longrightarrow> of_char (hd v) - 48 \<le> (1 :: nat)"
  by auto

lemma options_ranged_depth: "options_ranged opts \<Longrightarrow> n \<le> 1 \<Longrightarrow> options_ranged (opts\<lparr>queue_depth := n\<rparr>)"
  by (simp add: options_ranged_def)

lemma set_choice_ranged:
  assumes "set_choice a v opts = Inr opts'" "options_ranged opts"
  shows "options_ranged opts'"
proof (cases "a = ''--queue-depth''")
  case True
  have "v = ''0'' \<or> v = ''1''" using assms(1) unfolding set_choice_def True
    by (simp split: if_split_asm)
  then show ?thesis using assms options_ranged_depth [OF assms(2) queue_depth_digit, of v]
    unfolding set_choice_def True by (elim disjE) simp_all
next
  case False
  then show ?thesis using assms unfolding set_choice_def if_not_P [OF False]
    by (auto simp del: list.inject split: if_split_asm)
qed

lemma set_path_ranged: "options_ranged opts \<Longrightarrow> options_ranged (set_path a v opts)"
  by (simp add: set_path_def)

lemma set_value_ranged:
  assumes "set_value a v opts = Some (Inr opts')" "options_ranged opts"
  shows "options_ranged opts'"
proof -
  have "set_choice a v opts = Inr opts' \<or> set_rate a v opts = Inr opts' \<or> set_refresh a v opts = Inr opts' \<or>
    (a \<in> set numeric_names \<and> set_numeric a v opts = Inr opts') \<or> opts' = set_path a v opts"
    using assms(1) unfolding set_value_def by (simp only: split: if_split_asm) simp_all
  then show ?thesis
    using set_choice_ranged set_rate_ranged set_refresh_ranged set_numeric_ranged set_path_ranged assms(2)
    by blast
qed

lemma video_option_loop_ranged:
  "video_option_loop args opts = Inr opts' \<Longrightarrow> options_ranged opts \<Longrightarrow> options_ranged opts'"
proof (induction args opts rule: video_option_loop.induct)
  case (2 a rest opts)
  then show ?case
    by (auto split: if_split_asm option.split_asm list.split_asm sum.split_asm
        dest: set_flag_ranged set_value_ranged)
qed simp

text \<open>What the checks after the loop add.\<close>

definition options_valid :: "video_options \<Rightarrow> bool" where
  "options_valid opts \<longleftrightarrow>
     1 \<le> frame_count opts \<and> frame_count opts \<le> 36000 \<and> 1 \<le> frame_rate opts \<and> frame_rate opts \<le> 240 \<and>
     queue_depth opts \<le> 1 \<and>
     1 \<le> intra_refresh_period opts \<and> 0 \<le> intra_refresh_count opts \<and>
     (intra_refresh_count opts = 0 \<or> intra_refresh_count opts < intra_refresh_period opts) \<and>
     simulate_loss_frame opts \<le> frame_count opts \<and> force_idr_frame opts \<le> frame_count opts \<and>
     reference_frames opts \<le> 8 \<and> 1 \<le> invalidate_delay_frames opts \<and>
     (recovers opts \<longrightarrow> simulate_loss_frame opts + invalidate_delay_frames opts \<le> frame_count opts \<and>
        1 \<le> reference_frames opts \<and> (queue_depth opts = 1 \<longrightarrow> 2 \<le> invalidate_delay_frames opts)) \<and>
     (reference_bitstream_path opts = [] \<or> reference_bitstream_path opts \<noteq> bitstream_path opts)"

lemma refresh_defaults_simps [simp]:
  "frame_count (refresh_defaults o0) = frame_count o0"
  "frame_rate (refresh_defaults o0) = frame_rate o0"
  "queue_depth (refresh_defaults o0) = queue_depth o0"
  "simulate_loss_frame (refresh_defaults o0) = simulate_loss_frame o0"
  "invalidate_delay_frames (refresh_defaults o0) = invalidate_delay_frames o0"
  "force_idr_frame (refresh_defaults o0) = force_idr_frame o0"
  "reference_frames (refresh_defaults o0) = reference_frames o0"
  "reference_invalidation_enabled (refresh_defaults o0) = reference_invalidation_enabled o0"
  "reference_bitstream_path (refresh_defaults o0) = reference_bitstream_path o0"
  "bitstream_path (refresh_defaults o0) = bitstream_path o0"
  "bitrate (refresh_defaults o0) = bitrate o0" "vbv_bits (refresh_defaults o0) = vbv_bits o0"
  "recovers (refresh_defaults o0) = recovers o0"
  by (simp_all add: refresh_defaults_def Let_def recovers_def)

lemma recovers_update [simp]: "recovers (opts\<lparr>reference_frames := n\<rparr>) = recovers opts"
  by (simp add: recovers_def)

lemma refresh_defaults_ranged:
  assumes "options_ranged o0"
  shows "1 \<le> intra_refresh_period (refresh_defaults o0) \<and> 0 \<le> intra_refresh_count (refresh_defaults o0)"
  using assms by (auto simp: options_ranged_def refresh_defaults_def Let_def)

lemma check_options_valid:
  assumes "check_options o0 = Inr opts" "options_ranged o0"
  shows "options_valid opts \<and> bitrate opts = bitrate o0 \<and> vbv_bits opts = vbv_bits o0"
proof -
  let ?r = "refresh_defaults o0"
  have opts: "opts = (if recovers ?r \<and> reference_frames ?r = 0 then ?r\<lparr>reference_frames := 4\<rparr> else ?r)"
    using assms(1) by (auto simp: check_options_def Let_def split: if_split_asm)
  have c: "frame_rate o0 \<le> 240"
    "\<not> (0 < intra_refresh_count ?r \<and> intra_refresh_period ?r \<le> intra_refresh_count ?r)"
    "simulate_loss_frame o0 \<le> frame_count o0" "force_idr_frame o0 \<le> frame_count o0"
    "recovers o0 \<longrightarrow> simulate_loss_frame o0 + invalidate_delay_frames o0 \<le> frame_count o0"
    "reference_frames o0 \<le> 8"
    "recovers o0 \<and> queue_depth o0 = 1 \<longrightarrow> 2 \<le> invalidate_delay_frames o0"
    "reference_bitstream_path o0 = [] \<or> reference_bitstream_path o0 \<noteq> bitstream_path o0"
    using assms(1) by (auto simp: check_options_def Let_def split: if_split_asm)
  have d: "intra_refresh_count ?r = 0 \<or> intra_refresh_count ?r < intra_refresh_period ?r"
    using c(2) refresh_defaults_ranged [OF assms(2)] by linarith
  show ?thesis
    using c(1,3-) d assms(2) refresh_defaults_ranged [OF assms(2)]
    unfolding opts options_valid_def options_ranged_def
    by (cases "recovers o0 \<and> reference_frames o0 = 0") (simp_all add: Suc_le_eq)
qed

lemma parsed_options:
  assumes "parse_video_options arguments = Inr opts"
  shows "options_valid opts \<and> (\<exists>o0. options_ranged o0 \<and> bitrate opts = bitrate o0 \<and> vbv_bits opts = vbv_bits o0)"
proof -
  obtain o0 where o0: "video_option_loop arguments video_defaults = Inr o0" "check_options o0 = Inr opts"
    using assms by (auto simp: parse_video_options_def split: sum.split_asm)
  have r: "options_ranged o0"
    using video_option_loop_ranged [OF o0(1) video_defaults_ranged] .
  show ?thesis using check_options_valid [OF o0(2) r] r by blast
qed

text \<open>C38: Whatever the command line, an option set the probe runs with is valid: between 1 and 36000
  frames at 1 to 240 frames per second, an intra-refresh wave shorter than its period, loss and IDR
  frames inside the run, and, when recovery is exercised, an invalidation inside the run, at least
  one reference frame, two feedback frames in threaded mode, and different output files; the
  configured rates are those asked for, without wrap-around.\<close>

theorem parse_video_options_valid:
  assumes "parse_video_options arguments = Inr opts"
  shows "options_valid opts \<and>
    1000000 \<le> unat (bitrate opts) \<and> unat (bitrate opts) \<le> 4000000000 \<and>
    1000 \<le> unat (vbv_bits opts) \<and> unat (vbv_bits opts) \<le> 1000000000"
  using parsed_options [OF assms] by (auto simp: options_ranged_def)


lemma video_defaults_accepted: "parse_video_options [] =
   Inr (video_defaults\<lparr>intra_refresh_period := 60, intra_refresh_count := 30\<rparr>)"
  by (simp add: parse_video_options_def check_options_def refresh_defaults_def video_defaults_def Let_def
      recovers_def)

theorem parse_video_options_valid_witness:
  "options_valid (video_defaults\<lparr>intra_refresh_period := 60, intra_refresh_count := 30\<rparr>)"
  using parse_video_options_valid [OF video_defaults_accepted] by simp

end
