(* ===== verification/Step_System.thy ===== *)
theory Step_System
  imports Main
begin

text \<open>
  Step systems. The threads of a component are modelled by one step relation over a state that holds
  the shared variables and the control points. These locales are the two contracts such a model
  promises: an invariant that holds in the initial state and is kept by every step, and, on top of
  it, that a state which is not final can always take a step and that steps strictly lower a rank.
  From them follow that the invariant holds in every reachable state, that no run is infinite, that
  a run can only stop in a final state, and that a final state is always within reach.
\<close>

locale invariant_system =
  fixes start :: 's and step :: "'s \<Rightarrow> 's \<Rightarrow> bool" and inv :: "'s \<Rightarrow> bool"
  assumes inv_start: "inv start"
    and inv_step: "inv s \<Longrightarrow> step s t \<Longrightarrow> inv t"
begin

lemma reachable_inv: "step\<^sup>*\<^sup>* start s \<Longrightarrow> inv s"
  by (induction rule: rtranclp_induct) (auto intro: inv_start inv_step)

end

locale terminating_system = invariant_system +
  fixes final :: "'a \<Rightarrow> bool" and rank :: "'a \<Rightarrow> nat"
  assumes progress: "inv s \<Longrightarrow> \<not> final s \<Longrightarrow> \<exists>t. step s t"
    and rank_less: "inv s \<Longrightarrow> step s t \<Longrightarrow> rank t < rank s"
begin

lemma reaches_final: "inv s \<Longrightarrow> \<exists>t. step\<^sup>*\<^sup>* s t \<and> final t"
proof (induction s rule: measure_induct_rule [of rank])
  case (less s)
  show ?case
  proof (cases "final s")
    case False
    then obtain u where u: "step s u" using progress less.prems by blast
    then obtain t where "step\<^sup>*\<^sup>* u t" "final t"
      using less.IH [OF rank_less [OF less.prems u] inv_step [OF less.prems u]] by blast
    with u show ?thesis by (meson converse_rtranclp_into_rtranclp)
  qed blast
qed

lemma run_bounded:
  assumes "inv (run 0)" "\<And>i. i < n \<Longrightarrow> step (run i) (run (Suc i))"
  shows "rank (run n) + n \<le> rank (run 0) \<and> inv (run n)"
  using assms(2)
proof (induction n)
  case (Suc n)
  then have "rank (run n) + n \<le> rank (run 0)" "inv (run n)" "step (run n) (run (Suc n))" by auto
  then show ?case using rank_less inv_step by fastforce
qed (simp add: assms(1))

lemma no_infinite_run: "\<not> (\<exists>run. run 0 = start \<and> (\<forall>i. step (run i) (run (Suc i))))"
proof
  assume "\<exists>run. run 0 = start \<and> (\<forall>i. step (run i) (run (Suc i)))"
  then obtain run where "run 0 = start" "\<And>i. step (run i) (run (Suc i))" by blast
  then show False using run_bounded [of run "Suc (rank (run 0))"] inv_start by simp
qed

lemma stuck_final: "step\<^sup>*\<^sup>* start s \<Longrightarrow> (\<And>t. \<not> step s t) \<Longrightarrow> final s"
  using progress reachable_inv by blast

end

end
