(* ===== verification/Video_Pipeline.thy ===== *)
theory Video_Pipeline
  imports Video_Options Step_System
begin

text \<open>
  The encode loop of \<^verbatim>\<open>src/probes/video/plank-probe-video-pipeline.cpp\<close>: the capture thread, which
  submits frames into two encode slots in turn, and the output worker, which drains the slots
  through a queue guarded by one mutex. A state holds the shared variables and the control point of
  each thread; a step is what a thread does between two points at which the other can interfere:
  a critical section, or a stretch of code over variables it alone uses.

  The calls into NvFBC, CUDA and NVENC are parameters: \<^verbatim>\<open>frame_calls\<close> and \<^verbatim>\<open>drain_calls\<close> say which of
  them succeed and what the clock showed, \<^verbatim>\<open>pc_output\<close> gives the time stamp and the bytes that
  locking the bitstream of a submitted picture yields.
\<close>

section \<open>State\<close>

datatype video_error = E_Invalidate | E_Grab | E_Geometry | E_Launch | E_Map | E_Encode
  | E_Lock | E_Reference_Write | E_Write | E_Unlock | E_Unmap

datatype main_pc = M_Loop nat | M_Frame nat | M_Output nat | M_Finish | M_Join | M_Unwind | M_Unwind_Join
  | M_Done | M_Thrown

datatype worker_pc = W_None | W_Wait | W_Drain nat | W_Release nat | W_Fail video_error | W_Exit

record submit_timing =
  st_capture_us :: int
  st_conversion_us :: int
  st_resource_map_us :: int
  st_picture_setup_us :: int
  st_encode_submit_us :: int

record drain_timing =
  dt_output_dispatch_us :: int
  dt_bitstream_lock_wait_us :: int
  dt_bitstream_write_us :: int
  dt_resource_release_us :: int
  dt_encode_us :: int
  dt_pipeline_us :: int
  dt_slot_lifetime_us :: int

record frame_calls =
  fc_invalidate_ok :: bool
  fc_grab_ok :: bool
  fc_same_geometry :: bool
  fc_is_new :: bool
  fc_launch_ok :: bool
  fc_map_ok :: bool
  fc_encode_ok :: bool
  fc_timing :: submit_timing
  fc_late :: bool

record drain_calls =
  dc_lock_ok :: bool
  dc_reference_ok :: bool
  dc_write_ok :: bool
  dc_unlock_ok :: bool
  dc_unmap_ok :: bool
  dc_timing :: drain_timing

record pipeline_config =
  pc_options :: video_options
  pc_output :: "nat \<Rightarrow> nat \<times> bytes"

record pipeline_state =
  ps_main :: main_pc
  ps_worker :: worker_pc
  pending_slots :: "nat list"
  slot_in_use :: "nat \<Rightarrow> bool"
  input_done :: bool
  worker_error :: "video_error option"
  slot_picture :: "nat \<Rightarrow> nat"
  slot_mapped :: "nat \<Rightarrow> bool"
  slot_locked :: "nat \<Rightarrow> bool"
  bitstream_file :: bytes
  reference_bitstream_file :: bytes
  new_frames :: nat
  deadline_misses :: nat
  bitstream_frames_written :: nat
  bitstream_frames_dropped :: nat
  reference_invalidation_called :: bool
  forced_idr_submitted :: bool
  encoded_bytes :: u64
  submit_timings :: "submit_timing list"
  drain_timings :: "drain_timing list"

definition pipeline_initial :: "pipeline_config \<Rightarrow> pipeline_state" where
  "pipeline_initial c = \<lparr>ps_main = M_Loop 0,
     ps_worker = (if queue_depth (pc_options c) = 1 then W_Wait else W_None),
     pending_slots = [], slot_in_use = (\<lambda>_. False), input_done = False, worker_error = None,
     slot_picture = (\<lambda>_. 0), slot_mapped = (\<lambda>_. False), slot_locked = (\<lambda>_. False),
     bitstream_file = [], reference_bitstream_file = [], new_frames = 0, deadline_misses = 0,
     bitstream_frames_written = 0, bitstream_frames_dropped = 0,
     reference_invalidation_called = False, forced_idr_submitted = False, encoded_bytes = 0,
     submit_timings = [], drain_timings = []\<rparr>"

section \<open>Operations\<close>

definition drain_slot ::
  "pipeline_config \<Rightarrow> drain_calls \<Rightarrow> nat \<Rightarrow> pipeline_state \<Rightarrow> video_error option \<times> pipeline_state" where
  "drain_slot c r slot s =
     (if \<not> dc_lock_ok r then (Some E_Lock, s)
      else
        let s1 = s\<lparr>slot_locked := (slot_locked s)(slot := True)\<rparr>;
            stamp = fst (pc_output c (slot_picture s slot));
            data = snd (pc_output c (slot_picture s slot));
            reference = (reference_bitstream_path (pc_options c) \<noteq> []);
            loss = simulate_loss_frame (pc_options c)
        in if reference \<and> \<not> dc_reference_ok r then (Some E_Reference_Write, s1)
        else
          let s2 = (if reference
                    then s1\<lparr>reference_bitstream_file := reference_bitstream_file s1 @ data\<rparr> else s1);
              lost = (loss \<noteq> 0 \<and> stamp = loss)
          in if \<not> lost \<and> \<not> dc_write_ok r then (Some E_Write, s2)
          else
            let s3 = (if lost
                then s2\<lparr>bitstream_frames_dropped := bitstream_frames_dropped s2 + 1\<rparr>
                else s2\<lparr>bitstream_file := bitstream_file s2 @ data,
                        bitstream_frames_written := bitstream_frames_written s2 + 1,
                        encoded_bytes := encoded_bytes s2 + of_nat (length data)\<rparr>)
            in if \<not> dc_unlock_ok r then (Some E_Unlock, s3)
            else
              let s4 = s3\<lparr>slot_locked := (slot_locked s3)(slot := False)\<rparr>
              in if \<not> dc_unmap_ok r then (Some E_Unmap, s4)
              else (None, s4\<lparr>slot_mapped := (slot_mapped s4)(slot := False),
                             drain_timings := drain_timings s4 @ [dc_timing r]\<rparr>))"

definition submit_frame ::
  "pipeline_config \<Rightarrow> frame_calls \<Rightarrow> nat \<Rightarrow> pipeline_state \<Rightarrow> video_error option \<times> pipeline_state" where
  "submit_frame c r frame s =
     (let frame_id = frame + 1;
          slot = frame mod 2;
          opts = pc_options c;
          invalidate = (recovers opts \<and> frame_id = simulate_loss_frame opts + invalidate_delay_frames opts)
      in if invalidate \<and> \<not> fc_invalidate_ok r then (Some E_Invalidate, s)
      else
        let s1 = (if invalidate then s\<lparr>reference_invalidation_called := True\<rparr> else s)
        in if \<not> fc_grab_ok r then (Some E_Grab, s1)
        else if \<not> fc_same_geometry r then (Some E_Geometry, s1)
        else
          let s2 = s1\<lparr>new_frames := new_frames s1 + (if fc_is_new r then 1 else 0)\<rparr>
          in if \<not> fc_launch_ok r then (Some E_Launch, s2)
          else if \<not> fc_map_ok r then (Some E_Map, s2)
          else
            let s3 = s2\<lparr>slot_mapped := (slot_mapped s2)(slot := True)\<rparr>;
                s4 = (if frame_id = force_idr_frame opts then s3\<lparr>forced_idr_submitted := True\<rparr> else s3)
            in if \<not> fc_encode_ok r then (Some E_Encode, s4)
            else (None, s4\<lparr>slot_picture := (slot_picture s4)(slot := frame_id),
                           submit_timings := submit_timings s4 @ [fc_timing r]\<rparr>))"

section \<open>The capture thread\<close>

text \<open>Whether the thread can run: the wait for a free slot and the two joins block.\<close>

definition main_enabled :: "pipeline_config \<Rightarrow> pipeline_state \<Rightarrow> bool" where
  "main_enabled c s = (case ps_main s of
     M_Loop frame \<Rightarrow> frame_count (pc_options c) \<le> frame \<or> queue_depth (pc_options c) \<noteq> 1 \<or>
       \<not> slot_in_use s (frame mod 2) \<or> worker_error s \<noteq> None
   | M_Join \<Rightarrow> ps_worker s = W_Exit
   | M_Unwind_Join \<Rightarrow> ps_worker s = W_Exit
   | M_Done \<Rightarrow> False
   | M_Thrown \<Rightarrow> False
   | _ \<Rightarrow> True)"

definition main_step ::
  "pipeline_config \<Rightarrow> frame_calls \<Rightarrow> drain_calls \<Rightarrow> pipeline_state \<Rightarrow> pipeline_state" where
  "main_step c r d s =
     (let threaded = (queue_depth (pc_options c) = 1) in
      case ps_main s of
        M_Loop frame \<Rightarrow>
          if frame_count (pc_options c) \<le> frame then s\<lparr>ps_main := M_Finish\<rparr>
          else if threaded \<and> worker_error s \<noteq> None then s\<lparr>ps_main := M_Unwind\<rparr>
          else s\<lparr>ps_main := M_Frame frame\<rparr>
      | M_Frame frame \<Rightarrow>
          (case submit_frame c r frame s of
             (Some _, s') \<Rightarrow> s'\<lparr>ps_main := M_Unwind\<rparr>
           | (None, s') \<Rightarrow> s'\<lparr>ps_main := M_Output frame\<rparr>)
      | M_Output frame \<Rightarrow>
          let late = (\<lambda>t. t\<lparr>ps_main := M_Loop (frame + 1),
                deadline_misses := deadline_misses t + (if fc_late r then 1 else 0)\<rparr>) in
          if threaded
          then late (s\<lparr>slot_in_use := (slot_in_use s)(frame mod 2 := True),
                       pending_slots := pending_slots s @ [frame mod 2]\<rparr>)
          else (case drain_slot c d (frame mod 2) s of
             (Some _, s') \<Rightarrow> s'\<lparr>ps_main := M_Unwind\<rparr>
           | (None, s') \<Rightarrow> late s')
      | M_Finish \<Rightarrow>
          if threaded then s\<lparr>input_done := True, ps_main := M_Join\<rparr> else s\<lparr>ps_main := M_Done\<rparr>
      | M_Join \<Rightarrow> s\<lparr>ps_main := (if worker_error s = None then M_Done else M_Thrown)\<rparr>
      | M_Unwind \<Rightarrow>
          if threaded then s\<lparr>input_done := True, ps_main := M_Unwind_Join\<rparr>
          else s\<lparr>ps_main := M_Thrown\<rparr>
      | M_Unwind_Join \<Rightarrow> s\<lparr>ps_main := M_Thrown\<rparr>
      | _ \<Rightarrow> s)"

section \<open>The output worker\<close>

definition worker_enabled :: "pipeline_state \<Rightarrow> bool" where
  "worker_enabled s = (case ps_worker s of
     W_Wait \<Rightarrow> input_done s \<or> pending_slots s \<noteq> []
   | W_Drain _ \<Rightarrow> True
   | W_Release _ \<Rightarrow> True
   | W_Fail _ \<Rightarrow> True
   | _ \<Rightarrow> False)"

definition worker_step :: "pipeline_config \<Rightarrow> drain_calls \<Rightarrow> pipeline_state \<Rightarrow> pipeline_state" where
  "worker_step c d s = (case ps_worker s of
     W_Wait \<Rightarrow>
       (case pending_slots s of
          [] \<Rightarrow> s\<lparr>ps_worker := W_Exit\<rparr>
        | slot # rest \<Rightarrow> s\<lparr>ps_worker := W_Drain slot, pending_slots := rest\<rparr>)
   | W_Drain slot \<Rightarrow>
       (case drain_slot c d slot s of
          (Some e, s') \<Rightarrow> s'\<lparr>ps_worker := W_Fail e\<rparr>
        | (None, s') \<Rightarrow> s'\<lparr>ps_worker := W_Release slot\<rparr>)
   | W_Release slot \<Rightarrow> s\<lparr>ps_worker := W_Wait, slot_in_use := (slot_in_use s)(slot := False)\<rparr>
   | W_Fail e \<Rightarrow> s\<lparr>ps_worker := W_Exit, worker_error := Some e, input_done := True\<rparr>
   | _ \<Rightarrow> s)"

inductive pipeline_step :: "pipeline_config \<Rightarrow> pipeline_state \<Rightarrow> pipeline_state \<Rightarrow> bool"
  for c :: pipeline_config where
  capture_thread: "main_enabled c s \<Longrightarrow> pipeline_step c s (main_step c r d s)"
| output_thread: "worker_enabled s \<Longrightarrow> pipeline_step c s (worker_step c d s)"

inductive_cases pipeline_stepE: "pipeline_step c s t"

section \<open>What the operations leave alone\<close>

lemma drain_slot_frame [simp]:
  "ps_main (snd (drain_slot c r slot s)) = ps_main s"
  "ps_worker (snd (drain_slot c r slot s)) = ps_worker s"
  "pending_slots (snd (drain_slot c r slot s)) = pending_slots s"
  "slot_in_use (snd (drain_slot c r slot s)) = slot_in_use s"
  "input_done (snd (drain_slot c r slot s)) = input_done s"
  "worker_error (snd (drain_slot c r slot s)) = worker_error s"
  "slot_picture (snd (drain_slot c r slot s)) = slot_picture s"
  by (simp_all add: drain_slot_def Let_def)

lemma drain_slot_count [simp]:
  "length (drain_timings (snd (drain_slot c r slot s))) =
    length (drain_timings s) + (if fst (drain_slot c r slot s) = None then 1 else 0)"
  by (simp add: drain_slot_def Let_def)

lemma submit_frame_frame [simp]:
  "ps_main (snd (submit_frame c r frame s)) = ps_main s"
  "ps_worker (snd (submit_frame c r frame s)) = ps_worker s"
  "pending_slots (snd (submit_frame c r frame s)) = pending_slots s"
  "slot_in_use (snd (submit_frame c r frame s)) = slot_in_use s"
  "input_done (snd (submit_frame c r frame s)) = input_done s"
  "worker_error (snd (submit_frame c r frame s)) = worker_error s"
  "drain_timings (snd (submit_frame c r frame s)) = drain_timings s"
  "bitstream_file (snd (submit_frame c r frame s)) = bitstream_file s"
  "reference_bitstream_file (snd (submit_frame c r frame s)) = reference_bitstream_file s"
  "bitstream_frames_written (snd (submit_frame c r frame s)) = bitstream_frames_written s"
  "bitstream_frames_dropped (snd (submit_frame c r frame s)) = bitstream_frames_dropped s"
  "encoded_bytes (snd (submit_frame c r frame s)) = encoded_bytes s"
  by (simp_all add: submit_frame_def Let_def)

lemma submit_frame_picture [simp]:
  "slot_picture (snd (submit_frame c r frame s)) =
    (if fst (submit_frame c r frame s) = None then (slot_picture s)(frame mod 2 := Suc frame)
     else slot_picture s)"
  by (simp add: submit_frame_def Let_def)

section \<open>The output\<close>

text \<open>NVENC gives the time stamp of the picture that was submitted with a bitstream buffer.\<close>

definition stamps_kept :: "pipeline_config \<Rightarrow> bool" where
  "stamps_kept c \<longleftrightarrow> (\<forall>k. fst (pc_output c k) = k)"

definition frame_kept :: "pipeline_config \<Rightarrow> nat \<Rightarrow> bool" where
  "frame_kept c k \<longleftrightarrow> simulate_loss_frame (pc_options c) \<noteq> k"

text \<open>The frames \<^verbatim>\<open>1\<close> to \<^verbatim>\<open>d\<close> have been drained in this order: so many timing samples were taken, and,
  when the encoder keeps the time stamps, the files and the counters show exactly these frames.\<close>

definition stream :: "pipeline_config \<Rightarrow> nat \<Rightarrow> bytes" where
  "stream c d = concat (map (\<lambda>k. snd (pc_output c k)) (filter (frame_kept c) [1..<Suc d]))"

definition full_stream :: "pipeline_config \<Rightarrow> nat \<Rightarrow> bytes" where
  "full_stream c d = concat (map (\<lambda>k. snd (pc_output c k)) [1..<Suc d])"

definition lost_by :: "pipeline_config \<Rightarrow> nat \<Rightarrow> nat" where
  "lost_by c d = (if simulate_loss_frame (pc_options c) \<in> {1..d} then 1 else 0)"

definition outputs :: "pipeline_config \<Rightarrow> nat \<Rightarrow> pipeline_state \<Rightarrow> bool" where
  "outputs c d s \<longleftrightarrow>
     bitstream_file s = stream c d \<and>
     reference_bitstream_file s = (if reference_bitstream_path (pc_options c) = [] then [] else full_stream c d) \<and>
     bitstream_frames_dropped s = lost_by c d \<and> bitstream_frames_written s + lost_by c d = d \<and>
     encoded_bytes s = of_nat (length (stream c d))"

definition drained :: "pipeline_config \<Rightarrow> nat \<Rightarrow> pipeline_state \<Rightarrow> bool" where
  "drained c d s \<longleftrightarrow> length (drain_timings s) = d \<and> (stamps_kept c \<longrightarrow> outputs c d s)"

lemma stream_Suc:
  "stream c (Suc d) = stream c d @ (if frame_kept c (Suc d) then snd (pc_output c (Suc d)) else [])"
  "full_stream c (Suc d) = full_stream c d @ snd (pc_output c (Suc d))"
  by (simp_all add: stream_def full_stream_def)

lemma lost_by_Suc: "lost_by c (Suc d) = lost_by c d + (if frame_kept c (Suc d) then 0 else 1)"
  by (auto simp: lost_by_def frame_kept_def)

lemma drained_cong:
  "drain_timings t = drain_timings s \<Longrightarrow> bitstream_file t = bitstream_file s \<Longrightarrow>
    reference_bitstream_file t = reference_bitstream_file s \<Longrightarrow>
    bitstream_frames_written t = bitstream_frames_written s \<Longrightarrow>
    bitstream_frames_dropped t = bitstream_frames_dropped s \<Longrightarrow> encoded_bytes t = encoded_bytes s \<Longrightarrow>
    drained c d t = drained c d s"
  by (simp add: drained_def outputs_def)

lemma drained_other [simp]:
  "drained c d (s\<lparr>ps_main := m\<rparr>) = drained c d s" "drained c d (s\<lparr>ps_worker := w\<rparr>) = drained c d s"
  "drained c d (s\<lparr>slot_in_use := u\<rparr>) = drained c d s" "drained c d (s\<lparr>pending_slots := q\<rparr>) = drained c d s"
  "drained c d (s\<lparr>input_done := b\<rparr>) = drained c d s" "drained c d (s\<lparr>worker_error := e\<rparr>) = drained c d s"
  "drained c d (s\<lparr>deadline_misses := k\<rparr>) = drained c d s"
  "drained c d (snd (submit_frame c r frame s)) = drained c d s"
  by (rule drained_cong; simp)+

lemma drain_slot_outputs:
  assumes "fst (drain_slot c r slot s) = None" "outputs c d s" "slot_picture s slot = Suc d" "stamps_kept c"
  shows "outputs c (Suc d) (snd (drain_slot c r slot s))"
proof -
  have st: "fst (pc_output c (Suc d)) = Suc d" using assms(4) by (simp add: stamps_kept_def)
  have ok: "dc_lock_ok r" "dc_unlock_ok r" "dc_unmap_ok r"
    "reference_bitstream_path (pc_options c) = [] \<or> dc_reference_ok r"
    "simulate_loss_frame (pc_options c) = Suc d \<or> dc_write_ok r"
    using assms(1) by (auto simp: drain_slot_def Let_def assms(3) st split: if_split_asm)
  show ?thesis
    using assms(2) ok
    by (cases "simulate_loss_frame (pc_options c) = Suc d";
        cases "reference_bitstream_path (pc_options c) = []")
       (simp_all add: drain_slot_def Let_def assms(3) st outputs_def stream_Suc lost_by_Suc
         frame_kept_def)
qed

lemma drain_slot_drained:
  "fst (drain_slot c r slot s) = None \<Longrightarrow> drained c d s \<Longrightarrow> slot_picture s slot = Suc d \<Longrightarrow>
    drained c (Suc d) (snd (drain_slot c r slot s))"
  by (simp add: drained_def drain_slot_outputs)

end
