(* ===== verification/Video_Threads.thy ===== *)
theory Video_Threads
  imports Video_Pipeline
begin

text \<open>
  The two-thread encode loop is correct: an invariant that relates the queue, the slot flags and the
  pictures in the slots to the number of frames submitted and drained, kept by every step of either
  thread; absence of deadlock; termination; and what the files hold at the end. The blocking mode
  (queue depth 0) is covered by a second, simpler invariant.
\<close>

section \<open>Frames in flight\<close>

text \<open>Frames \<^verbatim>\<open>a\<close> to \<^verbatim>\<open>b - 1\<close> occupy the slots of their parity; at most two fit.\<close>

definition in_flight :: "nat \<Rightarrow> nat \<Rightarrow> nat \<Rightarrow> bool" where
  "in_flight a b i \<longleftrightarrow> (\<exists>k. a \<le> k \<and> k < b \<and> k mod 2 = i)"

lemma in_flight_empty [simp]: "in_flight a a = (\<lambda>_. False)"
  by (rule ext) (auto simp: in_flight_def)

lemma in_flight_push: "a \<le> b \<Longrightarrow> (in_flight a b)(b mod 2 := True) = in_flight a (Suc b)"
  by (rule ext) (auto simp: in_flight_def less_Suc_eq)

lemma slot_free_room:
  assumes "\<not> in_flight a b (b mod 2)" "a \<le> b"
  shows "Suc b \<le> a + 2"
proof (rule ccontr)
  assume "\<not> Suc b \<le> a + 2"
  then have "a \<le> b - 2 \<and> b - 2 < b \<and> (b - 2) mod 2 = b mod 2" by (auto simp: mod_if [of b])
  then show False using assms(1) unfolding in_flight_def by blast
qed

lemma in_flight_release:
  assumes "b \<le> a + 2" "a < b"
  shows "(in_flight a b)(a mod 2 := False) = in_flight (Suc a) b"
proof (rule ext)
  fix i
  have a: "in_flight a b i \<longleftrightarrow> a mod 2 = i \<or> (Suc a < b \<and> Suc a mod 2 = i)"
    using assms unfolding in_flight_def by (auto simp: le_less Suc_le_eq less_Suc_eq numeral_2_eq_2)
  have b: "in_flight (Suc a) b i \<longleftrightarrow> Suc a < b \<and> Suc a mod 2 = i"
    using assms unfolding in_flight_def by (auto simp: le_less Suc_le_eq less_Suc_eq numeral_2_eq_2)
  have "Suc a mod 2 \<noteq> a mod 2" by (simp add: mod_Suc)
  then show "((in_flight a b)(a mod 2 := False)) i = in_flight (Suc a) b i"
    using a b by auto
qed

lemma in_flight_self: "a < b \<Longrightarrow> in_flight a b (a mod 2)"
  by (auto simp: in_flight_def)

section \<open>The threaded invariant\<close>

text \<open>\<^verbatim>\<open>d\<close> frames have been drained, \<^verbatim>\<open>b\<close> have been queued.\<close>

definition released :: "pipeline_state \<Rightarrow> nat \<Rightarrow> nat" where
  "released s d = (case ps_worker s of W_Release _ \<Rightarrow> d - 1 | _ \<Rightarrow> d)"

definition worker_inv :: "pipeline_config \<Rightarrow> nat \<Rightarrow> nat \<Rightarrow> pipeline_state \<Rightarrow> bool" where
  "worker_inv c d b s = (case ps_worker s of
     W_None \<Rightarrow> False
   | W_Wait \<Rightarrow> d \<le> b \<and> pending_slots s = map (\<lambda>k. k mod 2) [d..<b] \<and> worker_error s = None
   | W_Drain k \<Rightarrow> d < b \<and> k = d mod 2 \<and> pending_slots s = map (\<lambda>k. k mod 2) [Suc d..<b] \<and>
       worker_error s = None
   | W_Release k \<Rightarrow> 0 < d \<and> d \<le> b \<and> k = (d - 1) mod 2 \<and>
       pending_slots s = map (\<lambda>k. k mod 2) [d..<b] \<and> worker_error s = None
   | W_Fail e \<Rightarrow> d < b \<and> worker_error s = None
   | W_Exit \<Rightarrow> input_done s \<and>
       (worker_error s = None \<and> d = b \<and> pending_slots s = [] \<or> worker_error s \<noteq> None \<and> d < b))"

definition main_inv :: "pipeline_config \<Rightarrow> nat \<Rightarrow> pipeline_state \<Rightarrow> bool" where
  "main_inv c b s = (case ps_main s of
     M_Loop f \<Rightarrow> b = f \<and> f \<le> frame_count (pc_options c)
   | M_Frame f \<Rightarrow> b = f \<and> f < frame_count (pc_options c) \<and> \<not> slot_in_use s (f mod 2)
   | M_Output f \<Rightarrow> b = f \<and> f < frame_count (pc_options c) \<and> \<not> slot_in_use s (f mod 2) \<and>
       slot_picture s (f mod 2) = Suc f
   | M_Finish \<Rightarrow> b = frame_count (pc_options c)
   | M_Join \<Rightarrow> b = frame_count (pc_options c)
   | M_Unwind \<Rightarrow> True
   | M_Unwind_Join \<Rightarrow> True
   | M_Done \<Rightarrow> b = frame_count (pc_options c) \<and> ps_worker s = W_Exit \<and> worker_error s = None
   | M_Thrown \<Rightarrow> ps_worker s = W_Exit)"

definition closing :: "main_pc \<Rightarrow> bool" where
  "closing m \<longleftrightarrow> m \<in> {M_Join, M_Unwind_Join, M_Done, M_Thrown}"

definition worker_failed :: "pipeline_state \<Rightarrow> bool" where
  "worker_failed s \<longleftrightarrow> worker_error s \<noteq> None \<or> (\<exists>e. ps_worker s = W_Fail e)"

definition threaded_inv :: "pipeline_config \<Rightarrow> nat \<Rightarrow> nat \<Rightarrow> pipeline_state \<Rightarrow> bool" where
  "threaded_inv c d b s \<longleftrightarrow>
     d = length (drain_timings s) \<and> worker_inv c d b s \<and> main_inv c b s \<and>
     slot_in_use s = in_flight (released s d) b \<and> b \<le> released s d + 2 \<and>
     (\<forall>k. released s d \<le> k \<and> k < b \<longrightarrow> slot_picture s (k mod 2) = Suc k) \<and>
     (closing (ps_main s) \<longrightarrow> input_done s) \<and>
     (input_done s \<longrightarrow> closing (ps_main s) \<or> worker_error s \<noteq> None) \<and>
     (worker_failed s \<or> drained c d s)"

lemmas threaded_defs = threaded_inv_def worker_inv_def main_inv_def released_def worker_failed_def closing_def

lemma threaded_invD:
  assumes "threaded_inv c d b s"
  shows "d = length (drain_timings s)" "worker_inv c d b s" "main_inv c b s"
    "slot_in_use s = in_flight (released s d) b" "b \<le> released s d + 2"
    "released s d \<le> k \<Longrightarrow> k < b \<Longrightarrow> slot_picture s (k mod 2) = Suc k"
    "closing (ps_main s) \<Longrightarrow> input_done s"
    "input_done s \<Longrightarrow> closing (ps_main s) \<or> worker_error s \<noteq> None"
    "worker_failed s \<or> drained c d s"
  using assms unfolding threaded_inv_def by blast+

lemma worker_inv_cong:
  assumes "worker_inv c d b s" "ps_worker t = ps_worker s" "pending_slots t = pending_slots s"
    "worker_error t = worker_error s" "input_done s \<Longrightarrow> input_done t"
  shows "worker_inv c d b t"
  using assms unfolding worker_inv_def by (cases "ps_worker s") auto

lemma released_le: "worker_inv c d b s \<Longrightarrow> released s d \<le> b"
  by (auto simp: worker_inv_def released_def split: worker_pc.split_asm)

lemma drained_initial: "drained c 0 (pipeline_initial c)"
  by (simp add: drained_def outputs_def pipeline_initial_def stream_def full_stream_def lost_by_def)

lemma threaded_initial:
  "queue_depth (pc_options c) = 1 \<Longrightarrow> threaded_inv c 0 0 (pipeline_initial c)"
  using drained_initial [of c] by (simp add: threaded_defs pipeline_initial_def)

subsection \<open>Steps of the capture thread\<close>

text \<open>A step that only moves the thread and possibly closes the input.\<close>

lemma threaded_move:
  assumes "threaded_inv c d b s" and t: "t = s\<lparr>input_done := i, ps_main := m\<rparr>"
    and "main_inv c b (s\<lparr>input_done := i, ps_main := m\<rparr>)"
    and "closing m \<Longrightarrow> i" "i \<Longrightarrow> closing m \<or> worker_error s \<noteq> None" "input_done s \<Longrightarrow> i"
  shows "\<exists>d' b'. threaded_inv c d' b' t"
proof -
  have "worker_inv c d b t"
    by (rule worker_inv_cong [OF threaded_invD(2) [OF assms(1)]]) (simp_all add: assms(2,6))
  then have "threaded_inv c d b t"
    using threaded_invD [OF assms(1)] assms(3-6)
    unfolding threaded_inv_def released_def worker_failed_def assms(2) by simp
  then show ?thesis by blast
qed

lemma threaded_submit:
  assumes inv: "threaded_inv c d b s" and pc: "ps_main s = M_Frame f"
    and m: "m = (if fst (submit_frame c r f s) = None then M_Output f else M_Unwind)"
  shows "threaded_inv c d b ((snd (submit_frame c r f s))\<lparr>ps_main := m\<rparr>)"
    (is "threaded_inv c d b ?t")
proof -
  have f: "\<not> in_flight (released s d) b (f mod 2)" "b = f" "f < frame_count (pc_options c)"
    using inv pc by (auto simp: threaded_inv_def main_inv_def)
  have other: "k mod 2 \<noteq> f mod 2" if "released s d \<le> k" "k < b" for k
    using f(1) that unfolding in_flight_def by auto
  have "worker_inv c d b ?t"
    by (rule worker_inv_cong [OF threaded_invD(2) [OF inv]]) simp_all
  moreover have "main_inv c b ?t"
    using inv f pc unfolding threaded_inv_def main_inv_def m by simp
  moreover have "slot_picture ?t (k mod 2) = Suc k" if "released s d \<le> k" "k < b" for k
    using threaded_invD(6) [OF inv that] other [OF that] by simp
  moreover have "\<not> closing m" "\<not> closing (ps_main s)" using pc by (simp_all add: m closing_def)
  moreover have "released ?t d = released s d" by (simp add: released_def)
  ultimately show ?thesis
    using threaded_invD [OF inv] unfolding threaded_inv_def worker_failed_def by simp
qed

lemma threaded_push:
  assumes inv: "threaded_inv c d b s" and pc: "ps_main s = M_Output f"
    and t: "t = s\<lparr>slot_in_use := (slot_in_use s)(f mod 2 := True),
      pending_slots := pending_slots s @ [f mod 2], ps_main := M_Loop (f + 1), deadline_misses := k0\<rparr>"
  shows "threaded_inv c d (Suc b) t"
proof -
  have f: "b = f" "f < frame_count (pc_options c)" "slot_picture s (f mod 2) = Suc f"
    "\<not> in_flight (released s d) b (b mod 2)"
    using threaded_invD(3,4) [OF inv] pc by (auto simp: main_inv_def)
  note w = threaded_invD(2) [OF inv]
  note rel = released_le [OF w]
  have no_exit: "ps_worker s = W_Exit \<Longrightarrow> worker_error s \<noteq> None"
    using w threaded_invD(8) [OF inv] pc by (auto simp: worker_inv_def closing_def)
  have same: "released t d = released s d" by (simp add: released_def t)
  have "worker_inv c d (Suc b) t"
    using w no_exit unfolding worker_inv_def t f(1) [symmetric] by (cases "ps_worker s") auto
  moreover have "main_inv c (Suc b) t" using f by (simp add: main_inv_def t)
  moreover have "slot_in_use t = in_flight (released t d) (Suc b)"
    using threaded_invD(4) [OF inv] in_flight_push [OF rel] f(1) unfolding same by (simp add: t)
  moreover have "Suc b \<le> released t d + 2" using slot_free_room [OF f(4) rel] same by simp
  moreover have "slot_picture t (k mod 2) = Suc k" if "released t d \<le> k" "k < Suc b" for k
  proof (cases "k = b")
    case False
    then show ?thesis using threaded_invD(6) [OF inv, of k] that unfolding same by (simp add: t)
  qed (simp add: f t)
  moreover have "\<not> closing (ps_main s)" "\<not> closing (ps_main t)" using pc by (simp_all add: closing_def t)
  moreover have "worker_failed t \<or> drained c d t"
    using threaded_invD(9) [OF inv] by (simp add: worker_failed_def t)
  ultimately show ?thesis
    using threaded_invD(1,8) [OF inv] unfolding threaded_inv_def by (simp add: t)
qed

lemma main_step_frame:
  assumes "ps_main s = M_Frame f"
  shows "main_step c r dc s = (snd (submit_frame c r f s))\<lparr>ps_main :=
      (if fst (submit_frame c r f s) = None then M_Output f else M_Unwind)\<rparr>"
proof -
  obtain e t where e: "submit_frame c r f s = (e, t)" by fastforce
  show ?thesis by (cases e) (simp_all add: main_step_def assms e)
qed

lemma main_step_output:
  assumes "ps_main s = M_Output f" "queue_depth (pc_options c) = 1"
  shows "\<exists>k. main_step c r dc s = s\<lparr>slot_in_use := (slot_in_use s)(f mod 2 := True),
      pending_slots := pending_slots s @ [f mod 2], ps_main := M_Loop (f + 1), deadline_misses := k\<rparr>"
  by (rule exI [of _ "deadline_misses s + (if fc_late r then 1 else 0)"])
     (simp add: main_step_def assms Let_def)

lemma threaded_main:
  assumes inv: "threaded_inv c d b s" and en: "main_enabled c s" and q: "queue_depth (pc_options c) = 1"
  shows "\<exists>d' b'. threaded_inv c d' b' (main_step c r dc s)"
proof (cases "ps_main s")
  case (M_Loop f)
  have b: "b = f" "f \<le> frame_count (pc_options c)"
    using threaded_invD(3) [OF inv] M_Loop by (auto simp: main_inv_def)
  have i: "input_done s \<Longrightarrow> worker_error s \<noteq> None"
    using threaded_invD(8) [OF inv] M_Loop by (auto simp: closing_def)
  define m where "m = (if frame_count (pc_options c) \<le> f then M_Finish
    else if worker_error s \<noteq> None then M_Unwind else M_Frame f)"
  show ?thesis
  proof (rule threaded_move [OF inv])
    show "main_step c r dc s = s\<lparr>input_done := input_done s, ps_main := m\<rparr>"
      using M_Loop q by (simp add: main_step_def m_def)
    show "main_inv c b (s\<lparr>input_done := input_done s, ps_main := m\<rparr>)"
      using b en M_Loop q by (auto simp: main_inv_def m_def main_enabled_def)
  qed (use i in \<open>auto simp: m_def closing_def split: if_split_asm\<close>)
next
  case (M_Frame f)
  then show ?thesis using threaded_submit [OF inv M_Frame refl] main_step_frame [OF M_Frame] by metis
next
  case (M_Output f)
  then show ?thesis using threaded_push [OF inv M_Output] main_step_output [OF M_Output q] by blast
next
  case M_Finish
  show ?thesis
  proof (rule threaded_move [OF inv])
    show "main_step c r dc s = s\<lparr>input_done := True, ps_main := M_Join\<rparr>"
      using M_Finish q by (simp add: main_step_def)
    show "main_inv c b (s\<lparr>input_done := True, ps_main := M_Join\<rparr>)"
      using threaded_invD(3) [OF inv] M_Finish by (simp add: main_inv_def)
  qed (simp_all add: closing_def)
next
  case M_Join
  define m where "m = (if worker_error s = None then M_Done else M_Thrown)"
  have i: "input_done s" using threaded_invD(7) [OF inv] M_Join by (simp add: closing_def)
  show ?thesis
  proof (rule threaded_move [OF inv])
    show "main_step c r dc s = s\<lparr>input_done := True, ps_main := m\<rparr>"
      using M_Join i by (simp add: main_step_def m_def)
    show "main_inv c b (s\<lparr>input_done := True, ps_main := m\<rparr>)"
      using threaded_invD(3) [OF inv] en M_Join by (simp add: main_inv_def main_enabled_def m_def)
  qed (simp_all add: closing_def m_def)
next
  case M_Unwind
  show ?thesis
  proof (rule threaded_move [OF inv])
    show "main_step c r dc s = s\<lparr>input_done := True, ps_main := M_Unwind_Join\<rparr>"
      using M_Unwind q by (simp add: main_step_def)
  qed (simp_all add: closing_def main_inv_def)
next
  case M_Unwind_Join
  have i: "input_done s" using threaded_invD(7) [OF inv] M_Unwind_Join by (simp add: closing_def)
  show ?thesis
  proof (rule threaded_move [OF inv])
    show "main_step c r dc s = s\<lparr>input_done := True, ps_main := M_Thrown\<rparr>"
      using M_Unwind_Join i by (simp add: main_step_def)
    show "main_inv c b (s\<lparr>input_done := True, ps_main := M_Thrown\<rparr>)"
      using en M_Unwind_Join by (simp add: main_inv_def main_enabled_def)
  qed (simp_all add: closing_def)
qed (use en in \<open>auto simp: main_enabled_def\<close>)

subsection \<open>Steps of the output worker\<close>

lemma threaded_work:
  assumes inv: "threaded_inv c d b s" and live: "ps_worker s \<noteq> W_Exit"
    and same: "ps_main t = ps_main s" "slot_picture t = slot_picture s" "length (drain_timings t) = e"
    and w: "worker_inv c e b t" and use: "slot_in_use t = in_flight (released t e) b"
    and rel: "released s d \<le> released t e"
    and i: "input_done s \<Longrightarrow> input_done t" "input_done t \<Longrightarrow> closing (ps_main s) \<or> worker_error t \<noteq> None"
    and dr: "worker_failed t \<or> drained c e t"
  shows "\<exists>d' b'. threaded_inv c d' b' t"
proof -
  have sub: "slot_in_use t k \<Longrightarrow> slot_in_use s k" for k
    unfolding use threaded_invD(4) [OF inv] in_flight_def using order_trans [OF rel] by blast
  have "main_inv c b t"
    using threaded_invD(3) [OF inv] live sub same unfolding main_inv_def by (cases "ps_main s") auto
  moreover have "b \<le> released t e + 2" using threaded_invD(5) [OF inv] rel by simp
  moreover have "\<forall>k. released t e \<le> k \<and> k < b \<longrightarrow> slot_picture t (k mod 2) = Suc k"
    using threaded_invD(6) [OF inv] rel same(2) by auto
  moreover have "closing (ps_main t) \<longrightarrow> input_done t"
    using threaded_invD(7) [OF inv] i(1) same(1) by simp
  moreover have "input_done t \<longrightarrow> closing (ps_main t) \<or> worker_error t \<noteq> None"
    using i(2) same(1) by simp
  ultimately have "threaded_inv c e b t"
    unfolding threaded_inv_def using same(3) w use dr by simp
  then show ?thesis by blast
qed

lemma threaded_worker:
  assumes inv: "threaded_inv c d b s" and en: "worker_enabled s"
  shows "\<exists>d' b'. threaded_inv c d' b' (worker_step c dc s)"
proof -
  note D = threaded_invD [OF inv]
  have live: "ps_worker s \<noteq> W_Exit" using en by (auto simp: worker_enabled_def)
  show ?thesis
  proof (cases "ps_worker s")
    case W_Wait
    then have w: "d \<le> b" "pending_slots s = map (\<lambda>k. k mod 2) [d..<b]" "worker_error s = None" "released s d = d"
      using D(2) by (simp_all add: worker_inv_def released_def)
    have dr: "drained c d s" using D(9) w W_Wait by (simp add: worker_failed_def)
    show ?thesis
    proof (cases "d < b")
      case True
      then have q: "pending_slots s = d mod 2 # map (\<lambda>k. k mod 2) [Suc d..<b]"
        using w(2) by (simp add: upt_conv_Cons)
      let ?t = "s\<lparr>ps_worker := W_Drain (d mod 2), pending_slots := map (\<lambda>k. k mod 2) [Suc d..<b]\<rparr>"
      have "worker_step c dc s = ?t" using W_Wait q by (simp add: worker_step_def)
      moreover have "\<exists>d' b'. threaded_inv c d' b' ?t"
        by (rule threaded_work [OF inv live, where e = d])
          (use D(1,4,8) w True dr in \<open>simp_all add: worker_inv_def released_def\<close>)
      ultimately show ?thesis by simp
    next
      case False
      then have q: "pending_slots s = []" "d = b" using w by simp_all
      let ?t = "s\<lparr>ps_worker := W_Exit\<rparr>"
      have i: "input_done s" using en q W_Wait by (simp add: worker_enabled_def)
      have "worker_step c dc s = ?t" using W_Wait q by (simp add: worker_step_def)
      moreover have "\<exists>d' b'. threaded_inv c d' b' ?t"
        by (rule threaded_work [OF inv live, where e = d])
          (use D(1,4,8) w q i dr in \<open>simp_all add: worker_inv_def released_def\<close>)
      ultimately show ?thesis by simp
    qed
  next
    case (W_Drain k)
    let ?t = "snd (drain_slot c dc k s)"
    have w: "k = d mod 2" "d < b" "pending_slots s = map (\<lambda>k. k mod 2) [Suc d..<b]" "worker_error s = None"
      "released s d = d"
      using D(2) W_Drain by (simp_all add: worker_inv_def released_def)
    have dr: "drained c d s" using D(9) w W_Drain by (simp add: worker_failed_def)
    have pic: "slot_picture s k = Suc d" using D(6) [of d] w by simp
    show ?thesis
    proof (cases "fst (drain_slot c dc k s)")
      case None
      then have "worker_step c dc s = ?t\<lparr>ps_worker := W_Release k\<rparr>"
        using W_Drain by (auto simp: worker_step_def split: prod.split)
      moreover have "\<exists>d' b'. threaded_inv c d' b' (?t\<lparr>ps_worker := W_Release k\<rparr>)"
        by (rule threaded_work [OF inv live, where e = "Suc d"])
          (use D(1,4,8) w None drain_slot_drained [OF None dr pic] in
            \<open>simp_all add: worker_inv_def released_def\<close>)
      ultimately show ?thesis by simp
    next
      case (Some er)
      then have "worker_step c dc s = ?t\<lparr>ps_worker := W_Fail er\<rparr>"
        using W_Drain by (auto simp: worker_step_def split: prod.split)
      moreover have "\<exists>d' b'. threaded_inv c d' b' (?t\<lparr>ps_worker := W_Fail er\<rparr>)"
        by (rule threaded_work [OF inv live, where e = d])
          (use D(1,4,8) w Some in \<open>simp_all add: worker_inv_def released_def worker_failed_def\<close>)
      ultimately show ?thesis by simp
    qed
  next
    case (W_Release k)
    let ?t = "s\<lparr>ps_worker := W_Wait, slot_in_use := (slot_in_use s)(k := False)\<rparr>"
    have w: "k = (d - 1) mod 2" "0 < d" "d \<le> b" "pending_slots s = map (\<lambda>k. k mod 2) [d..<b]"
      "worker_error s = None" "released s d = d - 1"
      using D(2) W_Release by (simp_all add: worker_inv_def released_def)
    have dr: "drained c d s" using D(9) w W_Release by (simp add: worker_failed_def)
    have "(in_flight (d - 1) b)(k := False) = in_flight d b"
      using in_flight_release [of b "d - 1"] w D(5) by simp
    then have u: "slot_in_use ?t = in_flight d b" using D(4) w(6) by simp
    have "worker_step c dc s = ?t" using W_Release by (simp add: worker_step_def)
    moreover have "\<exists>d' b'. threaded_inv c d' b' ?t"
      by (rule threaded_work [OF inv live, where e = d])
        (use D(1,8) w u dr in \<open>simp_all add: worker_inv_def released_def\<close>)
    ultimately show ?thesis by simp
  next
    case (W_Fail er)
    let ?t = "s\<lparr>ps_worker := W_Exit, worker_error := Some er, input_done := True\<rparr>"
    have "worker_step c dc s = ?t" using W_Fail by (simp add: worker_step_def)
    moreover have "\<exists>d' b'. threaded_inv c d' b' ?t"
      by (rule threaded_work [OF inv live, where e = d])
        (use D(1,2,4) W_Fail in \<open>simp_all add: worker_inv_def released_def worker_failed_def\<close>)
    ultimately show ?thesis by simp
  qed (use en in \<open>auto simp: worker_enabled_def\<close>)
qed

section \<open>The blocking invariant\<close>

definition blocking_inv :: "pipeline_config \<Rightarrow> pipeline_state \<Rightarrow> bool" where
  "blocking_inv c s \<longleftrightarrow> ps_worker s = W_None \<and>
     (case ps_main s of
        M_Loop f \<Rightarrow> f \<le> frame_count (pc_options c) \<and> drained c f s
      | M_Frame f \<Rightarrow> f < frame_count (pc_options c) \<and> drained c f s
      | M_Output f \<Rightarrow> f < frame_count (pc_options c) \<and> drained c f s \<and> slot_picture s (f mod 2) = Suc f
      | M_Finish \<Rightarrow> drained c (frame_count (pc_options c)) s
      | M_Done \<Rightarrow> drained c (frame_count (pc_options c)) s
      | M_Unwind \<Rightarrow> True
      | M_Thrown \<Rightarrow> True
      | _ \<Rightarrow> False)"

lemma main_step_drain:
  assumes "ps_main s = M_Output f" "queue_depth (pc_options c) \<noteq> 1"
  shows "\<exists>k. main_step c r dc s = (let t = snd (drain_slot c dc (f mod 2) s) in
    if fst (drain_slot c dc (f mod 2) s) = None
    then t\<lparr>ps_main := M_Loop (f + 1), deadline_misses := k\<rparr> else t\<lparr>ps_main := M_Unwind\<rparr>)"
proof -
  obtain e t where e: "drain_slot c dc (f mod 2) s = (e, t)" by fastforce
  show ?thesis
    by (rule exI [of _ "deadline_misses t + (if fc_late r then 1 else 0)"])
       (use assms in \<open>cases e; simp add: main_step_def e Let_def\<close>)
qed

lemma blocking_main:
  assumes inv: "blocking_inv c s" and q: "queue_depth (pc_options c) \<noteq> 1"
  shows "blocking_inv c (main_step c r dc s)"
proof (cases "ps_main s")
  case (M_Loop f)
  then have "frame_count (pc_options c) \<le> f \<Longrightarrow> f = frame_count (pc_options c)"
    using inv by (simp add: blocking_inv_def)
  then show ?thesis using inv q M_Loop by (auto simp: blocking_inv_def main_step_def)
next
  case (M_Frame f)
  then show ?thesis using inv unfolding main_step_frame [OF M_Frame] by (simp add: blocking_inv_def)
next
  case (M_Output f)
  obtain k where k: "main_step c r dc s = (let t = snd (drain_slot c dc (f mod 2) s) in
    if fst (drain_slot c dc (f mod 2) s) = None
    then t\<lparr>ps_main := M_Loop (f + 1), deadline_misses := k\<rparr> else t\<lparr>ps_main := M_Unwind\<rparr>)"
    using main_step_drain [OF M_Output q] by blast
  have "fst (drain_slot c dc (f mod 2) s) = None \<Longrightarrow> drained c (Suc f) (snd (drain_slot c dc (f mod 2) s))"
    by (rule drain_slot_drained) (use inv M_Output in \<open>simp_all add: blocking_inv_def\<close>)
  then show ?thesis using inv M_Output unfolding k by (simp add: blocking_inv_def Let_def)
qed (use inv q in \<open>simp_all add: blocking_inv_def main_step_def\<close>)

section \<open>Deadlock freedom and termination\<close>

definition pipeline_final :: "pipeline_state \<Rightarrow> bool" where
  "pipeline_final s \<longleftrightarrow> ps_main s \<in> {M_Done, M_Thrown}"

definition pipeline_inv :: "pipeline_config \<Rightarrow> pipeline_state \<Rightarrow> bool" where
  "pipeline_inv c s \<longleftrightarrow>
     (if queue_depth (pc_options c) = 1 then \<exists>d b. threaded_inv c d b s else blocking_inv c s)"

definition main_rank :: "pipeline_config \<Rightarrow> main_pc \<Rightarrow> nat" where
  "main_rank c m = (case m of
     M_Loop f \<Rightarrow> 10 * (frame_count (pc_options c) - f) + 6
   | M_Frame f \<Rightarrow> 10 * (frame_count (pc_options c) - f) + 5
   | M_Output f \<Rightarrow> 10 * (frame_count (pc_options c) - f) + 4
   | M_Finish \<Rightarrow> 5 | M_Join \<Rightarrow> 4 | M_Unwind \<Rightarrow> 2 | M_Unwind_Join \<Rightarrow> 1 | M_Done \<Rightarrow> 0 | M_Thrown \<Rightarrow> 0)"

definition worker_rank :: "worker_pc \<Rightarrow> nat" where
  "worker_rank w = (case w of
     W_None \<Rightarrow> 0 | W_Wait \<Rightarrow> 1 | W_Drain _ \<Rightarrow> 3 | W_Release _ \<Rightarrow> 2 | W_Fail _ \<Rightarrow> 1 | W_Exit \<Rightarrow> 0)"

definition pipeline_rank :: "pipeline_config \<Rightarrow> pipeline_state \<Rightarrow> nat" where
  "pipeline_rank c s =
     main_rank c (ps_main s) + worker_rank (ps_worker s) + 3 * length (pending_slots s)"

lemmas rank_defs = pipeline_rank_def main_rank_def worker_rank_def

lemma pipeline_inv_initial: "pipeline_inv c (pipeline_initial c)"
  using threaded_initial [of c] drained_initial [of c]
  by (auto simp: pipeline_inv_def blocking_inv_def pipeline_initial_def)

lemma pipeline_inv_step:
  assumes "pipeline_inv c s" "pipeline_step c s t"
  shows "pipeline_inv c t"
  using assms(2)
proof (cases rule: pipeline_step.cases)
  case (capture_thread r d)
  then show ?thesis
    using assms threaded_main blocking_main by (auto simp: pipeline_inv_def split: if_split_asm)
next
  case (output_thread d)
  have "ps_worker s \<noteq> W_None" using output_thread by (auto simp: worker_enabled_def)
  then show ?thesis
    using assms output_thread threaded_worker [of c _ _ s d]
    by (auto simp: pipeline_inv_def blocking_inv_def split: if_split_asm)
qed

lemma main_rank_less:
  assumes "pipeline_inv c s" "main_enabled c s"
  shows "pipeline_rank c (main_step c r dc s) < pipeline_rank c s"
proof (cases "ps_main s")
  case (M_Frame f)
  then show ?thesis unfolding main_step_frame [OF M_Frame] by (simp add: rank_defs)
next
  case (M_Output f)
  have f: "f < frame_count (pc_options c)"
    using assms(1) M_Output
    by (auto simp: pipeline_inv_def blocking_inv_def threaded_inv_def main_inv_def split: if_split_asm)
  show ?thesis
  proof (cases "queue_depth (pc_options c) = 1")
    case True
    obtain k where "main_step c r dc s = s\<lparr>slot_in_use := (slot_in_use s)(f mod 2 := True),
      pending_slots := pending_slots s @ [f mod 2], ps_main := M_Loop (f + 1), deadline_misses := k\<rparr>"
      using main_step_output [OF M_Output True] by blast
    then show ?thesis using M_Output f by (simp add: rank_defs)
  next
    case False
    obtain k where "main_step c r dc s = (let t = snd (drain_slot c dc (f mod 2) s) in
      if fst (drain_slot c dc (f mod 2) s) = None
      then t\<lparr>ps_main := M_Loop (f + 1), deadline_misses := k\<rparr> else t\<lparr>ps_main := M_Unwind\<rparr>)"
      using main_step_drain [OF M_Output False] by blast
    moreover have "10 * (frame_count (pc_options c) - f) = 10 * (frame_count (pc_options c) - Suc f) + 10"
      using f by simp
    ultimately show ?thesis using M_Output f by (simp add: rank_defs Let_def)
  qed
qed (use assms(2) in \<open>simp_all add: main_step_def rank_defs main_enabled_def Let_def\<close>)

lemma worker_rank_less:
  assumes "worker_enabled s"
  shows "pipeline_rank c (worker_step c dc s) < pipeline_rank c s"
proof (cases "ps_worker s")
  case W_Wait
  then show ?thesis by (cases "pending_slots s") (simp_all add: worker_step_def rank_defs)
next
  case (W_Drain k)
  obtain e t where e: "drain_slot c dc k s = (e, t)" by fastforce
  then have "ps_main t = ps_main s" "pending_slots t = pending_slots s"
    using drain_slot_frame(1,3) [of c dc k s] by simp_all
  then show ?thesis using W_Drain e by (cases e) (simp_all add: worker_step_def rank_defs)
qed (use assms in \<open>simp_all add: worker_step_def rank_defs worker_enabled_def\<close>)

lemma pipeline_progress:
  assumes "pipeline_inv c s" "\<not> pipeline_final s"
  shows "\<exists>t. pipeline_step c s t"
proof -
  have "main_enabled c s \<or> worker_enabled s"
  proof (cases "queue_depth (pc_options c) = 1")
    case False
    then show ?thesis using assms
      by (auto simp: pipeline_inv_def blocking_inv_def pipeline_final_def main_enabled_def
          split: main_pc.split)
  next
    case True
    then obtain d b where inv: "threaded_inv c d b s" using assms(1) by (auto simp: pipeline_inv_def)
    have w: "worker_enabled s" if "ps_worker s \<noteq> W_Exit" "ps_worker s = W_Wait \<Longrightarrow> d < b \<or> input_done s"
      using threaded_invD(2) [OF inv] that
      by (auto simp: worker_inv_def worker_enabled_def split: worker_pc.split)
    show ?thesis
    proof (cases "ps_main s")
      case (M_Loop f)
      show ?thesis
      proof (cases "main_enabled c s")
        case False
        then have "slot_in_use s (f mod 2)" "worker_error s = None"
          using M_Loop by (auto simp: main_enabled_def)
        then have "in_flight (released s d) b (f mod 2)" "worker_error s = None"
          using threaded_invD(4) [OF inv] by simp_all
        then have "released s d < b" by (auto simp: in_flight_def)
        then have "ps_worker s \<noteq> W_Exit" "ps_worker s = W_Wait \<Longrightarrow> d < b"
          using threaded_invD(2) [OF inv] \<open>worker_error s = None\<close>
          by (auto simp: worker_inv_def released_def)
        then show ?thesis using w by blast
      qed simp
    next
      case M_Join
      then show ?thesis using w threaded_invD(7) [OF inv] by (auto simp: main_enabled_def closing_def)
    next
      case M_Unwind_Join
      then show ?thesis using w threaded_invD(7) [OF inv] by (auto simp: main_enabled_def closing_def)
    qed (use assms(2) in \<open>auto simp: main_enabled_def pipeline_final_def\<close>)
  qed
  then show ?thesis using pipeline_step.intros by blast
qed

interpretation pipeline: terminating_system "pipeline_initial c" "pipeline_step c" "pipeline_inv c"
  pipeline_final "pipeline_rank c" for c
proof unfold_locales
  show "pipeline_inv c (pipeline_initial c)" by (rule pipeline_inv_initial)
  show "\<And>s t. pipeline_inv c s \<Longrightarrow> pipeline_step c s t \<Longrightarrow> pipeline_inv c t" by (rule pipeline_inv_step)
  show "\<And>s. pipeline_inv c s \<Longrightarrow> \<not> pipeline_final s \<Longrightarrow> \<exists>t. pipeline_step c s t"
    by (rule pipeline_progress)
  show "\<And>s t. pipeline_inv c s \<Longrightarrow> pipeline_step c s t \<Longrightarrow> pipeline_rank c t < pipeline_rank c s"
    by (auto elim!: pipeline_stepE intro: main_rank_less worker_rank_less)
qed

lemma done_drained:
  assumes "(pipeline_step c)\<^sup>*\<^sup>* (pipeline_initial c) s" "ps_main s = M_Done"
  shows "drained c (frame_count (pc_options c)) s"
  using pipeline.reachable_inv [OF assms(1)] assms(2)
  by (auto simp: pipeline_inv_def blocking_inv_def threaded_inv_def main_inv_def worker_inv_def
      worker_failed_def split: if_split_asm)

section \<open>Properties\<close>

text \<open>C28: The encode loop always ends and never deadlocks: no schedule of the capture thread and the
  output worker runs forever, whichever calls fail; from every reachable state both threads can be
  run to the end of the loop; and a state in which neither thread can move is one in which the loop
  has returned or thrown.\<close>

theorem encode_loop_terminates:
  assumes "(pipeline_step c)\<^sup>*\<^sup>* (pipeline_initial c) s"
  shows "\<not> (\<exists>run. run 0 = pipeline_initial c \<and> (\<forall>i. pipeline_step c (run i) (run (Suc i)))) \<and>
    (\<exists>t. (pipeline_step c)\<^sup>*\<^sup>* s t \<and> pipeline_final t) \<and>
    ((\<forall>t. \<not> pipeline_step c s t) \<longrightarrow> pipeline_final s)"
  using pipeline.no_infinite_run [of c] pipeline.reaches_final [OF pipeline.reachable_inv [OF assms]]
    pipeline.stuck_final [OF assms] by blast

theorem encode_loop_terminates_witness:
  "\<exists>t. (pipeline_step \<lparr>pc_options = video_defaults, pc_output = (\<lambda>k. (k, []))\<rparr>)\<^sup>*\<^sup>*
     (pipeline_initial \<lparr>pc_options = video_defaults, pc_output = (\<lambda>k. (k, []))\<rparr>) t \<and> pipeline_final t"
  using encode_loop_terminates [OF rtranclp.rtrancl_refl] by blast

text \<open>C27: A run that does not throw wrote every frame exactly once and in order: when the loop returns, the
  reference file is the concatenation of the bitstreams of the frames 1 to the requested count, the
  bitstream file is the same without the one frame whose loss is simulated, the written and dropped
  counters add up to the count, and exactly one frame was dropped when a loss inside the run was
  asked for.\<close>

theorem encode_loop_complete:
  assumes "(pipeline_step c)\<^sup>*\<^sup>* (pipeline_initial c) s" "ps_main s = M_Done" "stamps_kept c"
  shows "outputs c (frame_count (pc_options c)) s \<and>
    length (drain_timings s) = frame_count (pc_options c)"
  using done_drained [OF assms(1,2)] assms(3) by (simp add: drained_def)


text \<open>The two threads never work on the same slot: while the capture thread converts, maps and
  encodes into a slot and until it has queued it, the worker is not draining that slot, and, unless
  the worker has failed, the slot is not waiting in the queue either.\<close>

theorem encode_slot_exclusive:
  assumes "(pipeline_step c)\<^sup>*\<^sup>* (pipeline_initial c) s"
    and "ps_main s = M_Frame f \<or> ps_main s = M_Output f"
  shows "ps_worker s \<noteq> W_Drain (f mod 2) \<and> (worker_failed s \<or> f mod 2 \<notin> set (pending_slots s))"
proof (cases "queue_depth (pc_options c) = 1")
  case True
  then obtain d b where inv: "threaded_inv c d b s"
    using pipeline.reachable_inv [OF assms(1)] by (auto simp: pipeline_inv_def)
  have free: "\<not> in_flight (released s d) b (f mod 2)"
    using threaded_invD(3,4) [OF inv] assms(2) by (auto simp: main_inv_def)
  then have out: "f mod 2 \<noteq> k mod 2" if "released s d \<le> k" "k < b" for k
    using that by (auto simp: in_flight_def)
  have pend: "f mod 2 \<notin> set (pending_slots s)"
    if q: "pending_slots s = map (\<lambda>k. k mod 2) [a..<b]" "released s d \<le> a" for a
  proof
    assume "f mod 2 \<in> set (pending_slots s)"
    then obtain j where "f mod 2 = j mod 2" "a \<le> j" "j < b" using q(1) by auto
    then show False using out [of j] q(2) by simp
  qed
  show ?thesis
  proof (cases "ps_worker s")
    case (W_Drain k)
    then have k: "released s d = d" "k = d mod 2" "d < b" "pending_slots s = map (\<lambda>k. k mod 2) [Suc d..<b]"
      using threaded_invD(2) [OF inv] by (auto simp: worker_inv_def released_def)
    then show ?thesis using W_Drain out [of d] pend [OF k(4)] by simp
  next
    case (W_Release k)
    then have "released s d = d - 1" "pending_slots s = map (\<lambda>k. k mod 2) [d..<b]"
      using threaded_invD(2) [OF inv] by (auto simp: worker_inv_def released_def)
    then show ?thesis using W_Release pend by simp
  next
    case W_Wait
    then have "released s d = d" "pending_slots s = map (\<lambda>k. k mod 2) [d..<b]"
      using threaded_invD(2) [OF inv] by (auto simp: worker_inv_def released_def)
    then show ?thesis using W_Wait pend by simp
  qed (use threaded_invD(2) [OF inv] in \<open>auto simp: worker_inv_def worker_failed_def\<close>)
next
  case False
  have "pending_slots s = [] \<and> ps_worker s = W_None"
    using assms(1)
  proof (induction rule: rtranclp_induct)
    case base
    then show ?case using False by (simp add: pipeline_initial_def)
  next
    case (step s t)
    show ?case using step(2)
    proof (cases rule: pipeline_step.cases)
      case (capture_thread r d)
      show ?thesis
      proof (cases "ps_main s")
        case (M_Output g)
        then obtain k where "main_step c r d s = (let t = snd (drain_slot c d (g mod 2) s) in
          if fst (drain_slot c d (g mod 2) s) = None
          then t\<lparr>ps_main := M_Loop (g + 1), deadline_misses := k\<rparr> else t\<lparr>ps_main := M_Unwind\<rparr>)"
          using main_step_drain [OF _ False] by blast
        then show ?thesis using capture_thread step(3) by (simp add: Let_def)
      next
        case (M_Frame g)
        then show ?thesis using capture_thread step(3) main_step_frame [OF M_Frame] by simp
      qed (use capture_thread step(3) False in \<open>simp_all add: main_step_def Let_def\<close>)
    qed (use step(3) in \<open>simp add: worker_enabled_def\<close>)
  qed
  then show ?thesis by simp
qed


text \<open>A concrete run: one frame in threaded mode, every call successful.\<close>

definition demo_timing :: drain_timing where
  "demo_timing = \<lparr>dt_output_dispatch_us = 0, dt_bitstream_lock_wait_us = 0, dt_bitstream_write_us = 0,
     dt_resource_release_us = 0, dt_encode_us = 5, dt_pipeline_us = 9, dt_slot_lifetime_us = 9\<rparr>"

definition demo_calls :: frame_calls where
  "demo_calls = \<lparr>fc_invalidate_ok = True, fc_grab_ok = True, fc_same_geometry = True, fc_is_new = True,
     fc_launch_ok = True, fc_map_ok = True, fc_encode_ok = True,
     fc_timing = \<lparr>st_capture_us = 1, st_conversion_us = 1, st_resource_map_us = 1,
       st_picture_setup_us = 1, st_encode_submit_us = 1\<rparr>, fc_late = False\<rparr>"

definition demo_drain :: drain_calls where
  "demo_drain = \<lparr>dc_lock_ok = True, dc_reference_ok = True, dc_write_ok = True, dc_unlock_ok = True,
     dc_unmap_ok = True, dc_timing = demo_timing\<rparr>"

definition demo_config :: pipeline_config where
  "demo_config = \<lparr>pc_options = video_defaults\<lparr>frame_count := 3, simulate_loss_frame := 1,
     invalidate_delay_frames := 2, reference_frames := 4, intra_refresh_period := 60,
     intra_refresh_count := 30\<rparr>,
     pc_output = (\<lambda>k. (k, [of_nat k]))\<rparr>"

fun demo_run :: "bool list \<Rightarrow> pipeline_state \<Rightarrow> pipeline_state" where
  "demo_run [] s = s"
| "demo_run (w # ws) s = demo_run ws (if w
     then (if worker_enabled s then worker_step demo_config demo_drain s else s)
     else (if main_enabled demo_config s then main_step demo_config demo_calls demo_drain s else s))"

lemma demo_run_reaches:
  "(pipeline_step demo_config)\<^sup>*\<^sup>* s t \<Longrightarrow> (pipeline_step demo_config)\<^sup>*\<^sup>* s (demo_run ws t)"
proof (induction ws arbitrary: t)
  case (Cons w ws)
  have "(pipeline_step demo_config)\<^sup>*\<^sup>* s (if w
     then (if worker_enabled t then worker_step demo_config demo_drain t else t)
     else (if main_enabled demo_config t then main_step demo_config demo_calls demo_drain t else t))"
    using Cons.prems by (auto intro: rtranclp.rtrancl_into_rtrancl pipeline_step.intros)
  then show ?case using Cons.IH by simp
qed simp

lemma demo_stamps: "stamps_kept demo_config"
  by (simp add: stamps_kept_def demo_config_def)

lemmas demo_simps = demo_config_def demo_drain_def demo_calls_def demo_timing_def video_defaults_def
  pipeline_initial_def main_step_def worker_step_def main_enabled_def worker_enabled_def
  submit_frame_def drain_slot_def recovers_def Let_def

definition demo_frame :: pipeline_state where
  "demo_frame = demo_run [False, False, False, True, True, True, False, False, False, False]
     (pipeline_initial demo_config)"

definition demo_end :: pipeline_state where
  "demo_end = demo_run [False, False, True, True, True, False, True, True, False, True, True, True,
     True, False, False] demo_frame"

lemma demo_frame_reachable: "(pipeline_step demo_config)\<^sup>*\<^sup>* (pipeline_initial demo_config) demo_frame"
  unfolding demo_frame_def by (rule demo_run_reaches) simp

lemma demo_end_reachable: "(pipeline_step demo_config)\<^sup>*\<^sup>* (pipeline_initial demo_config) demo_end"
  unfolding demo_end_def by (rule demo_run_reaches) (rule demo_frame_reachable)

lemma demo_frame_pc: "ps_main demo_frame = M_Frame 2" "\<not> worker_failed demo_frame"
  by (simp_all add: demo_frame_def demo_simps worker_failed_def)

lemma demo_end_pc: "ps_main demo_end = M_Done"
  by (simp add: demo_end_def demo_frame_def demo_simps)

theorem encode_loop_complete_witness:
  "bitstream_file demo_end = [2, 3] \<and> bitstream_frames_dropped demo_end = 1"
  using encode_loop_complete [OF demo_end_reachable demo_end_pc demo_stamps]
  by (simp add: outputs_def stream_def lost_by_def frame_kept_def demo_config_def video_defaults_def
      upt_conv_Cons)

theorem encode_slot_exclusive_witness: "ps_worker demo_frame \<noteq> W_Drain 0"
  using encode_slot_exclusive [OF demo_frame_reachable disjI1, OF demo_frame_pc(1)] by simp


end
