(* ===== verification/Video_Gates.thy ===== *)
theory Video_Gates
  imports Complex_Main "HOL-Library.Multiset" Video_Threads
begin

text \<open>
  The statistics and the pass gates of \<^verbatim>\<open>src/probes/video/plank-probe-video-pipeline.cpp\<close>: the
  percentile and average helpers, the gates computed after the encode loop and the exit code of
  \<^verbatim>\<open>main\<close>. The doubles of the source are rationals here: every compared value is an integer number
  of microseconds or a quotient of small integers, and rounding of the quotients is not modelled.
\<close>

section \<open>Statistics\<close>

definition percentile :: "int list \<Rightarrow> nat \<Rightarrow> int" where
  "percentile values percent =
     (if values = [] then 0 else sort values ! ((length values * percent + 99) div 100 - 1))"

definition average :: "int list \<Rightarrow> rat" where
  "average values = (if values = [] then 0 else of_int (sum_list values) / of_nat (length values))"

section \<open>Gates\<close>

definition frame_budget_us :: "video_options \<Rightarrow> rat" where
  "frame_budget_us opts = 1000000 / of_nat (frame_rate opts)"

definition budget_misses :: "video_options \<Rightarrow> int list \<Rightarrow> nat" where
  "budget_misses opts values = length (filter (\<lambda>v. frame_budget_us opts < of_int v) values)"

definition source_activity_passed :: "video_options \<Rightarrow> pipeline_state \<Rightarrow> bool" where
  "source_activity_passed opts s \<longleftrightarrow>
     \<not> require_changing_source opts \<or> frame_count opts * 9 \<le> new_frames s * 10"

definition capture_conversion_target :: "pipeline_state \<Rightarrow> bool" where
  "capture_conversion_target s \<longleftrightarrow>
     percentile (map st_capture_us (submit_timings s)) 95 +
     percentile (map st_conversion_us (submit_timings s)) 95 \<le> 3000"

definition nvenc_target :: "pipeline_state \<Rightarrow> bool" where
  "nvenc_target s \<longleftrightarrow> percentile (map dt_encode_us (drain_timings s)) 95 \<le> 8000"

definition pipeline_percentile :: "pipeline_state \<Rightarrow> nat \<Rightarrow> int" where
  "pipeline_percentile s percent = percentile (map dt_pipeline_us (drain_timings s)) percent"

definition local_pipeline_target :: "pipeline_state \<Rightarrow> bool" where
  "local_pipeline_target s \<longleftrightarrow> pipeline_percentile s 95 \<le> 25000"

definition component_targets_passed :: "pipeline_state \<Rightarrow> bool" where
  "component_targets_passed s \<longleftrightarrow>
     capture_conversion_target s \<and> nvenc_target s \<and> local_pipeline_target s"

definition realtime_passed :: "video_options \<Rightarrow> rat \<Rightarrow> pipeline_state \<Rightarrow> bool" where
  "realtime_passed opts elapsed s \<longleftrightarrow>
     of_nat (frame_rate opts) * (99 / 100) \<le> of_nat (frame_count opts) / elapsed \<and>
     deadline_misses s \<le> max 1 (frame_count opts div 100) \<and>
     of_int (pipeline_percentile s 95) \<le> frame_budget_us opts \<and>
     capture_conversion_target s \<and> local_pipeline_target s \<and> source_activity_passed opts s"

definition realtime_robustness_passed :: "video_options \<Rightarrow> rat \<Rightarrow> pipeline_state \<Rightarrow> bool" where
  "realtime_robustness_passed opts elapsed s \<longleftrightarrow>
     realtime_passed opts elapsed s \<and> of_int (pipeline_percentile s 99) \<le> frame_budget_us opts \<and>
     deadline_misses s = 0"

definition bitstream_loss_passed :: "video_options \<Rightarrow> pipeline_state \<Rightarrow> bool" where
  "bitstream_loss_passed opts s \<longleftrightarrow> simulate_loss_frame opts = 0 \<or> bitstream_frames_dropped s = 1"

definition reference_invalidation_passed :: "video_options \<Rightarrow> pipeline_state \<Rightarrow> bool" where
  "reference_invalidation_passed opts s \<longleftrightarrow> \<not> recovers opts \<or> reference_invalidation_called s"

definition forced_idr_passed :: "video_options \<Rightarrow> pipeline_state \<Rightarrow> bool" where
  "forced_idr_passed opts s \<longleftrightarrow> force_idr_frame opts = 0 \<or> forced_idr_submitted s"

definition requested_gates_passed :: "video_options \<Rightarrow> pipeline_state \<Rightarrow> bool" where
  "requested_gates_passed opts s \<longleftrightarrow>
     bitstream_loss_passed opts s \<and> reference_invalidation_passed opts s \<and> forced_idr_passed opts s"

definition video_exit_code :: "video_options \<Rightarrow> rat \<Rightarrow> pipeline_state \<Rightarrow> nat" where
  "video_exit_code opts elapsed s =
     (if (if require_robustness opts then realtime_robustness_passed opts elapsed s
          else realtime_passed opts elapsed s) \<and> requested_gates_passed opts s
      then 0 else 1)"

text \<open>The whole program, given what setup, the loop, the end-of-stream call and the clock did.\<close>

definition video_main ::
  "string list \<Rightarrow> (video_options \<Rightarrow> bool) \<Rightarrow> (video_options \<Rightarrow> pipeline_state) \<Rightarrow> bool \<Rightarrow> rat \<Rightarrow> nat" where
  "video_main arguments ready loop eos_ok elapsed =
     (case parse_video_options arguments of
        Inl code \<Rightarrow> code
      | Inr opts \<Rightarrow>
          if \<not> ready opts \<or> ps_main (loop opts) \<noteq> M_Done \<or> \<not> eos_ok then 3
          else video_exit_code opts elapsed (loop opts))"

section \<open>The percentile is the nearest rank\<close>

lemma sorted_prefix_le:
  fixes xs :: "int list"
  assumes "sorted xs" "i < length xs"
  shows "Suc i \<le> length (filter (\<lambda>x. x \<le> xs ! i) xs)"
proof -
  have "filter (\<lambda>x. x \<le> xs ! i) (take (Suc i) xs) = take (Suc i) xs"
    using assms by (auto simp: filter_id_conv in_set_conv_nth sorted_iff_nth_mono)
  then have "length (filter (\<lambda>x. x \<le> xs ! i) xs) =
      Suc i + length (filter (\<lambda>x. x \<le> xs ! i) (drop (Suc i) xs))"
    using assms(2) by (metis append_take_drop_id filter_append length_append length_take min.absorb2 Suc_leI)
  then show ?thesis by simp
qed

lemma sorted_below_le:
  fixes xs :: "int list"
  assumes "sorted xs" "i < length xs" "y < xs ! i"
  shows "length (filter (\<lambda>x. x \<le> y) xs) \<le> i"
proof -
  have "\<not> x \<le> y" if "x \<in> set (drop i xs)" for x
  proof -
    obtain k where "k < length xs - i" "x = xs ! (i + k)" using \<open>x \<in> set (drop i xs)\<close>
      by (auto simp: in_set_conv_nth)
    then have "xs ! i \<le> x" using sorted_nth_mono [OF assms(1), of i "i + k"] by simp
    then show ?thesis using assms(3) by simp
  qed
  then have "filter (\<lambda>x. x \<le> y) (drop i xs) = []" by (simp add: filter_empty_conv)
  then have "filter (\<lambda>x. x \<le> y) xs = filter (\<lambda>x. x \<le> y) (take i xs)"
    by (metis append_take_drop_id filter_append append_Nil2)
  then show ?thesis
    by (metis length_filter_le length_take min.cobounded2 order_trans)
qed

lemma filter_sort_length: "length (filter P (sort xs)) = length (filter P (xs :: int list))"
  by (metis mset_filter mset_sort size_mset)

definition rank_index :: "nat \<Rightarrow> nat \<Rightarrow> nat" where
  "rank_index n percent = (n * percent + 99) div 100 - 1"

lemma rank_index_bounds:
  assumes "0 < n" "1 \<le> percent" "percent \<le> 100"
  shows "rank_index n percent < n" "100 * rank_index n percent < n * percent"
    "n * percent \<le> 100 * Suc (rank_index n percent)"
proof -
  have "n * 1 \<le> n * percent" "n * percent \<le> n * 100"
    using assms(2,3) by (simp_all only: mult_le_mono2)
  then show "rank_index n percent < n" "100 * rank_index n percent < n * percent"
    using assms(1) unfolding rank_index_def by linarith+
  define m where "m = n * percent"
  have "m \<le> 100 * ((m + 99) div 100)" by linarith
  then show "n * percent \<le> 100 * Suc (rank_index n percent)"
    unfolding rank_index_def m_def [symmetric] by (cases "(m + 99) div 100") simp_all
qed

lemma percentile_rank: "values \<noteq> [] \<Longrightarrow>
    percentile values percent = sort values ! rank_index (length values) percent"
  by (simp add: percentile_def rank_index_def)

lemma percentile_covers:
  assumes "values \<noteq> []" "1 \<le> percent" "percent \<le> 100"
  shows "length values * percent \<le> 100 * length (filter (\<lambda>v. v \<le> percentile values percent) values)"
proof -
  have b: "rank_index (length values) percent < length (sort values)"
    "length values * percent \<le> 100 * Suc (rank_index (length values) percent)"
    using rank_index_bounds [of "length values" percent] assms by simp_all
  show ?thesis
    using sorted_prefix_le [OF sorted_sort b(1)]
    unfolding filter_sort_length percentile_rank [OF assms(1)]
    by (rule order_trans [OF b(2) mult_le_mono2])
qed

text \<open>The percentile of a non-empty sample is its nearest-rank percentile: it is one of the samples, at
  least the asked share of the samples is not above it, and it is the smallest such sample.\<close>

theorem percentile_nearest_rank:
  assumes "values \<noteq> []" "1 \<le> percent" "percent \<le> 100"
  shows "percentile values percent \<in> set values \<and>
    length values * percent \<le> 100 * length (filter (\<lambda>v. v \<le> percentile values percent) values) \<and>
    (\<forall>y. y < percentile values percent \<longrightarrow>
       100 * length (filter (\<lambda>v. v \<le> y) values) < length values * percent)"
proof -
  let ?i = "rank_index (length values) percent"
  have b: "?i < length (sort values)" "100 * ?i < length values * percent"
    using rank_index_bounds [of "length values" percent] assms by simp_all
  have "sort values ! ?i \<in> set values" using nth_mem [OF b(1)] by simp
  moreover have "100 * length (filter (\<lambda>v. v \<le> y) values) < length values * percent"
    if "y < sort values ! ?i" for y
    using sorted_below_le [OF sorted_sort b(1) that] unfolding filter_sort_length
    by (rule le_less_trans [OF mult_le_mono2 b(2)])
  ultimately show ?thesis
    using percentile_covers [OF assms] unfolding percentile_rank [OF assms(1)] by blast
qed

theorem percentile_nearest_rank_witness:
  "percentile [30, 10, 20] 95 \<in> set [30, 10, 20]"
  using percentile_nearest_rank [of "[30, 10, 20]" 95] by simp

lemma filter_length_mono: "(\<And>x. P x \<Longrightarrow> Q x) \<Longrightarrow> length (filter P xs) \<le> length (filter Q xs)"
  by (induction xs) (auto simp: le_SucI)

lemma percentile_share:
  assumes "values \<noteq> []" "1 \<le> percent" "percent \<le> 100" "of_int (percentile values percent) \<le> bound"
  shows "length values * percent \<le> 100 * length (filter (\<lambda>v. of_int v \<le> (bound :: rat)) values)"
proof -
  let ?p = "percentile values percent"
  have "v \<le> ?p \<Longrightarrow> of_int v \<le> bound" for v :: int
    using assms(4) by (meson of_int_le_iff order_trans)
  then have "length (filter (\<lambda>v. v \<le> ?p) values) \<le> length (filter (\<lambda>v. of_int v \<le> bound) values)"
    by (rule filter_length_mono)
  then show ?thesis by (rule order_trans [OF percentile_covers [OF assms(1-3)] mult_le_mono2])
qed

text \<open>C35: A pass means what it says: if the probe exits with 0 on a run of the encode loop, then every frame
  was drained, exactly the one frame whose loss was asked for is missing from the bitstream, and at
  least 95 percent of the frames went from capture to bitstream within the frame budget; with the
  robustness gate required, at least 99 percent did, and no deadline was missed.\<close>

theorem video_pass_sound:
  assumes "video_main arguments ready loop eos_ok elapsed = 0"
    and "parse_video_options arguments = Inr opts" "c = \<lparr>pc_options = opts, pc_output = out\<rparr>"
    and "(pipeline_step c)\<^sup>*\<^sup>* (pipeline_initial c) (loop opts)" "stamps_kept c"
  shows "outputs c (frame_count opts) (loop opts) \<and>
    (simulate_loss_frame opts \<noteq> 0 \<longrightarrow> bitstream_frames_written (loop opts) + 1 = frame_count opts) \<and>
    frame_count opts * (if require_robustness opts then 99 else 95) \<le>
      100 * length (filter (\<lambda>v. of_int v \<le> frame_budget_us opts) (map dt_pipeline_us (drain_timings (loop opts)))) \<and>
    (require_robustness opts \<longrightarrow> deadline_misses (loop opts) = 0)"
proof -
  let ?s = "loop opts" and ?v = "map dt_pipeline_us (drain_timings (loop opts))"
  have fin: "ps_main ?s = M_Done" "video_exit_code opts elapsed ?s = 0"
    using assms(1,2) by (auto simp: video_main_def split: if_split_asm)
  have out: "outputs c (frame_count opts) ?s" "length (drain_timings ?s) = frame_count opts"
    using done_drained [OF assms(4) fin(1)] assms(3,5) by (simp_all add: drained_def)
  have "1 \<le> frame_count opts"
    using parsed_options [OF assms(2)] by (simp add: options_valid_def)
  then have ne: "?v \<noteq> []" using out(2) by auto
  have "of_int (percentile ?v (if require_robustness opts then 99 else 95)) \<le> frame_budget_us opts"
    using fin(2) by (auto simp: video_exit_code_def realtime_robustness_passed_def realtime_passed_def
        pipeline_percentile_def split: if_split_asm)
  then have "length ?v * (if require_robustness opts then 99 else 95) \<le>
      100 * length (filter (\<lambda>v. of_int v \<le> frame_budget_us opts) ?v)"
    by (intro percentile_share [OF ne]) auto
  moreover have "require_robustness opts \<longrightarrow> deadline_misses ?s = 0"
    using fin(2) by (auto simp: video_exit_code_def realtime_robustness_passed_def split: if_split_asm)
  moreover have "simulate_loss_frame opts \<noteq> 0 \<longrightarrow> bitstream_frames_dropped ?s = 1"
    using fin(2) by (auto simp: video_exit_code_def requested_gates_passed_def bitstream_loss_passed_def
        split: if_split_asm)
  ultimately show ?thesis using out by (auto simp: outputs_def)
qed

definition demo_arguments :: "string list" where
  "demo_arguments = [''--frames'', ''3'', ''--simulate-loss-frame'', ''1'']"

lemma demo_parsed: "parse_video_options demo_arguments = Inr (pc_options demo_config)"
  by (simp add: demo_arguments_def parse_video_options_def set_flag_def set_value_def numeric_names_def
      set_numeric_def parse_simps video_defaults_def check_options_def refresh_defaults_def recovers_def
      demo_config_def Let_def)

lemma demo_end_fields:
  "submit_timings demo_end = [fc_timing demo_calls, fc_timing demo_calls, fc_timing demo_calls]"
  "drain_timings demo_end = [demo_timing, demo_timing, demo_timing]"
  "deadline_misses demo_end = 0" "reference_invalidation_called demo_end" "bitstream_frames_dropped demo_end = 1"
  by (simp_all add: demo_end_def demo_frame_def demo_simps)

lemma demo_options:
  "frame_count (pc_options demo_config) = 3" "frame_rate (pc_options demo_config) = 60"
  "\<not> require_changing_source (pc_options demo_config)" "\<not> require_robustness (pc_options demo_config)"
  "force_idr_frame (pc_options demo_config) = 0"
  by (simp_all add: demo_config_def video_defaults_def)

lemma demo_percentile: "percentile [x, x, x] 95 = x"
  by (simp add: percentile_def)

lemma demo_targets:
  "capture_conversion_target demo_end" "local_pipeline_target demo_end" "pipeline_percentile demo_end 95 = 9"
  by (simp_all only: capture_conversion_target_def local_pipeline_target_def pipeline_percentile_def
      demo_end_fields list.map demo_percentile)
    (simp_all add: demo_calls_def demo_timing_def)

lemma demo_realtime: "realtime_passed (pc_options demo_config) (1 / 20) demo_end"
  unfolding realtime_passed_def source_activity_passed_def frame_budget_us_def demo_options demo_end_fields
    demo_targets(3)
  by (simp add: demo_targets demo_options)

lemma demo_gates: "requested_gates_passed (pc_options demo_config) demo_end"
  unfolding requested_gates_passed_def bitstream_loss_passed_def reference_invalidation_passed_def
    forced_idr_passed_def
  using demo_end_fields(4,5) demo_options(5) by simp

lemma demo_passes: "video_main demo_arguments (\<lambda>_. True) (\<lambda>_. demo_end) True (1 / 20) = 0"
  unfolding video_main_def demo_parsed video_exit_code_def
  using demo_realtime demo_gates demo_options(4) demo_end_pc by simp

theorem video_pass_sound_witness: "bitstream_frames_written demo_end = 2"
  using video_pass_sound [OF demo_passes demo_parsed, of demo_config "\<lambda>k. (k, [of_nat k])"]
    demo_end_reachable demo_stamps
  by (simp add: demo_config_def video_defaults_def)

end
