(* ===== verification/Video_Resources.thy ===== *)
theory Video_Resources
  imports Video_Options Resources
begin



section \<open>Initializers\<close>












section \<open>The destructor\<close>



section \<open>A run\<close>



section \<open>Nothing is leaked\<close>










subsection \<open>The shape of a set-up trace\<close>
















end
