(* ===== verification/Video_Encoder.thy ===== *)
theory Video_Encoder
  imports Video_Options
begin

text \<open>
  The encoder configuration that \<^verbatim>\<open>initialize_nvenc\<close> of
  \<^verbatim>\<open>src/probes/video/plank-probe-video-pipeline.cpp\<close> derives from the options, the surface geometry
  it registers with the encoder, the grid launch of \<^verbatim>\<open>launch_conversion\<close> over a memory, and the pixel
  self-test on it.
\<close>

section \<open>Configuration\<close>

record nvenc_config =
  nc_codec :: codec
  nc_ten_bit_buffer :: bool
  nc_average_bit_rate :: u32
  nc_max_bit_rate :: u32
  nc_vbv_buffer_size :: u32
  nc_vbv_initial_delay :: u32
  nc_frame_interval_p :: nat
  nc_chroma_format_idc :: nat
  nc_bit_depth :: nat
  nc_enable_intra_refresh :: bool
  nc_intra_refresh_period :: u32
  nc_intra_refresh_cnt :: u32
  nc_single_slice :: bool
  nc_max_ref_frames :: nat
  nc_repeat_sps_pps :: bool
  nc_full_range :: bool
  nc_width :: u32
  nc_height :: u32
  nc_frame_rate_num :: nat
  nc_frame_rate_den :: nat
  nc_tuning :: tuning_info
  nc_split :: split_encode_mode

definition nvenc_configuration :: "video_options \<Rightarrow> u32 \<Rightarrow> u32 \<Rightarrow> nvenc_config" where
  "nvenc_configuration opts width height =
     (let hevc = (codec_choice opts = kHevc10);
          count32 = word_of_int (intra_refresh_count opts) :: u32
      in \<lparr>nc_codec = codec_choice opts, nc_ten_bit_buffer = hevc,
          nc_average_bit_rate = bitrate opts, nc_max_bit_rate = bitrate opts,
          nc_vbv_buffer_size = vbv_bits opts, nc_vbv_initial_delay = vbv_bits opts,
          nc_frame_interval_p = 1, nc_chroma_format_idc = 3, nc_bit_depth = (if hevc then 10 else 8),
          nc_enable_intra_refresh = (0 < count32),
          nc_intra_refresh_period = word_of_int (intra_refresh_period opts),
          nc_intra_refresh_cnt = count32,
          nc_single_slice = (0 < count32 \<and> single_slice_intra_refresh opts),
          nc_max_ref_frames = reference_frames opts, nc_repeat_sps_pps = True, nc_full_range = True,
          nc_width = width, nc_height = height, nc_frame_rate_num = frame_rate opts,
          nc_frame_rate_den = 1, nc_tuning = tuning opts, nc_split = split_mode opts\<rparr>)"

text \<open>Row bytes and rows of the pitched allocation of a slot.\<close>

definition surface_row_bytes :: "codec \<Rightarrow> u32 \<Rightarrow> nat" where
  "surface_row_bytes c width = unat width * (if c = kHevc10 then 2 else 1)"

definition surface_rows :: "u32 \<Rightarrow> nat" where
  "surface_rows height = unat height * 3"

lemma small_unat: "0 \<le> i \<Longrightarrow> i < 2 ^ 31 \<Longrightarrow> unat (word_of_int i :: u32) = nat i"
  by (simp add: unsigned_of_int take_bit_eq_mod nat_mod_distrib)

text \<open>With accepted options the intra-refresh values survive the conversion to 32 bits, and the wave is
  shorter than its period whenever it is enabled.\<close>

lemma nvenc_refresh_consistent:
  assumes "options_valid opts" "intra_refresh_period opts < 2 ^ 31"
  shows "unat (nc_intra_refresh_period (nvenc_configuration opts w h)) = nat (intra_refresh_period opts)"
    and "nc_enable_intra_refresh (nvenc_configuration opts w h) \<Longrightarrow>
      nc_intra_refresh_cnt (nvenc_configuration opts w h) < nc_intra_refresh_period (nvenc_configuration opts w h)"
proof -
  have p: "1 \<le> intra_refresh_period opts" "0 \<le> intra_refresh_count opts"
    "intra_refresh_count opts = 0 \<or> intra_refresh_count opts < intra_refresh_period opts"
    using assms(1) by (auto simp: options_valid_def)
  show "unat (nc_intra_refresh_period (nvenc_configuration opts w h)) = nat (intra_refresh_period opts)"
    using p assms(2) by (simp add: nvenc_configuration_def Let_def small_unat)
  assume "nc_enable_intra_refresh (nvenc_configuration opts w h)"
  then have "intra_refresh_count opts \<noteq> 0" by (auto simp: nvenc_configuration_def Let_def)
  then have "intra_refresh_count opts < intra_refresh_period opts" using p(3) by simp
  then show "nc_intra_refresh_cnt (nvenc_configuration opts w h) < nc_intra_refresh_period (nvenc_configuration opts w h)"
    using p assms(2) by (simp add: nvenc_configuration_def Let_def word_less_nat_alt small_unat)
qed

section \<open>Launching the kernel\<close>

definition thread_env :: "ptx_env \<Rightarrow> nat \<Rightarrow> ptx_env" where
  "thread_env e k = e\<lparr>pe_ntid := 256, pe_ctaid := of_nat (k div 256), pe_tid := of_nat (k mod 256)\<rparr>"

definition blank_registers :: "(u64 \<Rightarrow> u8) \<Rightarrow> ptx_state" where
  "blank_registers m = \<lparr>ps_p = (\<lambda>_. False), ps_r = (\<lambda>_. 0), ps_rd = (\<lambda>_. 0), ps_mem = m\<rparr>"

text \<open>All threads of the grid over the memory, one after the other; they write to different samples.\<close>

definition launch_conversion :: "bool \<Rightarrow> ptx_env \<Rightarrow> (u64 \<Rightarrow> u8) \<Rightarrow> (u64 \<Rightarrow> u8)" where
  "launch_conversion ten_bit e m =
     fold (\<lambda>k mem. ps_mem (exec (thread_env e k) (if ten_bit then bgra8_to_gbr10 else bgra8_to_gbr8)
         (blank_registers mem)))
       [0..<256 * unat (launch_blocks (pe_width e) (pe_height e))] m"

section \<open>The pixel self-test\<close>

definition self_test_source :: "u8 list" where
  "self_test_source = [0, 0, 0, 255, 255, 255, 255, 255, 255, 0, 0, 255, 0, 128, 255, 255]"

definition copy_to :: "u64 \<Rightarrow> u8 list \<Rightarrow> (u64 \<Rightarrow> u8) \<Rightarrow> (u64 \<Rightarrow> u8)" where
  "copy_to a bs m = fold (\<lambda>i mem. mem(a + of_nat i := bs ! i)) [0..<length bs] m"

definition load16 :: "(u64 \<Rightarrow> u8) \<Rightarrow> u64 \<Rightarrow> u16" where
  "load16 m a = ucast (m a) + 256 * ucast (m (a + 1))"

definition self_test_expected10 :: "u16 list" where
  "self_test_expected10 =
     (let maximum = expand_to_msb_aligned_10_bit 255; midpoint = expand_to_msb_aligned_10_bit 128
      in [0, maximum, 0, midpoint, 0, maximum, maximum, 0, 0, maximum, 0, maximum])"

definition self_test_expected8 :: "u8 list" where
  "self_test_expected8 = [0, 255, 0, 128, 0, 255, 255, 0, 0, 255, 0, 255]"

definition self_test_env :: "u64 \<Rightarrow> u64 \<Rightarrow> u64 \<Rightarrow> ptx_env" where
  "self_test_env src dst pitch = \<lparr>pe_source_ptr = src, pe_destination_ptr = dst, pe_destination_pitch = pitch,
     pe_width = 4, pe_height = 1, pe_ctaid = 0, pe_ntid = 256, pe_tid = 0\<rparr>"

definition self_test_result10 :: "u64 \<Rightarrow> u64 \<Rightarrow> (u64 \<Rightarrow> u8) \<Rightarrow> u16 list" where
  "self_test_result10 src dst m =
     (let out = launch_conversion True (self_test_env src dst 8) (copy_to src self_test_source m)
      in map (\<lambda>i. load16 out (dst + 2 * of_nat i)) [0..<12])"

definition self_test_result8 :: "u64 \<Rightarrow> u64 \<Rightarrow> (u64 \<Rightarrow> u8) \<Rightarrow> u8 list" where
  "self_test_result8 src dst m =
     (let out = launch_conversion False (self_test_env src dst 4) (copy_to src self_test_source m)
      in map (\<lambda>i. out (dst + of_nat i)) [0..<12])"

lemma thread_index_env: "k < 2 ^ 32 \<Longrightarrow> thread_index (thread_env e k) = of_nat k"
proof -
  have "of_nat (k div 256) * 256 + of_nat (k mod 256) = (of_nat (k div 256 * 256 + k mod 256) :: u32)"
    by (simp only: of_nat_add of_nat_mult of_nat_numeral)
  then show ?thesis unfolding thread_index_def thread_env_def by simp
qed

lemma fold_outside:
  assumes "\<And>k. k \<in> set ks \<Longrightarrow> k < 2 ^ 32 \<and> pe_width e * pe_height e \<le> of_nat k"
  shows "fold (\<lambda>k mem. ps_mem (exec (thread_env e k) (if ten_bit then bgra8_to_gbr10 else bgra8_to_gbr8)
      (blank_registers mem))) ks m = m"
  using assms
proof (induction ks arbitrary: m)
  case (Cons k ks)
  have "pe_width (thread_env e k) * pe_height (thread_env e k) \<le> thread_index (thread_env e k)"
    using Cons.prems [of k] thread_index_env [of k e] by (simp add: thread_env_def)
  then show ?case
    using Cons kernel8_outside [of "thread_env e k"] by (simp add: blank_registers_def)
qed simp

lemma launch_four:
  assumes "pe_width e = 4" "pe_height e = 1"
  shows "launch_conversion ten_bit e m =
    fold (\<lambda>k mem. ps_mem (exec (thread_env e k) (if ten_bit then bgra8_to_gbr10 else bgra8_to_gbr8)
         (blank_registers mem))) [0, 1, 2, 3] m"
proof -
  let ?f = "\<lambda>k mem. ps_mem (exec (thread_env e k) (if ten_bit then bgra8_to_gbr10 else bgra8_to_gbr8)
         (blank_registers mem))"
  have one: "unat (launch_blocks 4 1) = 1" by (simp add: launch_blocks_def)
  have cut: "[0..<256] = [0..<4] @ [4..<256]"
    using upt_add_eq_append [of 0 4 252] by (simp del: upt_Suc)
  have four: "[0..<4] = [0, 1, 2, 3 :: nat]" by (simp add: numeral_eq_Suc)
  have rest: "fold ?f [4..<256] m' = m'" for m'
  proof (rule fold_outside)
    fix k :: nat assume "k \<in> set [4..<256]"
    then have "4 \<le> k" "k < 256" by (simp_all only: set_upt atLeastLessThan_iff)
    then show "k < 2 ^ 32 \<and> pe_width e * pe_height e \<le> of_nat k"
      by (simp add: assms word_le_nat_alt unat_of_nat)
  qed
  show ?thesis
    unfolding launch_conversion_def assms one mult_1_right cut fold_append comp_apply rest four ..
qed

lemma self_test_threads:
  assumes "k < 4"
  shows "ps_mem (exec (thread_env (self_test_env 0 256 8) k) bgra8_to_gbr10 (blank_registers m)) =
      (let a = 4 * of_nat k; d = 256 + 2 * of_nat k in
       store16 (d + 16) (expand_to_msb_aligned_10_bit (m (a + 2)))
         (store16 (d + 8) (expand_to_msb_aligned_10_bit (m a))
           (store16 d (expand_to_msb_aligned_10_bit (m (a + 1))) m)))"
    and "ps_mem (exec (thread_env (self_test_env 0 256 4) k) bgra8_to_gbr8 (blank_registers m)) =
      (let a = 4 * of_nat k; d = 256 + of_nat k in
       store8 (d + 8) (m (a + 2)) (store8 (d + 4) (m a) (store8 d (m (a + 1)) m)))"
proof -
  have t: "thread_index (thread_env (self_test_env 0 256 p) k) = of_nat k" for p
    using assms by (intro thread_index_env) simp
  have u: "(ucast (of_nat k :: u32) :: u64) = of_nat k"
    using assms by (simp add: unsigned_of_nat take_bit_nat_eq_self)
  have i: "\<not> pe_width (thread_env (self_test_env 0 256 p) k) * pe_height (thread_env (self_test_env 0 256 p) k)
      \<le> thread_index (thread_env (self_test_env 0 256 p) k)" for p
    unfolding t using assms by (simp add: thread_env_def self_test_env_def word_le_nat_alt unat_of_nat)
  have f: "pe_source_ptr (thread_env (self_test_env 0 256 p) k) = 0"
    "pe_destination_ptr (thread_env (self_test_env 0 256 p) k) = 256"
    "pe_destination_pitch (thread_env (self_test_env 0 256 p) k) = p"
    "pe_height (thread_env (self_test_env 0 256 p) k) = 1" for p
    by (simp_all add: thread_env_def self_test_env_def)
  show "ps_mem (exec (thread_env (self_test_env 0 256 8) k) bgra8_to_gbr10 (blank_registers m)) =
      (let a = 4 * of_nat k; d = 256 + 2 * of_nat k in
       store16 (d + 16) (expand_to_msb_aligned_10_bit (m (a + 2)))
         (store16 (d + 8) (expand_to_msb_aligned_10_bit (m a))
           (store16 d (expand_to_msb_aligned_10_bit (m (a + 1))) m)))"
    unfolding kernel10_inside [OF i] ptx_expand_correct source_address_def plane_size_def t f u
    by (simp add: Let_def blank_registers_def mult.commute)
  show "ps_mem (exec (thread_env (self_test_env 0 256 4) k) bgra8_to_gbr8 (blank_registers m)) =
      (let a = 4 * of_nat k; d = 256 + of_nat k in
       store8 (d + 8) (m (a + 2)) (store8 (d + 4) (m a) (store8 d (m (a + 1)) m)))"
    unfolding kernel8_inside [OF i] source_address_def plane_size_def t f u
    by (simp add: Let_def blank_registers_def mult.commute)
qed

lemma expand_values:
  "expand_to_msb_aligned_10_bit 0 = 0" "expand_to_msb_aligned_10_bit 128 = 32896"
  "expand_to_msb_aligned_10_bit 255 = 65472"
  by (simp_all add: expand_to_msb_aligned_10_bit_def)

lemma copied_source: "copy_to 0 self_test_source m = m(0 := 0, 1 := 0, 2 := 0, 3 := 255, 4 := 255, 5 := 255,
    6 := 255, 7 := 255, 8 := 255, 9 := 0, 10 := 0, 11 := 255, 12 := 0, 13 := 128, 14 := 255, 15 := 255)"
  by (simp add: copy_to_def self_test_source_def numeral_eq_Suc)

lemma upt12: "[0..<12] = [0, 1, 2, 3, 4, 5, 6, 7, 8, 9, 10, 11 :: nat]"
  by (simp add: numeral_eq_Suc)

text \<open>The pixel self-test accepts the kernels: executed by the grid that \<^verbatim>\<open>launch_conversion\<close> starts on
  the four test pixels, both PTX kernels produce exactly the arrays that the self-test compares with,
  from any previous content of the device memory.\<close>

theorem self_test_accepts_kernels:
  "self_test_result10 0 256 m = self_test_expected10 \<and> self_test_result8 0 256 m = self_test_expected8"
proof
  have env: "pe_width (self_test_env 0 256 p) = 4" "pe_height (self_test_env 0 256 p) = 1" for p
    by (simp_all add: self_test_env_def)
  show "self_test_result10 0 256 m = self_test_expected10"
    unfolding self_test_result10_def launch_four [OF env] copied_source self_test_expected10_def upt12
    by (simp add: self_test_threads expand_values store16_def load16_def Let_def)
  show "self_test_result8 0 256 m = self_test_expected8"
    unfolding self_test_result8_def launch_four [OF env] copied_source self_test_expected8_def upt12
    by (simp add: self_test_threads store8_def Let_def)
qed

section \<open>Rows\<close>



end
