(* ===== verification/Camera_Payload.thy ===== *)
theory Camera_Payload
  imports Camera_Wire "HOL-Library.Monad_Syntax"
begin

text \<open>
  The framing checks of the macOS host on camera payloads before the system decoder sees them,
  \<^verbatim>\<open>src/apps/host/macos/media/native-camera-payload.h\<close>: the H.264 Annex B splitter and the baseline
  JPEG walker. Every read of a byte goes through \<^verbatim>\<open>rd\<close>, which is \<^verbatim>\<open>None\<close> outside the buffer; a
  result \<^verbatim>\<open>Some b\<close> is the return value \<^verbatim>\<open>b\<close>, so that \<^verbatim>\<open>None\<close> is exactly an out-of-bounds read.
\<close>

abbreviation PLANKCameraMaxNALs :: nat where "PLANKCameraMaxNALs \<equiv> 64"
abbreviation PLANKCameraMaxParameterBytes :: nat where "PLANKCameraMaxParameterBytes \<equiv> 4096"

definition rd :: "bytes \<Rightarrow> nat \<Rightarrow> u8 option" where
  "rd p i = (if i < length p then Some (p ! i) else None)"

lemma rd_in [simp]: "i < length p \<Longrightarrow> rd p i = Some (p ! i)"
  by (simp add: rd_def)

section \<open>H.264\<close>

record camera_nal =
  nal_offset :: nat
  nal_size :: nat
  nal_type :: nat

record camera_payload =
  cp_nals :: "camera_nal list"
  cp_sps :: nat
  cp_pps :: nat
  cp_independent :: bool

definition camera_start_code :: "bytes \<Rightarrow> nat \<Rightarrow> nat option" where
  "camera_start_code p i =
     (if length p < i \<or> length p - i < 3 then Some 0
      else do {
        b0 \<leftarrow> rd p i;
        if b0 \<noteq> 0 then Some 0 else do {
        b1 \<leftarrow> rd p (i + 1);
        if b1 \<noteq> 0 then Some 0 else do {
        b2 \<leftarrow> rd p (i + 2);
        if b2 = 1 then Some 3
        else if length p - i < 4 \<or> b2 \<noteq> 0 then Some 0 else do {
        b3 \<leftarrow> rd p (i + 3);
        Some (if b3 = 1 then 4 else 0) }}}})"

text \<open>The two scans: forward to the next start code or the end, backward over trailing zeros.\<close>

function scan_nal_end :: "bytes \<Rightarrow> nat \<Rightarrow> nat option" where
  "scan_nal_end p e =
     (if length p \<le> e then Some e
      else do { prefix \<leftarrow> camera_start_code p e;
                if prefix \<noteq> 0 then Some e else scan_nal_end p (e + 1) })"
  by pat_completeness simp_all
termination scan_nal_end by (relation "measure (\<lambda>(p, e). length p - e)") simp_all

declare scan_nal_end.simps [simp del]

fun trim_zeros :: "bytes \<Rightarrow> nat \<Rightarrow> nat \<Rightarrow> nat option" where
  "trim_zeros p begin 0 = Some 0"
| "trim_zeros p begin (Suc e) =
     (if begin < Suc e then do { b \<leftarrow> rd p e; if b = 0 then trim_zeros p begin e else Some (Suc e) }
      else Some (Suc e))"

record avc_state =
  av_payload :: camera_payload
  av_dependent :: bool
  av_adapted :: nat

text \<open>One NAL unit, from its first byte to its trimmed end; \<^verbatim>\<open>Inl\<close> is a return of false.\<close>

definition avc_nal :: "bytes \<Rightarrow> nat \<Rightarrow> nat \<Rightarrow> avc_state \<Rightarrow> (unit + avc_state) option" where
  "avc_nal p begin e st =
     (if e = begin then Some (Inl ())
      else do {
        header \<leftarrow> rd p begin;
        let r = av_payload st; type = unat (and header 31) in
        if and header 0x80 \<noteq> 0 then Some (Inl ())
        else if type \<noteq> 1 \<and> type \<noteq> 5 \<and> (type < 6 \<or> 12 < type) then Some (Inl ())
        else if type \<in> {1, 5, 7, 8} \<and> e - begin < 2 then Some (Inl ())
        else if type \<in> {7, 8} \<and>
            (av_dependent st \<or> cp_independent r \<or>
             (if type = 7 then cp_sps r else cp_pps r) \<noteq> PLANKCameraMaxNALs \<or>
             PLANKCameraMaxParameterBytes < e - begin) then Some (Inl ())
        else
          let n = length (cp_nals r);
              r1 = (if type = 7 then r\<lparr>cp_sps := n\<rparr> else if type = 8 then r\<lparr>cp_pps := n\<rparr> else r);
              r2 = r1\<lparr>cp_independent := cp_independent r1 \<or> type = 5,
                cp_nals := cp_nals r1 @ [\<lparr>nal_offset = begin, nal_size = e - begin, nal_type = type\<rparr>]\<rparr>;
              adapted = av_adapted st + 4 + (e - begin)
          in if PLANK_CAMERA_MAX_FRAME_BYTES < adapted then Some (Inl ())
             else Some (Inr \<lparr>av_payload = r2, av_dependent = (av_dependent st \<or> type = 1),
                             av_adapted = adapted\<rparr>) })"

definition avc_step :: "bytes \<Rightarrow> nat \<Rightarrow> avc_state \<Rightarrow> (unit + nat \<times> avc_state) option" where
  "avc_step p i st =
     do { prefix \<leftarrow> camera_start_code p i;
          if prefix = 0 \<or> length (cp_nals (av_payload st)) = PLANKCameraMaxNALs then Some (Inl ())
          else do {
            next \<leftarrow> scan_nal_end p (i + prefix);
            e \<leftarrow> trim_zeros p (i + prefix) next;
            r \<leftarrow> avc_nal p (i + prefix) e st;
            Some (case r of Inl _ \<Rightarrow> Inl () | Inr st' \<Rightarrow> Inr (next, st')) } }"

subsection \<open>Progress\<close>

lemma camera_start_code_total: "\<exists>n. camera_start_code p i = Some n \<and> n \<in> {0, 3, 4} \<and> (n \<noteq> 0 \<longrightarrow> i + n \<le> length p)"
proof (cases "length p < i \<or> length p - i < 3")
  case False
  then have "i < length p" "i + 1 < length p" "i + 2 < length p" by auto
  then show ?thesis by (cases "i + 3 < length p") (auto simp: camera_start_code_def)
qed (simp add: camera_start_code_def)

lemma scan_nal_end_total: "e \<le> length p \<Longrightarrow> \<exists>n. scan_nal_end p e = Some n \<and> e \<le> n \<and> n \<le> length p"
proof (induction p e rule: scan_nal_end.induct)
  case (1 p e)
  obtain n where n: "camera_start_code p e = Some n" using camera_start_code_total by blast
  show ?case
  proof (cases "e < length p \<and> n = 0")
    case True
    then obtain m where "scan_nal_end p (e + 1) = Some m" "e + 1 \<le> m" "m \<le> length p"
      using 1(1) [OF _ n] by auto
    then show ?thesis using True n by (subst scan_nal_end.simps) auto
  next
    case False
    then show ?thesis using 1(2) n by (subst scan_nal_end.simps) auto
  qed
qed

lemma trim_zeros_total:
  "begin \<le> e \<Longrightarrow> e \<le> length p \<Longrightarrow> \<exists>n. trim_zeros p begin e = Some n \<and> begin \<le> n \<and> n \<le> e"
  by (induction p "begin" e rule: trim_zeros.induct) fastforce+

lemma avc_nal_total: "begin \<le> e \<Longrightarrow> e \<le> length p \<Longrightarrow> avc_nal p begin e st \<noteq> None"
  by (cases "e = begin") (simp_all add: avc_nal_def Let_def)

text \<open>A step reads only inside the buffer, and moves on past a start code.\<close>

lemma avc_step_total:
  assumes "i \<le> length p"
  shows "\<exists>r. avc_step p i st = Some r \<and> (\<forall>n st'. r = Inr (n, st') \<longrightarrow> i < n \<and> n \<le> length p)"
proof -
  obtain k where k: "camera_start_code p i = Some k" "k \<in> {0, 3, 4}" "k \<noteq> 0 \<longrightarrow> i + k \<le> length p"
    using camera_start_code_total by blast
  show ?thesis
  proof (cases "k = 0")
    case False
    then have ik: "i + k \<le> length p" using k(3) by blast
    obtain n where n: "scan_nal_end p (i + k) = Some n" "i + k \<le> n" "n \<le> length p"
      using scan_nal_end_total [OF ik] by blast
    obtain e where e: "trim_zeros p (i + k) n = Some e" "i + k \<le> e" "e \<le> n"
      using trim_zeros_total [OF n(2,3)] by blast
    have "e \<le> length p" using e(3) n(3) by simp
    then obtain r where "avc_nal p (i + k) e st = Some r" using avc_nal_total [OF e(2)] by blast
    then show ?thesis using k n e False by (auto simp: avc_step_def split: sum.split)
  qed (simp add: avc_step_def k)
qed

function avc_loop :: "bytes \<Rightarrow> nat \<Rightarrow> avc_state \<Rightarrow> (unit + avc_state) option" where
  "avc_loop p i st =
     (if length p \<le> i then Some (Inr st)
      else case avc_step p i st of
        None \<Rightarrow> None
      | Some (Inl _) \<Rightarrow> Some (Inl ())
      | Some (Inr (n, st')) \<Rightarrow> avc_loop p n st')"
  by pat_completeness simp_all
termination avc_loop
proof (relation "measure (\<lambda>(p, i, st). length p - i)")
  fix p :: bytes and i st x r y n st'
  assume a: "\<not> length p \<le> i" "avc_step p i st = Some x" "x = Inr y" "(n, st') = y"
  then have "i < n" using avc_step_total [of i p st] by auto
  then show "((p, n, st'), p, i, st) \<in> measure (\<lambda>(p, i, st). length p - i)" using a(1) by auto
qed simp

declare avc_loop.simps [simp del]

definition avc_initial :: avc_state where
  "avc_initial = \<lparr>av_payload = \<lparr>cp_nals = [], cp_sps = PLANKCameraMaxNALs,
     cp_pps = PLANKCameraMaxNALs, cp_independent = False\<rparr>, av_dependent = False, av_adapted = 0\<rparr>"

definition camera_parse_avc :: "bytes \<Rightarrow> (camera_payload option) option" where
  "camera_parse_avc p =
     do { r \<leftarrow> avc_loop p 0 avc_initial;
          Some (case r of
             Inl _ \<Rightarrow> None
           | Inr st \<Rightarrow>
               let q = av_payload st; n = length (cp_nals q) in
               if n \<noteq> 0 \<and> av_dependent st \<noteq> cp_independent q \<and>
                  (\<not> cp_independent q \<or> cp_sps q < n \<and> cp_pps q < n)
               then Some q else None) }"

section \<open>JPEG\<close>

record jpeg_state =
  jp_at :: nat
  jp_components :: nat
  jp_ids :: "u8 list"
  jp_markers :: nat
  jp_scan :: bool

function skip_ff :: "bytes \<Rightarrow> nat \<Rightarrow> nat option" where
  "skip_ff p i = (if length p \<le> i then Some i
     else do { b \<leftarrow> rd p i; if b = 0xff then skip_ff p (i + 1) else Some i })"
  by pat_completeness simp_all
termination skip_ff by (relation "measure (\<lambda>(p, i). length p - i)") simp_all

declare skip_ff.simps [simp del]

text \<open>The component loop of a frame header at \<^verbatim>\<open>d\<close>.\<close>

fun jpeg_component_loop :: "bytes \<Rightarrow> nat \<Rightarrow> nat \<Rightarrow> nat \<Rightarrow> u8 list \<Rightarrow> (u8 list option) option" where
  "jpeg_component_loop p d i 0 ids = Some (Some ids)"
| "jpeg_component_loop p d i (Suc n) ids =
     do { component \<leftarrow> rd p (d + 6 + 3 * i);
          sampling \<leftarrow> rd p (d + 7 + 3 * i);
          table \<leftarrow> rd p (d + 8 + 3 * i);
          let hi = unat (drop_bit 4 sampling); lo = unat (and sampling 15) in
          if hi = 0 \<or> 4 < hi \<or> lo = 0 \<or> 4 < lo \<or> 3 < table \<or> component \<in> set ids then Some None
          else jpeg_component_loop p d (i + 1) n (ids @ [component]) }"

definition be_pair :: "u8 \<Rightarrow> u8 \<Rightarrow> nat" where
  "be_pair h l = unat h * 256 + unat l"

definition jpeg_frame :: "bytes \<Rightarrow> nat \<Rightarrow> nat \<Rightarrow> u16 \<Rightarrow> u16 \<Rightarrow> jpeg_state \<Rightarrow> (jpeg_state option) option" where
  "jpeg_frame p d payload width height st =
     (if jp_components st \<noteq> 0 \<or> payload < 6 then Some None
      else do {
        precision \<leftarrow> rd p d;
        h1 \<leftarrow> rd p (d + 1); h2 \<leftarrow> rd p (d + 2); w1 \<leftarrow> rd p (d + 3); w2 \<leftarrow> rd p (d + 4); n \<leftarrow> rd p (d + 5);
        if precision \<noteq> 8 \<or> be_pair h1 h2 \<noteq> unat height \<or> be_pair w1 w2 \<noteq> unat width then Some None
        else if n \<noteq> 1 \<and> n \<noteq> 3 \<or> payload \<noteq> 6 + 3 * unat n then Some None
        else do {
          ids \<leftarrow> jpeg_component_loop p d 0 (unat n) [];
          Some (map_option (\<lambda>xs. st\<lparr>jp_components := unat n, jp_ids := xs\<rparr>) ids) } })"

text \<open>The component loop of a scan header: each selector names a component, none of them twice.\<close>

definition last_index :: "u8 list \<Rightarrow> nat \<Rightarrow> u8 \<Rightarrow> nat" where
  "last_index ids n x = foldl (\<lambda>f j. if ids ! j = x then j else f) n [0..<n]"

fun jpeg_selector_loop :: "bytes \<Rightarrow> nat \<Rightarrow> nat \<Rightarrow> nat \<Rightarrow> nat \<Rightarrow> u8 list \<Rightarrow> u32 \<Rightarrow> bool option" where
  "jpeg_selector_loop p d components i 0 ids seen = Some True"
| "jpeg_selector_loop p d components i (Suc n) ids seen =
     do { tables \<leftarrow> rd p (d + 2 + 2 * i);
          selector \<leftarrow> rd p (d + 1 + 2 * i);
          let found = last_index ids components selector in
          if found = components \<or> bit seen found \<or> 3 < unat (drop_bit 4 tables) \<or> 3 < unat (and tables 15)
          then Some False
          else jpeg_selector_loop p d components (i + 1) n ids (or seen (push_bit found 1)) }"

definition jpeg_scan_header :: "bytes \<Rightarrow> nat \<Rightarrow> nat \<Rightarrow> jpeg_state \<Rightarrow> (jpeg_state option) option" where
  "jpeg_scan_header p d payload st =
     (let n = jp_components st in
      if n = 0 \<or> payload \<noteq> 4 + 2 * n then Some None
      else do {
        c \<leftarrow> rd p d; s0 \<leftarrow> rd p (d + payload - 3); s1 \<leftarrow> rd p (d + payload - 2); s2 \<leftarrow> rd p (d + payload - 1);
        if unat c \<noteq> n \<or> s0 \<noteq> 0 \<or> s1 \<noteq> 63 \<or> s2 \<noteq> 0 then Some None
        else do {
          ok \<leftarrow> jpeg_selector_loop p d n 0 n (jp_ids st) 0;
          Some (if ok then Some (st\<lparr>jp_scan := True\<rparr>) else None) } })"

text \<open>Entropy-coded bytes up to a marker; \<^verbatim>\<open>Some None\<close> is a return of false.\<close>

function jpeg_entropy :: "bytes \<Rightarrow> nat \<Rightarrow> (nat option) option" where
  "jpeg_entropy p i =
     (if length p \<le> i then Some (Some i)
      else do {
        b \<leftarrow> rd p i;
        if b \<noteq> 0xff then jpeg_entropy p (i + 1)
        else if length p - i < 2 then Some None
        else do {
          c \<leftarrow> rd p (i + 1);
          if c = 0 \<or> 0xd0 \<le> c \<and> c \<le> 0xd7 then jpeg_entropy p (i + 2) else Some (Some i) } })"
  by pat_completeness simp_all
termination jpeg_entropy by (relation "measure (\<lambda>(p, i). length p - i)") simp_all

declare jpeg_entropy.simps [simp del]

definition jpeg_segment ::
  "bytes \<Rightarrow> u8 \<Rightarrow> nat \<Rightarrow> nat \<Rightarrow> u16 \<Rightarrow> u16 \<Rightarrow> jpeg_state \<Rightarrow> (jpeg_state option) option" where
  "jpeg_segment p marker d payload width height st =
     (if marker = 0xc0 then jpeg_frame p d payload width height st
      else if marker = 0xda then jpeg_scan_header p d payload st
      else Some (if marker \<noteq> 0xc4 \<and> marker \<noteq> 0xdb \<and> marker \<noteq> 0xdd \<and> marker \<noteq> 0xfe \<and>
                    \<not> (0xe0 \<le> marker \<and> marker \<le> 0xef) then None else Some st))"

text \<open>
  One iteration of the marker loop; \<^verbatim>\<open>Inl b\<close> returns \<^verbatim>\<open>b\<close>. \<^verbatim>\<open>jpeg_body\<close> is its second half, from the
  segment length at \<^verbatim>\<open>at\<close> on.
\<close>

definition jpeg_scan_data :: "bytes \<Rightarrow> nat \<Rightarrow> jpeg_state \<Rightarrow> (bool + jpeg_state) option" where
  "jpeg_scan_data p start st =
     (if \<not> jp_scan st then Some (Inr (st\<lparr>jp_at := start\<rparr>))
      else do {
        r \<leftarrow> jpeg_entropy p start;
        Some (case r of
           None \<Rightarrow> Inl False
         | Some at \<Rightarrow> if at = start then Inl False else Inr (st\<lparr>jp_at := at\<rparr>)) })"

definition jpeg_body :: "bytes \<Rightarrow> u8 \<Rightarrow> nat \<Rightarrow> u16 \<Rightarrow> u16 \<Rightarrow> jpeg_state \<Rightarrow> (bool + jpeg_state) option" where
  "jpeg_body p marker at width height st =
     do {
       h \<leftarrow> rd p at;
       l \<leftarrow> rd p (at + 1);
       let len = be_pair h l in
       if len < 2 \<or> length p - at < len then Some (Inl False)
       else do {
         r \<leftarrow> jpeg_segment p marker (at + 2) (len - 2) width height st;
         case r of
           None \<Rightarrow> Some (Inl False)
         | Some st1 \<Rightarrow> jpeg_scan_data p (at + len) st1 } }"

definition jpeg_step :: "bytes \<Rightarrow> u16 \<Rightarrow> u16 \<Rightarrow> jpeg_state \<Rightarrow> (bool + jpeg_state) option" where
  "jpeg_step p width height st =
     (if 512 < jp_markers st + 1 then Some (Inl False)
      else do {
        b \<leftarrow> rd p (jp_at st);
        if b \<noteq> 0xff then Some (Inl False) else do {
        at \<leftarrow> skip_ff p (jp_at st + 1);
        if at = length p then Some (Inl False) else do {
        marker \<leftarrow> rd p at;
        if marker = 0xd9 then Some (Inl (jp_scan st \<and> at + 1 = length p))
        else if jp_scan st \<or> marker = 0 \<or> marker = 1 \<or> 0xd0 \<le> marker \<and> marker \<le> 0xd8 \<or>
          length p - (at + 1) < 2
        then Some (Inl False)
        else jpeg_body p marker (at + 1) width height (st\<lparr>jp_markers := jp_markers st + 1\<rparr>) }}})"

lemma skip_ff_total: "i \<le> length p \<Longrightarrow> \<exists>n. skip_ff p i = Some n \<and> i \<le> n \<and> n \<le> length p"
proof (induction p i rule: skip_ff.induct)
  case (1 p i)
  show ?case
  proof (cases "i < length p \<and> p ! i = 0xff")
    case True
    then obtain m where "skip_ff p (i + 1) = Some m" "i + 1 \<le> m" "m \<le> length p"
      using 1(1) [of "p ! i"] by auto
    then show ?thesis using True by (subst skip_ff.simps) simp
  next
    case False
    then show ?thesis using 1(2) by (subst skip_ff.simps) auto
  qed
qed

lemma jpeg_entropy_total:
  "i \<le> length p \<Longrightarrow> \<exists>r. jpeg_entropy p i = Some r \<and> (\<forall>n. r = Some n \<longrightarrow> i \<le> n \<and> n \<le> length p)"
proof (induction p i rule: jpeg_entropy.induct)
  case (1 p i)
  show ?case
  proof (cases "length p \<le> i \<or> p ! i = 0xff \<and> length p - i < 2")
    case True
    then show ?thesis using 1(3) by (subst jpeg_entropy.simps) auto
  next
    case inside: False
    show ?thesis
    proof (cases "p ! i = 0xff")
      case ff: True
      then have i1: "i + 1 < length p" "\<not> length p - i < 2" using inside by linarith+
      show ?thesis
      proof (cases "p ! (i + 1) = 0 \<or> 0xd0 \<le> p ! (i + 1) \<and> p ! (i + 1) \<le> 0xd7")
        case True
        then obtain r where "jpeg_entropy p (i + 2) = Some r" "\<forall>n. r = Some n \<longrightarrow> i + 2 \<le> n \<and> n \<le> length p"
          using 1(2) [of "p ! i" "p ! (i + 1)"] ff i1 by auto
        then show ?thesis using True ff i1 by (subst jpeg_entropy.simps) auto
      next
        case False
        then show ?thesis using ff i1 by (subst jpeg_entropy.simps) auto
      qed
    next
      case False
      then obtain r where "jpeg_entropy p (i + 1) = Some r" "\<forall>n. r = Some n \<longrightarrow> i + 1 \<le> n \<and> n \<le> length p"
        using 1(1) [of "p ! i"] inside by auto
      then show ?thesis using False inside by (subst jpeg_entropy.simps) auto
    qed
  qed
qed

lemma jpeg_component_loop_total:
  "d + 6 + 3 * (i + n) \<le> length p \<Longrightarrow> jpeg_component_loop p d i n ids \<noteq> None"
  by (induction p d i n ids rule: jpeg_component_loop.induct) (auto simp: Let_def)

lemma jpeg_selector_loop_total:
  "d + 2 + 2 * (i + n) \<le> length p \<Longrightarrow> jpeg_selector_loop p d k i n ids seen \<noteq> None"
  by (induction p d k i n ids seen rule: jpeg_selector_loop.induct) (auto simp: Let_def)

lemma jpeg_frame_total: "d + payload \<le> length p \<Longrightarrow> jpeg_frame p d payload w h st \<noteq> None"
  using jpeg_component_loop_total [of d 0 "unat (p ! (d + 5))" p "[]"]
  by (auto simp: jpeg_frame_def)

lemma jpeg_scan_header_total:
  assumes "d + payload \<le> length p"
  shows "jpeg_scan_header p d payload st \<noteq> None"
proof (cases "jp_components st = 0 \<or> payload \<noteq> 4 + 2 * jp_components st")
  case False
  then have "jpeg_selector_loop p d (jp_components st) 0 (jp_components st) (jp_ids st) 0 \<noteq> None"
    using assms by (intro jpeg_selector_loop_total) simp
  then obtain ok where "jpeg_selector_loop p d (jp_components st) 0 (jp_components st) (jp_ids st) 0 = Some ok"
    by blast
  moreover have "d < length p" "d + payload - 3 < length p" "d + payload - 2 < length p" "d + payload - 1 < length p"
    using assms False by auto
  ultimately show ?thesis by (simp only: jpeg_scan_header_def Let_def rd_in bind.bind_lunit) simp
qed (auto simp: jpeg_scan_header_def Let_def)

lemma jpeg_segment_total: "d + payload \<le> length p \<Longrightarrow> \<exists>r. jpeg_segment p marker d payload w h st = Some r"
  using jpeg_frame_total jpeg_scan_header_total by (simp add: jpeg_segment_def)

lemma jpeg_scan_data_total:
  assumes "start \<le> length p"
  shows "\<exists>r. jpeg_scan_data p start st = Some r \<and> (\<forall>st'. r = Inr st' \<longrightarrow> start \<le> jp_at st' \<and> jp_at st' \<le> length p)"
proof -
  obtain e where "jpeg_entropy p start = Some e" "\<forall>n. e = Some n \<longrightarrow> start \<le> n \<and> n \<le> length p"
    using jpeg_entropy_total [OF assms] by blast
  then show ?thesis using assms by (auto simp: jpeg_scan_data_def split: option.split)
qed

lemma jpeg_body_total:
  assumes "at + 2 \<le> length p"
  shows "\<exists>r. jpeg_body p marker at w h st = Some r \<and> (\<forall>st'. r = Inr st' \<longrightarrow> at < jp_at st' \<and> jp_at st' \<le> length p)"
proof -
  define len where "len = be_pair (p ! at) (p ! (at + 1))"
  have at: "at < length p" "at + 1 < length p" using assms by auto
  have body: "jpeg_body p marker at w h st =
    (if len < 2 \<or> length p - at < len then Some (Inl False)
     else jpeg_segment p marker (at + 2) (len - 2) w h st \<bind>
       (\<lambda>r. case r of None \<Rightarrow> Some (Inl False) | Some st1 \<Rightarrow> jpeg_scan_data p (at + len) st1))"
    unfolding jpeg_body_def len_def using at by (simp only: rd_in bind.bind_lunit Let_def)
  show ?thesis
  proof (cases "len < 2 \<or> length p - at < len")
    case False
    then have "at + 2 + (len - 2) \<le> length p" and end_le: "at + len \<le> length p" using at by auto
    then obtain r where r: "jpeg_segment p marker (at + 2) (len - 2) w h st = Some r"
      using jpeg_segment_total by blast
    show ?thesis
    proof (cases r)
      case (Some st1)
      obtain q where "jpeg_scan_data p (at + len) st1 = Some q"
        "\<forall>st'. q = Inr st' \<longrightarrow> at + len \<le> jp_at st' \<and> jp_at st' \<le> length p"
        using jpeg_scan_data_total [OF end_le] by blast
      then show ?thesis using False r Some by (auto simp: body)
    qed (use r in \<open>simp add: body\<close>)
  qed (auto simp: body)
qed

lemma jpeg_step_total:
  assumes "jp_at st < length p"
  shows "\<exists>r. jpeg_step p w h st = Some r \<and> (\<forall>st'. r = Inr st' \<longrightarrow> jp_at st < jp_at st' \<and> jp_at st' \<le> length p)"
proof -
  obtain at where at: "skip_ff p (jp_at st + 1) = Some at" "jp_at st + 1 \<le> at" "at \<le> length p"
    using skip_ff_total [of "jp_at st + 1" p] assms by auto
  show ?thesis
  proof (cases "at = length p \<or> length p - (at + 1) < 2")
    case True
    then show ?thesis using assms at by (cases "at = length p") (simp_all add: jpeg_step_def)
  next
    case False
    then have two: "at + 1 + 2 \<le> length p" "at < length p" using at(3) by linarith+
    obtain r where "jpeg_body p (p ! at) (at + 1) w h (st\<lparr>jp_markers := jp_markers st + 1\<rparr>) = Some r"
      "\<forall>st'. r = Inr st' \<longrightarrow> at + 1 < jp_at st' \<and> jp_at st' \<le> length p"
      using jpeg_body_total [OF two(1)] by blast
    then show ?thesis using assms at(1,2) two(2) by (auto simp: jpeg_step_def)
  qed
qed

function jpeg_loop :: "bytes \<Rightarrow> u16 \<Rightarrow> u16 \<Rightarrow> jpeg_state \<Rightarrow> bool option" where
  "jpeg_loop p width height st =
     (if length p \<le> jp_at st then Some False
      else case jpeg_step p width height st of
        None \<Rightarrow> None
      | Some (Inl b) \<Rightarrow> Some b
      | Some (Inr st') \<Rightarrow> jpeg_loop p width height st')"
  by pat_completeness simp_all
termination jpeg_loop
proof (relation "measure (\<lambda>(p, w, h, st). length p - jp_at st)")
  fix p :: bytes and w h st x st'
  assume a: "\<not> length p \<le> jp_at st" "jpeg_step p w h st = Some x" "x = Inr st'"
  then have "jp_at st < jp_at st'" using jpeg_step_total [of st p w h] by auto
  then show "((p, w, h, st'), p, w, h, st) \<in> measure (\<lambda>(p, w, h, st). length p - jp_at st)"
    using a(1) by auto
qed simp

declare jpeg_loop.simps [simp del]

definition camera_parse_jpeg :: "bytes \<Rightarrow> u16 \<Rightarrow> u16 \<Rightarrow> bool option" where
  "camera_parse_jpeg p width height =
     (if length p < 4 then Some False
      else do {
        b0 \<leftarrow> rd p 0;
        if b0 \<noteq> 0xff then Some False else do {
        b1 \<leftarrow> rd p 1;
        if b1 \<noteq> 0xd8 then Some False
        else jpeg_loop p width height
          \<lparr>jp_at = 2, jp_components = 0, jp_ids = [], jp_markers = 0, jp_scan = False\<rparr> }})"

section \<open>Both codecs\<close>

text \<open>
  The pointers that may be null are options, the size is the length of the buffer. The result is the
  structure behind the result pointer when the function returns true.
\<close>

definition camera_parse_payload ::
  "camera_header option \<Rightarrow> bytes option \<Rightarrow> (camera_payload option) option" where
  "camera_parse_payload header bytes =
     (case bytes of
        None \<Rightarrow> Some None
      | Some p \<Rightarrow>
          if \<not> plank_camera_header_valid header (length p) then Some None
          else
            let h = the header in
            if ch_codec h = PLANK_CAMERA_MJPEG then
              map_option (\<lambda>ok. if ok then Some \<lparr>cp_nals = [], cp_sps = 0, cp_pps = 0, cp_independent = True\<rparr> else None)
                (camera_parse_jpeg p (ch_width h) (ch_height h))
            else do {
              r \<leftarrow> camera_parse_avc p;
              Some (case r of
                 None \<Rightarrow> None
               | Some q \<Rightarrow> if cp_independent q = (and (ch_flags h) PLANK_CAMERA_KEY_FRAME \<noteq> 0)
                          then Some q else None) })"

section \<open>No read outside the buffer\<close>

lemma avc_loop_total: "i \<le> length p \<Longrightarrow> avc_loop p i st \<noteq> None"
proof (induction p i st rule: avc_loop.induct)
  case (1 p i st)
  obtain r where r: "avc_step p i st = Some r" "\<forall>n st'. r = Inr (n, st') \<longrightarrow> n \<le> length p"
    using avc_step_total [OF 1(2)] by blast
  show ?case
  proof (cases "length p \<le> i")
    case False
    show ?thesis
    proof (cases r)
      case (Inr y)
      obtain n st' where "y = (n, st')" by fastforce
      then have "avc_loop p n st' \<noteq> None" using 1(1) [OF False r(1) Inr] r(2) Inr by auto
      then show ?thesis using False r(1) Inr \<open>y = (n, st')\<close> by (subst avc_loop.simps) simp
    qed (use False r(1) in \<open>subst avc_loop.simps, simp\<close>)
  qed (subst avc_loop.simps, simp)
qed

lemma jpeg_loop_total: "jpeg_loop p w h st \<noteq> None"
proof (induction p w h st rule: jpeg_loop.induct)
  case (1 p w h st)
  show ?case
  proof (cases "length p \<le> jp_at st")
    case False
    then obtain r where r: "jpeg_step p w h st = Some r" using jpeg_step_total [of st p w h] by auto
    show ?thesis
    proof (cases r)
      case (Inr st')
      then have "jpeg_loop p w h st' \<noteq> None" using 1 [OF False r Inr] by simp
      then show ?thesis using False r Inr by (subst jpeg_loop.simps) simp
    qed (use False r in \<open>subst jpeg_loop.simps, simp\<close>)
  qed (subst jpeg_loop.simps, simp)
qed

lemma camera_parse_avc_total: "\<exists>r. camera_parse_avc p = Some r"
  using avc_loop_total [of 0 p avc_initial] by (auto simp: camera_parse_avc_def)

lemma camera_parse_jpeg_total: "\<exists>b. camera_parse_jpeg p w h = Some b"
proof (cases "length p < 4")
  case False
  then have "0 < length p" "1 < length p" by linarith+
  then show ?thesis using jpeg_loop_total by (auto simp: camera_parse_jpeg_def)
qed (auto simp: camera_parse_jpeg_def)

text \<open>C30: Whatever the header and the payload of a camera frame are, the parser returns a verdict: it
  terminates and never reads a byte outside the buffer it was given.\<close>

theorem camera_parse_in_bounds: "\<exists>verdict. camera_parse_payload header bytes = Some verdict"
proof (cases "bytes")
  case (Some p)
  obtain r where "camera_parse_avc p = Some r" using camera_parse_avc_total by blast
  moreover obtain b where "camera_parse_jpeg p (ch_width (the header)) (ch_height (the header)) = Some b"
    using camera_parse_jpeg_total by blast
  ultimately show ?thesis using Some by (simp add: camera_parse_payload_def Let_def)
qed (simp add: camera_parse_payload_def)

section \<open>What an accepted H.264 payload is\<close>

text \<open>
  The byte stream of Annex B as a list of chunks: a start code of three or four bytes, a NAL unit, and
  zero bytes after it.
\<close>

type_synonym nal_chunk = "nat \<times> bytes \<times> nat"

definition chunk_bytes :: "nal_chunk \<Rightarrow> bytes" where
  "chunk_bytes = (\<lambda>(k, body, z). replicate (k - 1) 0 @ [1] @ body @ replicate z 0)"

definition chunk_ok :: "nal_chunk \<Rightarrow> bool" where
  "chunk_ok = (\<lambda>(k, body, z). k \<in> {3, 4} \<and> body \<noteq> [] \<and> last body \<noteq> 0 \<and> and (hd body) 0x80 = 0)"

definition nal_bytes :: "bytes \<Rightarrow> camera_nal \<Rightarrow> bytes" where
  "nal_bytes p n = take (nal_size n) (drop (nal_offset n) p)"

lemma start_code_bytes:
  assumes "camera_start_code p i = Some k" "k \<noteq> 0"
  shows "k \<in> {3, 4}" "i + k \<le> length p" "take k (drop i p) = replicate (k - 1) 0 @ [1]"
proof -
  show k: "k \<in> {3, 4}" "i + k \<le> length p" using assms camera_start_code_total [of p i] by auto
  have "\<And>j. j < k \<Longrightarrow> p ! (i + j) = (replicate (k - 1) 0 @ [1]) ! j"
    using assms k
    by (auto simp: camera_start_code_def rd_def nth_append less_Suc_eq numeral_eq_Suc split: if_splits)
  then show "take k (drop i p) = replicate (k - 1) 0 @ [1]"
    using k by (intro nth_equalityI) auto
qed

lemma trim_zeros_bytes:
  "trim_zeros p begin e = Some n \<Longrightarrow> begin \<le> e \<Longrightarrow> e \<le> length p \<Longrightarrow>
     (\<forall>j. n \<le> j \<and> j < e \<longrightarrow> p ! j = 0) \<and> (begin < n \<longrightarrow> p ! (n - 1) \<noteq> 0)"
proof (induction p "begin" e rule: trim_zeros.induct)
  case (2 p b e)
  show ?case
  proof (cases "b < Suc e \<and> p ! e = 0")
    case True
    then have "trim_zeros p b e = Some n" using 2(2,4) by simp
    then have "(\<forall>j. n \<le> j \<and> j < e \<longrightarrow> p ! j = 0) \<and> (b < n \<longrightarrow> p ! (n - 1) \<noteq> 0)"
      using 2(1) [of "p ! e"] True 2(4) by simp
    then show ?thesis using True by (auto simp: less_Suc_eq)
  next
    case False
    then have "n = Suc e" using 2(2,4) by (auto split: if_splits)
    then show ?thesis using False by auto
  qed
qed simp

lemma take_split: "a \<le> b \<Longrightarrow> take b p = take a p @ take (b - a) (drop a p)"
  by (metis le_add_diff_inverse take_add)

text \<open>The facts a successful iteration establishes, apart from the bookkeeping.\<close>

lemma avc_step_next:
  assumes "avc_step p i st = Some (Inr (n, st'))" "i \<le> length p"
  obtains k e where "avc_nal p (i + k) e st = Some (Inr st')" "length (cp_nals (av_payload st)) \<noteq> PLANKCameraMaxNALs"
    "i + k < e" "e \<le> n" "n \<le> length p" "k \<in> {3, 4}" "p ! (e - 1) \<noteq> 0"
    "take n p = take i p @ replicate (k - 1) 0 @ [1] @ take (e - (i + k)) (drop (i + k) p) @ replicate (n - e) 0"
proof -
  obtain k where k: "camera_start_code p i = Some k" "k \<noteq> 0"
    and full: "length (cp_nals (av_payload st)) \<noteq> PLANKCameraMaxNALs"
    using assms(1) by (cases "camera_start_code p i") (auto simp: avc_step_def split: if_splits)
  note sc = start_code_bytes [OF k]
  obtain m where m: "scan_nal_end p (i + k) = Some m" "i + k \<le> m" "m \<le> length p"
    using scan_nal_end_total [OF sc(2)] by blast
  obtain e where e: "trim_zeros p (i + k) m = Some e" "i + k \<le> e" "e \<le> m"
    using trim_zeros_total [OF m(2,3)] by blast
  obtain r where r: "avc_nal p (i + k) e st = Some r"
    using avc_nal_total [OF e(2)] e(3) m(3) by force
  have nal: "avc_nal p (i + k) e st = Some (Inr st')" and n: "n = m"
    using assms(1) k full m e r by (auto simp: avc_step_def split: sum.splits)
  have "e \<noteq> i + k" using nal by (auto simp: avc_nal_def)
  then have lt: "i + k < e" using e(2) by simp
  have z: "\<forall>j. e \<le> j \<and> j < m \<longrightarrow> p ! j = 0" and last: "p ! (e - 1) \<noteq> 0"
    using trim_zeros_bytes [OF e(1) m(2,3)] lt by auto
  have "take n p = take i p @ take k (drop i p) @ take (e - (i + k)) (drop (i + k) p) @ take (n - e) (drop e p)"
    using take_split [of i "i + k" p] take_split [of "i + k" e p] take_split [of e n p] lt e(3) n by simp
  moreover have "take (n - e) (drop e p) = replicate (n - e) 0"
    using z n m(3) by (intro nth_equalityI) auto
  ultimately show thesis using that nal full lt e(3) m(3) n sc(1,3) last by simp
qed

text \<open>The loop invariant.\<close>

definition parameter_index :: "nat \<Rightarrow> camera_nal list \<Rightarrow> nat \<Rightarrow> bool" where
  "parameter_index t nals i \<longleftrightarrow>
     (\<forall>j < length nals. nal_type (nals ! j) = t \<longleftrightarrow> j = i) \<and>
     (i < length nals \<or> i = PLANKCameraMaxNALs)"

definition avc_inv :: "bytes \<Rightarrow> nat \<Rightarrow> avc_state \<Rightarrow> bool" where
  "avc_inv p i st \<longleftrightarrow>
     (let q = av_payload st; nals = cp_nals q in
      i \<le> length p \<and> length nals \<le> PLANKCameraMaxNALs \<and>
      (\<exists>cs. take i p = concat (map chunk_bytes cs) \<and> list_all chunk_ok cs \<and>
            map (fst \<circ> snd) cs = map (nal_bytes p) nals) \<and>
      av_adapted st = sum_list (map (\<lambda>n. 4 + nal_size n) nals) \<and>
      av_adapted st \<le> PLANK_CAMERA_MAX_FRAME_BYTES \<and>
      (av_dependent st \<longleftrightarrow> (\<exists>n \<in> set nals. nal_type n = 1)) \<and>
      (cp_independent q \<longleftrightarrow> (\<exists>n \<in> set nals. nal_type n = 5)) \<and>
      parameter_index 7 nals (cp_sps q) \<and> parameter_index 8 nals (cp_pps q))"

lemma parameter_index_append:
  assumes "parameter_index t nals i" "length nals < PLANKCameraMaxNALs"
    "nal_type n = t \<Longrightarrow> i = PLANKCameraMaxNALs"
  shows "parameter_index t (nals @ [n]) (if nal_type n = t then length nals else i)"
  using assms by (auto simp: parameter_index_def nth_append less_Suc_eq)

lemma avc_nal_result:
  assumes "avc_nal p b e st = Some (Inr st')" "b < e" "e \<le> length p"
  defines "t \<equiv> unat (and (p ! b) 31)" and "q \<equiv> av_payload st"
  shows "cp_nals (av_payload st') = cp_nals q @ [\<lparr>nal_offset = b, nal_size = e - b, nal_type = t\<rparr>]"
    "and (p ! b) 0x80 = 0"
    "av_adapted st' = av_adapted st + 4 + (e - b)" "av_adapted st' \<le> PLANK_CAMERA_MAX_FRAME_BYTES"
    "av_dependent st' \<longleftrightarrow> av_dependent st \<or> t = 1"
    "cp_independent (av_payload st') \<longleftrightarrow> cp_independent q \<or> t = 5"
    "cp_sps (av_payload st') = (if t = 7 then length (cp_nals q) else cp_sps q)"
    "cp_pps (av_payload st') = (if t = 8 then length (cp_nals q) else cp_pps q)"
    "t = 7 \<Longrightarrow> cp_sps q = PLANKCameraMaxNALs" "t = 8 \<Longrightarrow> cp_pps q = PLANKCameraMaxNALs"
proof -
  have "b < length p" "e \<noteq> b" using assms(2,3) by auto
  note nal = assms(1) [unfolded avc_nal_def rd_in [OF this(1)] if_not_P [OF this(2)] bind.bind_lunit Let_def,
      folded t_def q_def]
  show "cp_nals (av_payload st') = cp_nals q @ [\<lparr>nal_offset = b, nal_size = e - b, nal_type = t\<rparr>]"
    "and (p ! b) 0x80 = 0"
    "av_adapted st' = av_adapted st + 4 + (e - b)" "av_adapted st' \<le> PLANK_CAMERA_MAX_FRAME_BYTES"
    "av_dependent st' \<longleftrightarrow> av_dependent st \<or> t = 1"
    "cp_independent (av_payload st') \<longleftrightarrow> cp_independent q \<or> t = 5"
    "cp_sps (av_payload st') = (if t = 7 then length (cp_nals q) else cp_sps q)"
    "cp_pps (av_payload st') = (if t = 8 then length (cp_nals q) else cp_pps q)"
    "t = 7 \<Longrightarrow> cp_sps q = PLANKCameraMaxNALs" "t = 8 \<Longrightarrow> cp_pps q = PLANKCameraMaxNALs"
    using nal by (auto split: if_splits)
qed

lemma avc_inv_initial: "avc_inv p 0 avc_initial"
  by (simp add: avc_inv_def avc_initial_def parameter_index_def)

lemma avc_step_inv:
  assumes inv: "avc_inv p i st" and step: "avc_step p i st = Some (Inr (n, st'))"
  shows "avc_inv p n st'"
proof -
  have i: "i \<le> length p" using inv by (simp add: avc_inv_def Let_def)
  obtain k e where nal: "avc_nal p (i + k) e st = Some (Inr st')"
    and room: "length (cp_nals (av_payload st)) \<noteq> PLANKCameraMaxNALs"
    and le: "i + k < e" "e \<le> n" "n \<le> length p" and k: "k \<in> {3, 4}" and last: "p ! (e - 1) \<noteq> 0"
    and upto: "take n p = take i p @ replicate (k - 1) 0 @ [1] @ take (e - (i + k)) (drop (i + k) p) @ replicate (n - e) 0"
    using avc_step_next [OF step i] by blast
  have el: "e \<le> length p" using le by simp
  note res = avc_nal_result [OF nal le(1) el]
  define body where "body = take (e - (i + k)) (drop (i + k) p)"
  have body: "body \<noteq> []" "last body = p ! (e - 1)" "hd body = p ! (i + k)"
    using le el by (auto simp: body_def last_conv_nth hd_conv_nth)
  obtain cs where cs: "take i p = concat (map chunk_bytes cs)" "list_all chunk_ok cs"
    "map (fst \<circ> snd) cs = map (nal_bytes p) (cp_nals (av_payload st))"
    using inv by (auto simp: avc_inv_def Let_def)
  let ?cs = "cs @ [(k, body, n - e)]"
  have "take n p = concat (map chunk_bytes ?cs)" using upto cs(1) by (simp add: chunk_bytes_def body_def)
  moreover have "list_all chunk_ok ?cs" using cs(2) body k last res(2) by (simp add: chunk_ok_def)
  moreover have "map (fst \<circ> snd) ?cs = map (nal_bytes p) (cp_nals (av_payload st'))"
    using cs(3) res(1) by (simp add: nal_bytes_def body_def)
  ultimately have chunks: "\<exists>cs. take n p = concat (map chunk_bytes cs) \<and> list_all chunk_ok cs \<and>
      map (fst \<circ> snd) cs = map (nal_bytes p) (cp_nals (av_payload st'))" by blast
  have room: "length (cp_nals (av_payload st)) < PLANKCameraMaxNALs"
    using inv room by (simp add: avc_inv_def Let_def)
  have idx: "parameter_index 7 (cp_nals (av_payload st)) (cp_sps (av_payload st))"
    "parameter_index 8 (cp_nals (av_payload st)) (cp_pps (av_payload st))"
    using inv by (simp_all add: avc_inv_def Let_def)
  let ?new = "\<lparr>nal_offset = i + k, nal_size = e - (i + k), nal_type = unat (and (p ! (i + k)) 31)\<rparr>"
  have "parameter_index 7 (cp_nals (av_payload st) @ [?new])
      (if nal_type ?new = 7 then length (cp_nals (av_payload st)) else cp_sps (av_payload st))"
    by (rule parameter_index_append [OF idx(1) room]) (use res(9) in simp)
  moreover have "parameter_index 8 (cp_nals (av_payload st) @ [?new])
      (if nal_type ?new = 8 then length (cp_nals (av_payload st)) else cp_pps (av_payload st))"
    by (rule parameter_index_append [OF idx(2) room]) (use res(10) in simp)
  ultimately have idx': "parameter_index 7 (cp_nals (av_payload st')) (cp_sps (av_payload st'))"
    "parameter_index 8 (cp_nals (av_payload st')) (cp_pps (av_payload st'))"
    unfolding res(1,7,8) by (simp_all only: camera_nal.select_convs)
  have nals: "set (cp_nals (av_payload st')) = insert ?new (set (cp_nals (av_payload st)))"
    "length (cp_nals (av_payload st')) = Suc (length (cp_nals (av_payload st)))"
    "sum_list (map (\<lambda>n. 4 + nal_size n) (cp_nals (av_payload st'))) =
      sum_list (map (\<lambda>n. 4 + nal_size n) (cp_nals (av_payload st))) + 4 + (e - (i + k))"
    using res(1) by simp_all
  show ?thesis unfolding avc_inv_def Let_def
    using chunks idx' le(3) room nals res(3-6) inv [unfolded avc_inv_def Let_def] by (simp add: disj_commute)
qed

lemma avc_loop_inv:
  "avc_loop p i st = Some (Inr st') \<Longrightarrow> avc_inv p i st \<Longrightarrow> avc_inv p (length p) st'"
proof (induction p i st rule: avc_loop.induct)
  case (1 p i st)
  show ?case
  proof (cases "length p \<le> i")
    case True
    then have "st' = st" using 1(2) by (simp add: avc_loop.simps [of p i])
    moreover have "i = length p" using True 1(3) by (simp add: avc_inv_def Let_def)
    ultimately show ?thesis using 1(3) by simp
  next
    case False
    then obtain n st1 where n: "avc_step p i st = Some (Inr (n, st1))" "avc_loop p n st1 = Some (Inr st')"
      using 1(2) by (auto simp: avc_loop.simps [of p i] split: option.splits sum.splits)
    show ?thesis using 1(1) [OF False n(1) refl refl n(2) avc_step_inv [OF 1(3) n(1)]] .
  qed
qed

text \<open>C29: An accepted H.264 payload is, byte for byte, a sequence of start codes, NAL units and trailing
  zeros, and the recorded offsets and sizes are exactly those units: between one and 64 of them, small
  enough to be rewritten with four-byte lengths inside a frame. It is independent exactly when it holds
  IDR slices and no dependent ones, and then it carries its own sequence and picture parameter set,
  each exactly once, at the recorded places.\<close>

theorem accepted_avc_payload:
  assumes "camera_parse_avc p = Some (Some q)"
  shows "(\<exists>cs. p = concat (map chunk_bytes cs) \<and> list_all chunk_ok cs \<and>
      map (fst \<circ> snd) cs = map (nal_bytes p) (cp_nals q)) \<and>
    0 < length (cp_nals q) \<and> length (cp_nals q) \<le> PLANKCameraMaxNALs \<and>
    sum_list (map (\<lambda>n. 4 + nal_size n) (cp_nals q)) \<le> PLANK_CAMERA_MAX_FRAME_BYTES \<and>
    (cp_independent q \<longleftrightarrow> (\<exists>n \<in> set (cp_nals q). nal_type n = 5)) \<and>
    (cp_independent q \<longleftrightarrow> \<not> (\<exists>n \<in> set (cp_nals q). nal_type n = 1)) \<and>
    (cp_independent q \<longrightarrow> (\<forall>j < length (cp_nals q).
      (nal_type (cp_nals q ! j) = 7 \<longleftrightarrow> j = cp_sps q) \<and> (nal_type (cp_nals q ! j) = 8 \<longleftrightarrow> j = cp_pps q))) \<and>
    (cp_independent q \<longrightarrow> cp_sps q < length (cp_nals q) \<and> cp_pps q < length (cp_nals q))"
proof (intro conjI)
  obtain st where st: "avc_loop p 0 avc_initial = Some (Inr st)" "q = av_payload st"
    "cp_nals q \<noteq> []" "av_dependent st \<noteq> cp_independent q"
    "cp_independent q \<longrightarrow> cp_sps q < length (cp_nals q) \<and> cp_pps q < length (cp_nals q)"
    using assms by (cases "avc_loop p 0 avc_initial")
      (auto simp: camera_parse_avc_def Let_def split: sum.splits if_splits)
  have inv: "avc_inv p (length p) st" by (rule avc_loop_inv [OF st(1) avc_inv_initial])
  show "\<exists>cs. p = concat (map chunk_bytes cs) \<and> list_all chunk_ok cs \<and>
      map (fst \<circ> snd) cs = map (nal_bytes p) (cp_nals q)"
    using inv st(2) by (simp add: avc_inv_def Let_def)
  show "0 < length (cp_nals q)" using st(3) by simp
  show "length (cp_nals q) \<le> PLANKCameraMaxNALs"
    "sum_list (map (\<lambda>n. 4 + nal_size n) (cp_nals q)) \<le> PLANK_CAMERA_MAX_FRAME_BYTES"
    "cp_independent q \<longleftrightarrow> (\<exists>n \<in> set (cp_nals q). nal_type n = 5)"
    "cp_independent q \<longleftrightarrow> \<not> (\<exists>n \<in> set (cp_nals q). nal_type n = 1)"
    using inv st(2,4) by (simp_all add: avc_inv_def Let_def)
  show "cp_independent q \<longrightarrow> (\<forall>j < length (cp_nals q).
      (nal_type (cp_nals q ! j) = 7 \<longleftrightarrow> j = cp_sps q) \<and> (nal_type (cp_nals q ! j) = 8 \<longleftrightarrow> j = cp_pps q))"
    using inv st(2) by (simp add: avc_inv_def Let_def parameter_index_def)
  show "cp_independent q \<longrightarrow> cp_sps q < length (cp_nals q) \<and> cp_pps q < length (cp_nals q)"
    using st(5) by blast
qed

text \<open>A recovery picture: parameter sets, then an IDR slice.\<close>

lemma bind_weak_cong: "m = m' \<Longrightarrow> Option.bind m f = Option.bind m' f"
  by simp

lemma trim_zeros_numeral:
  "trim_zeros p b (numeral v) =
     (if b < numeral v then do { x \<leftarrow> rd p (pred_numeral v); if x = 0 then trim_zeros p b (pred_numeral v) else Some (numeral v) }
      else Some (numeral v))"
  unfolding numeral_eq_Suc by simp

definition demo_avc :: bytes where
  "demo_avc = [0, 0, 0, 1, 0x67, 0x42, 0, 0, 1, 0x68, 0xce, 0, 0, 0, 1, 0x65, 0x88]"

lemma accepted_avc_payload_witness:
  "\<exists>q. camera_parse_avc demo_avc = Some (Some q) \<and>
     cp_independent q \<and> cp_sps q < length (cp_nals q) \<and> cp_pps q < length (cp_nals q) \<and>
     map (nal_bytes demo_avc) (cp_nals q) = [[0x67, 0x42], [0x68, 0xce], [0x65, 0x88]]"
proof -
  define q where "q = \<lparr>cp_nals = [\<lparr>nal_offset = 4, nal_size = 2, nal_type = 7\<rparr>,
      \<lparr>nal_offset = 9, nal_size = 2, nal_type = 8\<rparr>, \<lparr>nal_offset = 15, nal_size = 2, nal_type = 5\<rparr>],
    cp_sps = 0, cp_pps = 1, cp_independent = True\<rparr>"
  have "camera_parse_avc demo_avc = Some (Some q)" unfolding q_def
    by (simp add: camera_parse_avc_def avc_initial_def avc_loop.simps avc_step_def scan_nal_end.simps
        camera_start_code_def rd_def avc_nal_def demo_avc_def trim_zeros_numeral Let_def cong: bind_weak_cong)
  moreover have "cp_independent q" by (simp add: q_def)
  moreover have "cp_sps q < length (cp_nals q) \<and> cp_pps q < length (cp_nals q)"
    using accepted_avc_payload [OF calculation(1)] calculation(2) by blast
  moreover have "map (nal_bytes demo_avc) (cp_nals q) = [[0x67, 0x42], [0x68, 0xce], [0x65, 0x88]]"
    by (simp add: q_def nal_bytes_def demo_avc_def)
  ultimately show ?thesis by (intro exI [of _ q] conjI) simp_all
qed

end
