(* ===== verification/Ring.thy ===== *)
theory Ring
  imports Prelude
begin

text \<open>
  Ring buffers. The occupied part of a ring of \<^verbatim>\<open>length xs\<close> slots is a window: \<^verbatim>\<open>c\<close> slots from slot
  \<^verbatim>\<open>s\<close> on, modulo the number of slots. The lemmas say what writes inside and outside a window and
  moves of its ends do to its contents, as lists. The rings of the host (the audio tap, the
  microphone queue) are read through them.
\<close>

definition window :: "'a list \<Rightarrow> nat \<Rightarrow> nat \<Rightarrow> 'a list" where
  "window xs s c = map (\<lambda>k. xs ! ((s + k) mod length xs)) [0..<c]"

lemma length_window [simp]: "length (window xs s c) = c"
  by (simp add: window_def)

lemma window_0 [simp]: "window xs s 0 = []"
  by (simp add: window_def)

lemma nth_window [simp]: "k < c \<Longrightarrow> window xs s c ! k = xs ! ((s + k) mod length xs)"
  by (simp add: window_def)

lemma ring_slot_less [simp]: "xs \<noteq> [] \<Longrightarrow> k mod length xs < length xs"
  by simp

lemma ring_slot_inj_le:
  assumes "(s + i) mod n = (s + j) mod n" "i \<le> j" "j < (n::nat)"
  shows "i = j"
proof -
  have "n dvd (s + j) - (s + i)" using assms(1,2) by (intro mod_eq_dvd_iff_nat [THEN iffD1]) simp_all
  then show ?thesis using assms(2,3) by (auto dest: dvd_imp_le)
qed

lemma ring_slot_inj:
  assumes "(s + i) mod n = (s + j) mod n" "i < n" "j < (n::nat)"
  shows "i = j"
  using assms ring_slot_inj_le [of s i n j] ring_slot_inj_le [of s j n i] by (cases "i \<le> j") simp_all

lemma ring_slot_surj:
  assumes "s < n" "k < (n::nat)"
  shows "\<exists>j < n. (s + j) mod n = k"
proof (cases "s \<le> k")
  case True
  then show ?thesis using assms by (intro exI [of _ "k - s"]) simp
next
  case False
  then have "s + (k + n - s) = k + n" "k + n - s < n" using assms by auto
  then show ?thesis using assms by (intro exI [of _ "k + n - s"]) simp
qed

lemma window_start_mod: "window xs (s mod length xs) c = window xs s c"
  by (simp add: window_def mod_add_left_eq)

lemma window_Suc: "window xs s (Suc c) = window xs s c @ [xs ! ((s + c) mod length xs)]"
  by (simp add: window_def)

lemma window_update_outside:
  assumes "c \<le> k" "k < length xs"
  shows "window (xs[(s + k) mod length xs := x]) s c = window xs s c"
proof (intro nth_equalityI)
  fix i
  assume "i < length (window (xs[(s + k) mod length xs := x]) s c)"
  then have "(s + k) mod length xs \<noteq> (s + i) mod length xs" "i < c"
    using ring_slot_inj [of s k "length xs" i] assms by auto
  then show "window (xs[(s + k) mod length xs := x]) s c ! i = window xs s c ! i" by simp
qed simp

lemma window_push:
  assumes "c < length xs"
  shows "window (xs[(s + c) mod length xs := x]) s (Suc c) = window xs s c @ [x]"
proof -
  have "(s + c) mod length xs < length xs" using assms by (intro mod_less_divisor) linarith
  then show ?thesis using window_update_outside [of c c xs s x] assms by (simp add: window_Suc)
qed

lemma window_drop: "k \<le> c \<Longrightarrow> window xs (s + k) (c - k) = drop k (window xs s c)"
  by (intro nth_equalityI) (simp_all add: add.assoc)

text \<open>Indices of a machine word address the slots of a ring whose size divides the word's range.\<close>

lemma unat_add_mod_dvd:
  fixes a b :: "'w::len word"
  assumes "n dvd 2 ^ LENGTH('w)"
  shows "unat (a + b) mod n = (unat a + unat b) mod n"
  using assms by (simp add: unat_word_ariths mod_mod_cancel)

end
