(* ===== verification/Tap_Buffer.thy ===== *)
theory Tap_Buffer
  imports Ring Step_System "HOL-Library.Sublist"
begin

text \<open>
  The audio tap ring of the macOS host, \<^verbatim>\<open>src/apps/host/macos/media/audio-tap-buffer.h\<close>: one producer
  (the HAL callback) pushes blocks, one consumer (the session queue) peeks and pops them or drops its
  backlog after an overrun. First the operations as the functions they are when no other thread
  interferes, which implement a bounded queue; then the two threads as a step relation whose steps
  are the atomic loads and stores.

  A \<^verbatim>\<open>float\<close> is its bit pattern, which is all the code looks at. The indices stay 32-bit words and wrap.
\<close>

abbreviation PLANKTapSlots :: nat where "PLANKTapSlots \<equiv> 16"
abbreviation PLANKTapMaxFrames :: nat where "PLANKTapMaxFrames \<equiv> 8192"

definition isfinite32 :: "u32 \<Rightarrow> bool" where
  "isfinite32 x \<longleftrightarrow> and x 0x7f800000 \<noteq> 0x7f800000"

record tap_block =
  tb_frames :: u32
  tb_host_time :: u64
  tb_callback_time :: u64
  tb_sample_time :: u64
  tb_samples :: "u32 list"

record tap_buffer =
  tp_read :: u32
  tp_write :: u32
  tp_failed :: int
  tp_overruns :: u32
  tp_stopped :: bool
  tp_blocks :: "tap_block list"

record tap_args =
  ta_left :: "u32 list option"
  ta_right :: "u32 list option"
  ta_frames :: u32
  ta_host_time :: u64
  ta_sample_time :: u64
  ta_callback_time :: u64

definition tap_buffer_init :: "tap_buffer \<Rightarrow> tap_buffer" where
  "tap_buffer_init b = b\<lparr>tp_read := 0, tp_write := 0, tp_failed := 0, tp_stopped := False, tp_overruns := 0\<rparr>"

definition tap_bad_args :: "tap_args \<Rightarrow> bool" where
  "tap_bad_args a \<longleftrightarrow>
     ta_left a = None \<or> ta_frames a = 0 \<or> PLANKTapMaxFrames < unat (ta_frames a) \<or> ta_host_time a = 0"

definition tap_full :: "u32 \<Rightarrow> u32 \<Rightarrow> bool" where
  "tap_full write read \<longleftrightarrow> of_nat PLANKTapSlots \<le> write - read"

definition tap_header :: "tap_args \<Rightarrow> tap_block \<Rightarrow> tap_block" where
  "tap_header a k = k\<lparr>tb_frames := ta_frames a, tb_host_time := ta_host_time a,
     tb_sample_time := ta_sample_time a, tb_callback_time := ta_callback_time a\<rparr>"

definition tap_pair :: "tap_args \<Rightarrow> nat \<Rightarrow> u32 \<times> u32" where
  "tap_pair a i =
     (case ta_right a of
        None \<Rightarrow> (the (ta_left a) ! (i * 2), the (ta_left a) ! (i * 2 + 1))
      | Some right \<Rightarrow> (the (ta_left a) ! i, right ! i))"

definition tap_store :: "tap_args \<Rightarrow> nat \<Rightarrow> tap_block \<Rightarrow> tap_block" where
  "tap_store a i k = k\<lparr>tb_samples := (tb_samples k)[i * 2 := fst (tap_pair a i), i * 2 + 1 := snd (tap_pair a i)]\<rparr>"

definition tap_pair_finite :: "tap_args \<Rightarrow> nat \<Rightarrow> bool" where
  "tap_pair_finite a i \<longleftrightarrow> isfinite32 (fst (tap_pair a i)) \<and> isfinite32 (snd (tap_pair a i))"

text \<open>The copy loop over the remaining frames: the block, and whether it ran to the end.\<close>

fun tap_fill :: "tap_args \<Rightarrow> nat \<Rightarrow> nat \<Rightarrow> tap_block \<Rightarrow> bool \<times> tap_block" where
  "tap_fill a i 0 k = (True, k)"
| "tap_fill a i (Suc n) k =
     (if tap_pair_finite a i then tap_fill a (i + 1) n (tap_store a i k) else (False, k))"

definition on_slot :: "u32 \<Rightarrow> (tap_block \<Rightarrow> tap_block) \<Rightarrow> tap_buffer \<Rightarrow> tap_buffer" where
  "on_slot w f b = (let s = unat w mod PLANKTapSlots in b\<lparr>tp_blocks := (tp_blocks b)[s := f (tp_blocks b ! s)]\<rparr>)"

definition tap_push :: "tap_args \<Rightarrow> tap_buffer \<Rightarrow> bool \<times> tap_buffer" where
  "tap_push a b =
     (if tp_stopped b then (False, b)
      else if tap_bad_args a then (False, b\<lparr>tp_failed := 1\<rparr>)
      else if tap_full (tp_write b) (tp_read b) then (False, b\<lparr>tp_overruns := tp_overruns b + 1\<rparr>)
      else
        let w = tp_write b;
            r = tap_fill a 0 (unat (ta_frames a)) (tap_header a (tp_blocks b ! (unat w mod PLANKTapSlots)));
            b1 = on_slot w (\<lambda>_. snd r) b
        in if fst r then (True, b1\<lparr>tp_write := w + 1\<rparr>) else (False, b1\<lparr>tp_failed := 1\<rparr>))"

definition tap_peek :: "tap_buffer \<Rightarrow> tap_block option" where
  "tap_peek b = (if tp_read b = tp_write b then None else Some (tp_blocks b ! (unat (tp_read b) mod PLANKTapSlots)))"

definition tap_pop :: "tap_buffer \<Rightarrow> tap_buffer" where
  "tap_pop b = b\<lparr>tp_read := tp_read b + 1\<rparr>"

definition tap_discard_overrun :: "tap_buffer \<Rightarrow> u32 \<times> tap_buffer" where
  "tap_discard_overrun b =
     (let count = tp_overruns b; b1 = b\<lparr>tp_overruns := 0\<rparr>
      in (count, if count \<noteq> 0 then b1\<lparr>tp_read := tp_write b1\<rparr> else b1))"

section \<open>What a block carries\<close>

text \<open>The part of a block the consumer may look at, and the same for the arguments of a push.\<close>

definition block_content :: "tap_block \<Rightarrow> tap_block" where
  "block_content k = k\<lparr>tb_samples := take (2 * unat (tb_frames k)) (tb_samples k)\<rparr>"

definition tap_content :: "tap_args \<Rightarrow> tap_block" where
  "tap_content a = \<lparr>tb_frames = ta_frames a, tb_host_time = ta_host_time a,
     tb_callback_time = ta_callback_time a, tb_sample_time = ta_sample_time a,
     tb_samples = concat (map (\<lambda>i. [fst (tap_pair a i), snd (tap_pair a i)]) [0..<unat (ta_frames a)])\<rparr>"

text \<open>The caller's side of the contract: the channel buffers hold the announced frames.\<close>

definition tap_args_ok :: "tap_args \<Rightarrow> bool" where
  "tap_args_ok a \<longleftrightarrow>
     (case ta_left a of None \<Rightarrow> True | Some left \<Rightarrow>
       (case ta_right a of
          None \<Rightarrow> 2 * unat (ta_frames a) \<le> length left
        | Some right \<Rightarrow> unat (ta_frames a) \<le> length left \<and> unat (ta_frames a) \<le> length right))"

definition tap_shape :: "tap_buffer \<Rightarrow> bool" where
  "tap_shape b \<longleftrightarrow> length (tp_blocks b) = PLANKTapSlots \<and>
     (\<forall>k \<in> set (tp_blocks b). length (tb_samples k) = 2 * PLANKTapMaxFrames)"

text \<open>\<^verbatim>\<open>filled a i k\<close>: block \<^verbatim>\<open>k\<close> has the header of \<^verbatim>\<open>a\<close> and its first \<^verbatim>\<open>i\<close> frames.\<close>

definition filled :: "tap_args \<Rightarrow> nat \<Rightarrow> tap_block \<Rightarrow> bool" where
  "filled a i k \<longleftrightarrow>
     tb_frames k = ta_frames a \<and> tb_host_time k = ta_host_time a \<and>
     tb_callback_time k = ta_callback_time a \<and> tb_sample_time k = ta_sample_time a \<and>
     length (tb_samples k) = 2 * PLANKTapMaxFrames \<and>
     take (2 * i) (tb_samples k) = concat (map (\<lambda>i. [fst (tap_pair a i), snd (tap_pair a i)]) [0..<i])"

lemma filled_header: "length (tb_samples k) = 2 * PLANKTapMaxFrames \<Longrightarrow> filled a 0 (tap_header a k)"
  by (simp add: filled_def tap_header_def)

lemma filled_store:
  assumes "filled a i k" "i < PLANKTapMaxFrames"
  shows "filled a (Suc i) (tap_store a i k)"
proof -
  have len: "length (tb_samples k) = 2 * PLANKTapMaxFrames" using assms(1) by (simp add: filled_def)
  have "take (2 * Suc i) ((tb_samples k)[i * 2 := x, i * 2 + 1 := y]) = take (2 * i) (tb_samples k) @ [x, y]" for x y
    using len assms(2) by (intro nth_equalityI) (auto simp: nth_append nth_list_update less_Suc_eq)
  then show ?thesis using assms(1) by (simp add: filled_def tap_store_def)
qed

lemma filled_content:
  assumes "filled a (unat (ta_frames a)) k" shows "block_content k = tap_content a"
  using assms by (cases k) (simp add: filled_def block_content_def tap_content_def)

lemma tap_fill_filled:
  "tap_fill a i n k = (ok, k') \<Longrightarrow> filled a i k \<Longrightarrow> i + n \<le> PLANKTapMaxFrames \<Longrightarrow>
     length (tb_samples k') = 2 * PLANKTapMaxFrames \<and>
     (ok \<longleftrightarrow> (\<forall>j. i \<le> j \<and> j < i + n \<longrightarrow> tap_pair_finite a j)) \<and> (ok \<longrightarrow> filled a (i + n) k')"
proof (induction a i n k rule: tap_fill.induct)
  case (2 a i n k)
  show ?case
  proof (cases "tap_pair_finite a i")
    case True
    then have "length (tb_samples k') = 2 * PLANKTapMaxFrames \<and>
       (ok \<longleftrightarrow> (\<forall>j. i + 1 \<le> j \<and> j < i + 1 + n \<longrightarrow> tap_pair_finite a j)) \<and> (ok \<longrightarrow> filled a (i + 1 + n) k')"
      using 2(1) [OF True] 2(2-4) filled_store [OF 2(3)] by simp
    moreover have "i \<le> j \<and> j < i + Suc n \<longleftrightarrow> j = i \<or> i + 1 \<le> j \<and> j < i + 1 + n" for j by auto
    then have "(\<forall>j. i \<le> j \<and> j < i + Suc n \<longrightarrow> tap_pair_finite a j) \<longleftrightarrow>
        (\<forall>j. i + 1 \<le> j \<and> j < i + 1 + n \<longrightarrow> tap_pair_finite a j)"
      using True by presburger
    ultimately show ?thesis by simp
  next
    case False
    then show ?thesis using 2(2,3) by (auto simp: filled_def)
  qed
qed (auto simp: filled_def)

section \<open>The operations implement a bounded queue\<close>

text \<open>
  The contract of a bounded queue, for any representation: \<^verbatim>\<open>contents\<close> is the queue a state stands for.
  A client that pushes and takes in any order gets the accepted blocks in the order of their pushes.
\<close>

datatype 'a fifo_op = Push 'a | Take

locale bounded_fifo =
  fixes inv :: "'s \<Rightarrow> bool" and contents :: "'s \<Rightarrow> 'b list" and capacity :: nat
    and push :: "'a \<Rightarrow> 's \<Rightarrow> bool \<times> 's" and payload :: "'a \<Rightarrow> 'b" and accepts :: "'s \<Rightarrow> 'a \<Rightarrow> bool"
    and peek :: "'s \<Rightarrow> 'b option" and pop :: "'s \<Rightarrow> 's"
  assumes inv_push: "inv s \<Longrightarrow> inv (snd (push a s))"
    and push_iff: "inv s \<Longrightarrow> fst (push a s) \<longleftrightarrow> accepts s a \<and> length (contents s) < capacity"
    and push_contents: "inv s \<Longrightarrow> contents (snd (push a s)) = contents s @ (if fst (push a s) then [payload a] else [])"
    and peek_contents: "inv s \<Longrightarrow> peek s = (if contents s = [] then None else Some (hd (contents s)))"
    and inv_pop: "inv s \<Longrightarrow> contents s \<noteq> [] \<Longrightarrow> inv (pop s)"
    and pop_contents: "inv s \<Longrightarrow> contents s \<noteq> [] \<Longrightarrow> contents (pop s) = tl (contents s)"
begin

text \<open>A run of operations: the final state, what was accepted and what was taken.\<close>

fun fifo_run :: "'a fifo_op list \<Rightarrow> 's \<Rightarrow> 's \<times> 'b list \<times> 'b list" where
  "fifo_run [] s = (s, [], [])"
| "fifo_run (Push a # ops) s =
     (let r = push a s; (s', acc, got) = fifo_run ops (snd r)
      in (s', (if fst r then payload a # acc else acc), got))"
| "fifo_run (Take # ops) s =
     (case peek s of
        None \<Rightarrow> fifo_run ops s
      | Some x \<Rightarrow> let (s', acc, got) = fifo_run ops (pop s) in (s', acc, x # got))"

lemma fifo_order:
  "fifo_run ops s = (s', acc, got) \<Longrightarrow> inv s \<Longrightarrow> inv s' \<and> got @ contents s' = contents s @ acc"
proof (induction ops s arbitrary: s' acc got rule: fifo_run.induct)
  case (2 a ops s)
  obtain acc1 where r: "fifo_run ops (snd (push a s)) = (s', acc1, got)"
    "acc = (if fst (push a s) then payload a # acc1 else acc1)"
    using 2(2) by (auto simp: Let_def split: prod.splits)
  then show ?case
    using 2(1) [OF refl r(1) inv_push [OF 2(3)]] push_contents [OF 2(3)] by simp
next
  case (3 ops s)
  show ?case
  proof (cases "contents s")
    case Nil
    then show ?thesis using 3 peek_contents by simp
  next
    case (Cons x xs)
    then have "peek s = Some x" "inv (pop s)" "contents (pop s) = xs"
      using 3(4) peek_contents inv_pop pop_contents by simp_all
    moreover obtain got1 where "fifo_run ops (pop s) = (s', acc, got1)" "got = x # got1"
      using 3(3) calculation(1) by (auto split: prod.splits)
    ultimately show ?thesis using 3(2) Cons by simp
  qed
qed simp

end

definition tap_inv :: "tap_buffer \<Rightarrow> bool" where
  "tap_inv b \<longleftrightarrow> tap_shape b \<and> unat (tp_write b - tp_read b) \<le> PLANKTapSlots"

definition tap_contents :: "tap_buffer \<Rightarrow> tap_block list" where
  "tap_contents b = map block_content (window (tp_blocks b) (unat (tp_read b)) (unat (tp_write b - tp_read b)))"

definition tap_accepts :: "tap_buffer \<Rightarrow> tap_args \<Rightarrow> bool" where
  "tap_accepts b a \<longleftrightarrow> \<not> tp_stopped b \<and> \<not> tap_bad_args a \<and> (\<forall>i < unat (ta_frames a). tap_pair_finite a i)"

lemma unat_diff_succ:
  fixes w r :: u32
  assumes "unat (w - r) \<le> 16"
  shows "unat (w + 1 - r) = Suc (unat (w - r))"
proof -
  have "w + 1 - r = (w - r) + 1" by simp
  moreover have "unat ((w - r) + 1) = Suc (unat (w - r))"
    using assms by (simp add: unat_word_ariths)
  ultimately show ?thesis by (simp only:)
qed

lemma unat_diff_pred:
  fixes w r :: u32
  assumes "w \<noteq> r"
  shows "unat (w - (r + 1)) = unat (w - r) - 1"
proof -
  have "w - (r + 1) = (w - r) - 1" by simp
  moreover have "w - r \<noteq> 0" using assms by simp
  ultimately show ?thesis by (metis unat_minus_one)
qed

lemma tap_slot: "unat w mod PLANKTapSlots = (unat r + unat (w - r)) mod PLANKTapSlots" for w r :: u32
  using unat_add_mod_dvd [of PLANKTapSlots r "w - r"] by simp

lemma tap_full_iff: "tap_full w r \<longleftrightarrow> PLANKTapSlots \<le> unat (w - r)"
  by (simp add: tap_full_def word_le_nat_alt)

lemma window_read_succ:
  fixes r :: u32
  assumes "length xs = PLANKTapSlots"
  shows "window xs (unat (r + 1)) n = window xs (unat r + 1) n"
proof -
  have "unat (r + 1) mod length xs = (unat r + 1) mod length xs"
    using unat_add_mod_dvd [of PLANKTapSlots r 1] assms by simp
  then show ?thesis using window_start_mod [of xs] by metis
qed

lemma tap_contents_nonempty: "tap_contents b \<noteq> [] \<longleftrightarrow> tp_read b \<noteq> tp_write b"
proof -
  have "tap_contents b = [] \<longleftrightarrow> unat (tp_write b - tp_read b) = 0"
    unfolding tap_contents_def by (metis length_0_conv length_map length_window)
  then show ?thesis by (auto simp: unat_eq_zero)
qed

lemma tap_shape_slot:
  "tap_shape b \<Longrightarrow> length (tb_samples (tp_blocks b ! (k mod PLANKTapSlots))) = 2 * PLANKTapMaxFrames"
  by (simp add: tap_shape_def)

lemma tap_shape_on_slot:
  "tap_shape b \<Longrightarrow> length (tb_samples k) = 2 * PLANKTapMaxFrames \<Longrightarrow> tap_shape (on_slot w (\<lambda>_. k) b)"
  by (auto simp: tap_shape_def on_slot_def Let_def dest: set_update_subset_insert [THEN subsetD])

text \<open>The three ways a push ends once its arguments passed the checks.\<close>

lemma tap_push_room:
  assumes inv: "tap_inv b" and room: "\<not> tap_full (tp_write b) (tp_read b)" "\<not> tap_bad_args a" "\<not> tp_stopped b"
  obtains k where "length (tb_samples k) = 2 * PLANKTapMaxFrames"
    "tap_push a b = (if \<forall>i < unat (ta_frames a). tap_pair_finite a i
       then (True, (on_slot (tp_write b) (\<lambda>_. k) b)\<lparr>tp_write := tp_write b + 1\<rparr>)
       else (False, (on_slot (tp_write b) (\<lambda>_. k) b)\<lparr>tp_failed := 1\<rparr>))"
    "(\<forall>i < unat (ta_frames a). tap_pair_finite a i) \<Longrightarrow> block_content k = tap_content a"
proof -
  obtain ok k where fill: "tap_fill a 0 (unat (ta_frames a))
      (tap_header a (tp_blocks b ! (unat (tp_write b) mod PLANKTapSlots))) = (ok, k)" by fastforce
  have "filled a 0 (tap_header a (tp_blocks b ! (unat (tp_write b) mod PLANKTapSlots)))"
    using inv by (intro filled_header tap_shape_slot) (simp add: tap_inv_def)
  moreover have "0 + unat (ta_frames a) \<le> PLANKTapMaxFrames" using room(2) by (simp add: tap_bad_args_def)
  ultimately have k: "length (tb_samples k) = 2 * PLANKTapMaxFrames"
    "ok \<longleftrightarrow> (\<forall>i < unat (ta_frames a). tap_pair_finite a i)" "ok \<longrightarrow> filled a (unat (ta_frames a)) k"
    using tap_fill_filled [OF fill] by simp_all
  show thesis
  proof (rule that [OF k(1)])
    show "tap_push a b = (if \<forall>i < unat (ta_frames a). tap_pair_finite a i
       then (True, (on_slot (tp_write b) (\<lambda>_. k) b)\<lparr>tp_write := tp_write b + 1\<rparr>)
       else (False, (on_slot (tp_write b) (\<lambda>_. k) b)\<lparr>tp_failed := 1\<rparr>))"
      using room fill by (simp add: tap_push_def Let_def k(2) [symmetric])
    show "block_content k = tap_content a" if "\<forall>i < unat (ta_frames a). tap_pair_finite a i"
      using that k(2,3) filled_content by blast
  qed
qed

lemma tap_slot_update:
  assumes "tap_inv b" "unat (tp_write b - tp_read b) < PLANKTapSlots"
  shows "window (tp_blocks (on_slot (tp_write b) (\<lambda>_. k) b)) (unat (tp_read b)) (unat (tp_write b - tp_read b))
      = window (tp_blocks b) (unat (tp_read b)) (unat (tp_write b - tp_read b))"
    and "window (tp_blocks (on_slot (tp_write b) (\<lambda>_. k) b)) (unat (tp_read b)) (Suc (unat (tp_write b - tp_read b)))
      = window (tp_blocks b) (unat (tp_read b)) (unat (tp_write b - tp_read b)) @ [k]"
proof -
  let ?c = "unat (tp_write b - tp_read b)"
  have len: "length (tp_blocks b) = PLANKTapSlots" using assms(1) by (simp add: tap_inv_def tap_shape_def)
  have blocks: "tp_blocks (on_slot (tp_write b) (\<lambda>_. k) b)
      = (tp_blocks b)[(unat (tp_read b) + ?c) mod length (tp_blocks b) := k]"
    using tap_slot [of "tp_write b" "tp_read b"] by (simp add: on_slot_def Let_def len)
  show "window (tp_blocks (on_slot (tp_write b) (\<lambda>_. k) b)) (unat (tp_read b)) ?c
      = window (tp_blocks b) (unat (tp_read b)) ?c"
    unfolding blocks using assms(2) len by (intro window_update_outside) simp_all
  show "window (tp_blocks (on_slot (tp_write b) (\<lambda>_. k) b)) (unat (tp_read b)) (Suc ?c)
      = window (tp_blocks b) (unat (tp_read b)) ?c @ [k]"
    unfolding blocks using assms(2) len by (intro window_push) simp_all
qed

lemma on_slot_indices [simp]:
  "tp_read (on_slot w f b) = tp_read b" "tp_write (on_slot w f b) = tp_write b"
  "tp_stopped (on_slot w f b) = tp_stopped b"
  by (simp_all add: on_slot_def Let_def)

lemma tap_push_refines:
  fixes a :: tap_args and b :: tap_buffer
  assumes inv: "tap_inv b"
  defines "ok \<equiv> tap_accepts b a \<and> length (tap_contents b) < PLANKTapSlots"
  shows "fst (tap_push a b) \<longleftrightarrow> ok" "tap_inv (snd (tap_push a b))"
    "tap_contents (snd (tap_push a b)) = tap_contents b @ (if fst (tap_push a b) then [tap_content a] else [])"
proof -
  have "(fst (tap_push a b) \<longleftrightarrow> ok) \<and> tap_inv (snd (tap_push a b)) \<and>
    tap_contents (snd (tap_push a b)) = tap_contents b @ (if fst (tap_push a b) then [tap_content a] else [])"
  proof (cases "tp_stopped b \<or> tap_bad_args a \<or> tap_full (tp_write b) (tp_read b)")
    case True
    then show ?thesis using inv
      by (auto simp: tap_push_def ok_def tap_accepts_def tap_inv_def tap_shape_def tap_contents_def tap_full_iff)
  next
    case False
    then have room: "unat (tp_write b - tp_read b) < PLANKTapSlots" by (simp add: tap_full_iff)
    obtain k where k: "length (tb_samples k) = 2 * PLANKTapMaxFrames"
      and push: "tap_push a b = (if \<forall>i < unat (ta_frames a). tap_pair_finite a i
       then (True, (on_slot (tp_write b) (\<lambda>_. k) b)\<lparr>tp_write := tp_write b + 1\<rparr>)
       else (False, (on_slot (tp_write b) (\<lambda>_. k) b)\<lparr>tp_failed := 1\<rparr>))"
      and content: "(\<forall>i < unat (ta_frames a). tap_pair_finite a i) \<Longrightarrow> block_content k = tap_content a"
      using tap_push_room [OF inv] False by blast
    have shape: "tap_shape (on_slot (tp_write b) (\<lambda>_. k) b)"
      using tap_shape_on_slot [OF _ k] inv by (simp add: tap_inv_def)
    have len: "length (tap_contents b) = unat (tp_write b - tp_read b)" by (simp add: tap_contents_def)
    show ?thesis
    proof (cases "\<forall>i < unat (ta_frames a). tap_pair_finite a i")
      case True
      then show ?thesis using False push content room shape tap_slot_update(2) [OF inv room, of k] len
          unat_diff_succ [of "tp_write b" "tp_read b"]
        by (simp add: ok_def tap_accepts_def tap_inv_def tap_contents_def tap_shape_def)
    next
      case notall: False
      then show ?thesis using push room shape tap_slot_update(1) [OF inv room, of k]
        by (auto simp: ok_def tap_accepts_def tap_inv_def tap_contents_def tap_shape_def)
    qed
  qed
  then show "fst (tap_push a b) \<longleftrightarrow> ok" "tap_inv (snd (tap_push a b))"
    "tap_contents (snd (tap_push a b)) = tap_contents b @ (if fst (tap_push a b) then [tap_content a] else [])"
    by blast+
qed

lemma tap_pop_refines:
  assumes "tap_inv b" "tap_contents b \<noteq> []"
  shows "tap_inv (tap_pop b)" "tap_contents (tap_pop b) = tl (tap_contents b)"
proof -
  have ne: "tp_write b \<noteq> tp_read b" using assms(2) by (auto simp: tap_contents_nonempty)
  have pos: "1 \<le> unat (tp_write b - tp_read b)" using ne by (auto simp: Suc_le_eq unat_gt_0)
  have len: "length (tp_blocks b) = PLANKTapSlots" using assms(1) by (simp add: tap_inv_def tap_shape_def)
  show "tap_inv (tap_pop b)" using assms(1) unat_diff_pred [OF ne] diff_le_self [THEN le_trans]
    by (simp add: tap_inv_def tap_pop_def tap_shape_def)
  show "tap_contents (tap_pop b) = tl (tap_contents b)"
    using unat_diff_pred [OF ne] window_read_succ [OF len] window_drop [OF pos, of "tp_blocks b"]
    by (simp add: tap_contents_def tap_pop_def map_tl drop_Suc)
qed

lemma tap_peek_refines:
  assumes "tap_inv b"
  shows "map_option block_content (tap_peek b) = (if tap_contents b = [] then None else Some (hd (tap_contents b)))"
proof (cases "tp_read b = tp_write b")
  case False
  then have "0 < unat (tp_write b - tp_read b)" by (simp add: unat_gt_0)
  then have "hd (tap_contents b) = block_content (tp_blocks b ! (unat (tp_read b) mod length (tp_blocks b)))"
    using hd_conv_nth [of "tap_contents b"] False tap_contents_nonempty [of b] by (simp add: tap_contents_def)
  then show ?thesis using False assms tap_contents_nonempty [of b]
    by (simp add: tap_peek_def tap_inv_def tap_shape_def)
qed (use tap_contents_nonempty [of b] in \<open>simp add: tap_peek_def\<close>)

interpretation tap: bounded_fifo tap_inv tap_contents PLANKTapSlots tap_push tap_content tap_accepts
  "\<lambda>b. map_option block_content (tap_peek b)" tap_pop
  by unfold_locales (simp_all add: tap_push_refines tap_pop_refines tap_peek_refines)

text \<open>C34: The tap ring is a queue of sixteen blocks. From a well-formed ring, any sequence of pushes and
  takes hands out the accepted blocks, with exactly the header and the interleaved frames they were
  pushed with, in the order of the pushes; what has been accepted and not yet taken is still in the
  ring. The 32-bit indices may wrap at any point.\<close>

theorem tap_ring_is_fifo:
  assumes "tap_inv b" "tap.fifo_run ops b = (b', accepted, taken)"
  shows "tap_inv b' \<and> taken @ tap_contents b' = tap_contents b @ accepted \<and>
    length (tap_contents b') \<le> PLANKTapSlots"
proof (intro conjI)
  show inv: "tap_inv b'" and "taken @ tap_contents b' = tap_contents b @ accepted"
    using tap.fifo_order [OF assms(2,1)] by blast+
  show "length (tap_contents b') \<le> PLANKTapSlots" using inv by (simp add: tap_contents_def tap_inv_def)
qed

definition demo_block :: tap_block where
  "demo_block = \<lparr>tb_frames = 0, tb_host_time = 0, tb_callback_time = 0, tb_sample_time = 0,
     tb_samples = replicate (2 * PLANKTapMaxFrames) 0\<rparr>"

text \<open>A ring whose write index is about to wrap.\<close>

definition demo_ring :: tap_buffer where
  "demo_ring = \<lparr>tp_read = 0xffffffff, tp_write = 0xffffffff, tp_failed = 0, tp_overruns = 0, tp_stopped = False,
     tp_blocks = replicate PLANKTapSlots demo_block\<rparr>"

definition demo_push :: "u64 \<Rightarrow> tap_args" where
  "demo_push t = \<lparr>ta_left = Some [0x3f000000, 0xbf000000], ta_right = None, ta_frames = 1, ta_host_time = t,
     ta_sample_time = 0, ta_callback_time = 0\<rparr>"

lemma demo_ring_inv: "tap_inv demo_ring"
  by (simp add: tap_inv_def tap_shape_def demo_ring_def demo_block_def)

lemma tap_ring_is_fifo_witness:
  "\<exists>b' accepted taken. tap.fifo_run [Push (demo_push 5), Push (demo_push 6), Take] demo_ring = (b', accepted, taken) \<and>
     tap_inv b' \<and> taken @ tap_contents b' = tap_contents demo_ring @ accepted"
proof -
  obtain b' accepted taken where
    r: "tap.fifo_run [Push (demo_push 5), Push (demo_push 6), Take] demo_ring = (b', accepted, taken)"
    by (cases "tap.fifo_run [Push (demo_push 5), Push (demo_push 6), Take] demo_ring") auto
  show ?thesis
    using r tap_ring_is_fifo [OF demo_ring_inv r] by blast
qed

end
