(* ===== verification/Tap_Threads.thy ===== *)
theory Tap_Threads
  imports Tap_Buffer
begin

text \<open>
  The two threads of the audio tap ring. A step is one atomic access of the shared indices, one store
  of the block header or one frame of the copy loop, so every interleaving of the HAL callback and of
  the session queue is a run. The control points are the places between two such accesses, with the
  local variables that are live there.

  History variables record what the threads did: \<^verbatim>\<open>ts_pushed\<close> the arguments of the completed pushes,
  \<^verbatim>\<open>ts_position\<close> how many of their blocks the consumer has left behind, \<^verbatim>\<open>ts_taken\<close> the blocks it read
  before popping them, \<^verbatim>\<open>ts_skipped\<close> how many it dropped after overruns.
\<close>

datatype producer_pc =
    P_Idle
  | P_Read tap_args u32
  | P_Check tap_args u32 u32
  | P_Header tap_args u32
  | P_Fill tap_args u32 nat

datatype consumer_pc = C_Idle | C_Hold | C_Discard | C_Skip u32

record tap_system =
  ts_buffer :: tap_buffer
  ts_producer :: producer_pc
  ts_consumer :: consumer_pc
  ts_pushed :: "tap_args list"
  ts_position :: nat
  ts_taken :: "tap_block list"
  ts_skipped :: nat

text \<open>The threads start after \<^verbatim>\<open>PLANKTapBufferInit\<close>, on memory \<^verbatim>\<open>b\<close>.\<close>

definition tap_start :: "tap_buffer \<Rightarrow> tap_system" where
  "tap_start b = \<lparr>ts_buffer = tap_buffer_init b, ts_producer = P_Idle, ts_consumer = C_Idle,
     ts_pushed = [], ts_position = 0, ts_taken = [], ts_skipped = 0\<rparr>"

text \<open>The producer inside a push; between two pushes it waits for a call.\<close>

definition producer_step :: "tap_system \<Rightarrow> tap_system" where
  "producer_step s =
     (let b = ts_buffer s in
      case ts_producer s of
        P_Idle \<Rightarrow> s
      | P_Read a w \<Rightarrow> s\<lparr>ts_producer := P_Check a w (tp_read b)\<rparr>
      | P_Check a w r \<Rightarrow>
          if tap_bad_args a then s\<lparr>ts_buffer := b\<lparr>tp_failed := 1\<rparr>, ts_producer := P_Idle\<rparr>
          else if tap_full w r then s\<lparr>ts_buffer := b\<lparr>tp_overruns := tp_overruns b + 1\<rparr>, ts_producer := P_Idle\<rparr>
          else s\<lparr>ts_producer := P_Header a w\<rparr>
      | P_Header a w \<Rightarrow> s\<lparr>ts_buffer := on_slot w (tap_header a) b, ts_producer := P_Fill a w 0\<rparr>
      | P_Fill a w i \<Rightarrow>
          if unat (ta_frames a) \<le> i
          then s\<lparr>ts_buffer := b\<lparr>tp_write := w + 1\<rparr>, ts_producer := P_Idle, ts_pushed := ts_pushed s @ [a]\<rparr>
          else if \<not> tap_pair_finite a i
          then s\<lparr>ts_buffer := b\<lparr>tp_failed := 1\<rparr>, ts_producer := P_Idle\<rparr>
          else s\<lparr>ts_buffer := on_slot w (tap_store a i) b, ts_producer := P_Fill a w (i + 1)\<rparr>)"

definition consumer_step :: "tap_system \<Rightarrow> tap_system" where
  "consumer_step s =
     (let b = ts_buffer s in
      case ts_consumer s of
        C_Idle \<Rightarrow> s
      | C_Hold \<Rightarrow>
          s\<lparr>ts_buffer := tap_pop b, ts_consumer := C_Idle, ts_position := ts_position s + 1,
            ts_taken := ts_taken s @ [block_content (tp_blocks b ! (unat (tp_read b) mod PLANKTapSlots))]\<rparr>
      | C_Discard \<Rightarrow> s\<lparr>ts_consumer := C_Skip (tp_write b)\<rparr>
      | C_Skip w \<Rightarrow>
          s\<lparr>ts_buffer := b\<lparr>tp_read := w\<rparr>, ts_consumer := C_Idle,
            ts_position := ts_position s + unat (w - tp_read b), ts_skipped := ts_skipped s + unat (w - tp_read b)\<rparr>)"

inductive tap_step :: "tap_system \<Rightarrow> tap_system \<Rightarrow> bool" where
  push: "ts_producer s = P_Idle \<Longrightarrow> \<not> tp_stopped (ts_buffer s) \<Longrightarrow> tap_args_ok a \<Longrightarrow>
    tap_step s (s\<lparr>ts_producer := P_Read a (tp_write (ts_buffer s))\<rparr>)"
| produce: "ts_producer s \<noteq> P_Idle \<Longrightarrow> tap_step s (producer_step s)"
| peek: "ts_consumer s = C_Idle \<Longrightarrow> tap_peek (ts_buffer s) \<noteq> None \<Longrightarrow> tap_step s (s\<lparr>ts_consumer := C_Hold\<rparr>)"
| discard: "ts_consumer s = C_Idle \<Longrightarrow>
    tap_step s (s\<lparr>ts_buffer := ts_buffer s\<lparr>tp_overruns := 0\<rparr>,
      ts_consumer := (if tp_overruns (ts_buffer s) \<noteq> 0 then C_Discard else C_Idle)\<rparr>)"
| consume: "ts_consumer s \<noteq> C_Idle \<Longrightarrow> tap_step s (consumer_step s)"
| stop: "tap_step s (s\<lparr>ts_buffer := ts_buffer s\<lparr>tp_stopped := True\<rparr>\<rparr>)"

inductive_cases tap_stepE: "tap_step s t"

section \<open>The invariant\<close>

text \<open>
  With the history variables the indices are numbers: \<^verbatim>\<open>n = length (ts_pushed s)\<close> blocks were published
  and the consumer is at position \<^verbatim>\<open>ts_position s\<close>. A read index the producer loaded earlier is some
  earlier position \<^verbatim>\<open>q\<close>; the write index the consumer loaded in a discard is some earlier \<^verbatim>\<open>n\<close>.
\<close>

definition slots_inv :: "tap_system \<Rightarrow> bool" where
  "slots_inv s \<longleftrightarrow>
     (let b = ts_buffer s; n = length (ts_pushed s); p = ts_position s in
      tap_shape b \<and> tp_write b = of_nat n \<and> tp_read b = of_nat p \<and> p \<le> n \<and> n \<le> p + PLANKTapSlots \<and>
      (\<forall>j. p \<le> j \<and> j < n \<longrightarrow> block_content (tp_blocks b ! (j mod PLANKTapSlots)) = tap_content (ts_pushed s ! j)))"

definition producer_inv :: "tap_system \<Rightarrow> bool" where
  "producer_inv s \<longleftrightarrow>
     (let b = ts_buffer s; n = length (ts_pushed s); p = ts_position s in
      case ts_producer s of
        P_Idle \<Rightarrow> True
      | P_Read a w \<Rightarrow> w = of_nat n
      | P_Check a w r \<Rightarrow> w = of_nat n \<and> (\<exists>q. r = of_nat q \<and> q \<le> p \<and> n \<le> q + PLANKTapSlots)
      | P_Header a w \<Rightarrow> w = of_nat n \<and> \<not> tap_bad_args a \<and> n < p + PLANKTapSlots
      | P_Fill a w i \<Rightarrow> w = of_nat n \<and> \<not> tap_bad_args a \<and> n < p + PLANKTapSlots \<and>
          i \<le> unat (ta_frames a) \<and> filled a i (tp_blocks b ! (n mod PLANKTapSlots)))"

definition consumer_inv :: "tap_system \<Rightarrow> bool" where
  "consumer_inv s \<longleftrightarrow>
     (let n = length (ts_pushed s); p = ts_position s in
      case ts_consumer s of
        C_Hold \<Rightarrow> p < n
      | C_Skip w \<Rightarrow> (\<exists>q. w = of_nat q \<and> p \<le> q \<and> q \<le> n)
      | _ \<Rightarrow> True)"

definition history_inv :: "tap_system \<Rightarrow> bool" where
  "history_inv s \<longleftrightarrow>
     subseq (ts_taken s) (map tap_content (take (ts_position s) (ts_pushed s))) \<and>
     length (ts_taken s) + ts_skipped s = ts_position s"

definition tap_system_inv :: "tap_system \<Rightarrow> bool" where
  "tap_system_inv s \<longleftrightarrow> slots_inv s \<and> producer_inv s \<and> consumer_inv s \<and> history_inv s"

lemma unat_of_nat_diff:
  assumes "q \<le> n" "n \<le> q + PLANKTapSlots"
  shows "unat (of_nat n - of_nat q :: u32) = n - q"
proof -
  have "of_nat n - of_nat q = (of_nat (n - q) :: u32)" using assms(1) by simp
  moreover have "unat (of_nat (n - q) :: u32) = n - q"
    using assms(2) by (simp add: unat_of_nat)
  ultimately show ?thesis by (simp only:)
qed

lemma unat_of_nat_mod16 [simp]: "unat (of_nat n :: u32) mod PLANKTapSlots = n mod PLANKTapSlots"
  by (simp add: unat_of_nat mod_mod_cancel)

lemma position_free:
  assumes "p \<le> j" "j < n" "n < p + PLANKTapSlots"
  shows "j mod PLANKTapSlots \<noteq> n mod PLANKTapSlots"
proof
  assume "j mod PLANKTapSlots = n mod PLANKTapSlots"
  then have "(p + (j - p)) mod PLANKTapSlots = (p + (n - p)) mod PLANKTapSlots" using assms(1,2) by simp
  moreover have "j - p < PLANKTapSlots" "n - p < PLANKTapSlots" using assms by linarith+
  ultimately have "j - p = n - p" by (rule ring_slot_inj)
  then show False using assms by linarith
qed

lemma tap_start_inv: "tap_shape b \<Longrightarrow> tap_system_inv (tap_start b)"
  by (simp add: tap_system_inv_def slots_inv_def producer_inv_def consumer_inv_def history_inv_def
      tap_start_def tap_buffer_init_def tap_shape_def)

lemma on_slot_shape:
  assumes "tap_shape b" "\<And>k. length (tb_samples (f k)) = length (tb_samples k)"
  shows "tap_shape (on_slot w f b)"
proof -
  have "tap_shape (on_slot w (\<lambda>_. f (tp_blocks b ! (unat w mod PLANKTapSlots))) b)"
    using assms tap_shape_slot by (intro tap_shape_on_slot) simp_all
  then show ?thesis by (simp add: on_slot_def Let_def)
qed

text \<open>Writes of the producer into its slot keep the published blocks.\<close>

lemma slots_inv_on_slot:
  assumes "slots_inv s" "length (ts_pushed s) < ts_position s + PLANKTapSlots"
    and f: "\<And>k. length (tb_samples (f k)) = length (tb_samples k)"
  shows "slots_inv (s\<lparr>ts_buffer := on_slot (of_nat (length (ts_pushed s))) f (ts_buffer s), ts_producer := pc\<rparr>)"
proof -
  let ?n = "length (ts_pushed s)" and ?b = "ts_buffer s"
  have shape: "tap_shape (on_slot (of_nat ?n) f ?b)"
    using assms(1) f by (intro on_slot_shape) (simp_all add: slots_inv_def Let_def)
  have "tp_blocks (on_slot (of_nat ?n) f ?b) ! (j mod PLANKTapSlots) = tp_blocks ?b ! (j mod PLANKTapSlots)"
    if "ts_position s \<le> j" "j < ?n" for j
    using position_free [OF that assms(2)] by (simp add: on_slot_def Let_def)
  then show ?thesis using assms(1) shape by (simp add: slots_inv_def Let_def)
qed

lemma tap_frames_bound: "\<not> tap_bad_args a \<Longrightarrow> unat (ta_frames a) \<le> PLANKTapMaxFrames"
  by (simp add: tap_bad_args_def)

lemma blocks_slot:
  assumes "tap_shape b"
  shows "tp_blocks (on_slot (of_nat n) f b) ! (n mod PLANKTapSlots) = f (tp_blocks b ! (n mod PLANKTapSlots))"
  using assms by (simp add: on_slot_def Let_def tap_shape_def)

lemma frame_inv:
  "consumer_inv (s\<lparr>ts_buffer := b\<rparr>) = consumer_inv s"
  "history_inv (s\<lparr>ts_buffer := b\<rparr>) = history_inv s"
  "consumer_inv (s\<lparr>ts_buffer := b, ts_producer := pc\<rparr>) = consumer_inv s"
  "history_inv (s\<lparr>ts_buffer := b, ts_producer := pc\<rparr>) = history_inv s"
  "consumer_inv (s\<lparr>ts_producer := pc\<rparr>) = consumer_inv s"
  "history_inv (s\<lparr>ts_producer := pc\<rparr>) = history_inv s"
  "slots_inv (s\<lparr>ts_producer := pc\<rparr>) = slots_inv s"
  by (simp_all add: consumer_inv_def history_inv_def slots_inv_def Let_def)

lemma publish_inv:
  assumes inv: "tap_system_inv s" and pc: "ts_producer s = P_Fill a w (unat (ta_frames a))"
  shows "tap_system_inv (s\<lparr>ts_buffer := ts_buffer s\<lparr>tp_write := w + 1\<rparr>, ts_producer := P_Idle,
     ts_pushed := ts_pushed s @ [a]\<rparr>)"
proof -
  let ?n = "length (ts_pushed s)" and ?b = "ts_buffer s" and ?p = "ts_position s"
  have w: "w = of_nat ?n" and room: "?n < ?p + PLANKTapSlots"
    and content: "block_content (tp_blocks ?b ! (?n mod PLANKTapSlots)) = tap_content a"
    using inv pc filled_content by (auto simp: tap_system_inv_def producer_inv_def Let_def)
  have slots: "slots_inv s" "consumer_inv s" "history_inv s" using inv by (simp_all add: tap_system_inv_def)
  have "slots_inv (s\<lparr>ts_buffer := ?b\<lparr>tp_write := w + 1\<rparr>, ts_producer := P_Idle, ts_pushed := ts_pushed s @ [a]\<rparr>)"
    using slots(1) w room content
    by (auto simp: slots_inv_def Let_def tap_shape_def nth_append less_Suc_eq)
  moreover have "consumer_inv (s\<lparr>ts_buffer := ?b\<lparr>tp_write := w + 1\<rparr>, ts_producer := P_Idle, ts_pushed := ts_pushed s @ [a]\<rparr>)"
    using slots(2) by (auto simp: consumer_inv_def Let_def split: consumer_pc.splits)
  moreover have "?p \<le> ?n" using slots(1) by (simp add: slots_inv_def Let_def)
  then have "history_inv (s\<lparr>ts_buffer := ?b\<lparr>tp_write := w + 1\<rparr>, ts_producer := P_Idle, ts_pushed := ts_pushed s @ [a]\<rparr>)"
    using slots(3) by (simp add: history_inv_def)
  ultimately show ?thesis by (simp add: tap_system_inv_def producer_inv_def)
qed

text \<open>A push that ends without publishing only changes a flag or a counter.\<close>

lemma abort_inv:
  assumes "tap_system_inv s"
  shows "tap_system_inv (s\<lparr>ts_buffer := ts_buffer s\<lparr>tp_failed := x\<rparr>, ts_producer := P_Idle\<rparr>)"
    "tap_system_inv (s\<lparr>ts_buffer := ts_buffer s\<lparr>tp_overruns := y\<rparr>, ts_producer := P_Idle\<rparr>)"
  using assms
  by (simp_all add: tap_system_inv_def slots_inv_def tap_shape_def producer_inv_def consumer_inv_def
      history_inv_def Let_def)

lemma producer_step_inv:
  assumes inv: "tap_system_inv s" and active: "ts_producer s \<noteq> P_Idle"
  shows "tap_system_inv (producer_step s)"
proof (cases "ts_producer s")
  case (P_Read a w)
  have "\<exists>q. tp_read (ts_buffer s) = of_nat q \<and> q \<le> ts_position s \<and> length (ts_pushed s) \<le> q + PLANKTapSlots"
    using inv by (auto simp: tap_system_inv_def slots_inv_def Let_def)
  then show ?thesis using inv P_Read
    by (simp add: tap_system_inv_def producer_step_def frame_inv) (simp add: producer_inv_def Let_def)
next
  case (P_Check a w r)
  then obtain q where q: "w = of_nat (length (ts_pushed s))" "r = of_nat q" "q \<le> ts_position s"
    "length (ts_pushed s) \<le> q + PLANKTapSlots"
    using inv by (auto simp: tap_system_inv_def producer_inv_def Let_def)
  have "q \<le> length (ts_pushed s)" using q(3) inv by (auto simp: tap_system_inv_def slots_inv_def Let_def)
  then have "\<not> tap_full w r \<Longrightarrow> length (ts_pushed s) < ts_position s + PLANKTapSlots"
    using q unat_of_nat_diff [of q "length (ts_pushed s)"] by (simp add: tap_full_iff)
  then have header: "tap_system_inv (s\<lparr>ts_producer := P_Header a w\<rparr>)" if "\<not> tap_bad_args a" "\<not> tap_full w r"
    using that inv q(1) by (simp add: tap_system_inv_def frame_inv) (simp add: producer_inv_def Let_def)
  show ?thesis using P_Check abort_inv [OF inv] header by (simp add: producer_step_def Let_def)
next
  case (P_Header a w)
  then have w: "w = of_nat (length (ts_pushed s))" "\<not> tap_bad_args a"
    "length (ts_pushed s) < ts_position s + PLANKTapSlots" and slots: "slots_inv s"
    using inv by (simp_all add: tap_system_inv_def producer_inv_def Let_def)
  have shape: "tap_shape (ts_buffer s)" using slots by (simp add: slots_inv_def Let_def)
  have "filled a 0 (tp_blocks (on_slot w (tap_header a) (ts_buffer s)) ! (length (ts_pushed s) mod PLANKTapSlots))"
    unfolding w(1) blocks_slot [OF shape] using shape by (intro filled_header tap_shape_slot)
  moreover have "slots_inv (s\<lparr>ts_buffer := on_slot w (tap_header a) (ts_buffer s), ts_producer := P_Fill a w 0\<rparr>)"
    unfolding w(1) using slots w(3) by (intro slots_inv_on_slot) (simp_all add: tap_header_def)
  ultimately show ?thesis using inv P_Header w
    by (simp add: tap_system_inv_def producer_step_def frame_inv) (simp add: producer_inv_def Let_def)
next
  case (P_Fill a w i)
  then have w: "w = of_nat (length (ts_pushed s))" "\<not> tap_bad_args a"
    "length (ts_pushed s) < ts_position s + PLANKTapSlots" "i \<le> unat (ta_frames a)"
    "filled a i (tp_blocks (ts_buffer s) ! (length (ts_pushed s) mod PLANKTapSlots))" and slots: "slots_inv s"
    using inv by (simp_all add: tap_system_inv_def producer_inv_def Let_def)
  have shape: "tap_shape (ts_buffer s)" using slots by (simp add: slots_inv_def Let_def)
  consider "i = unat (ta_frames a)" | "i < unat (ta_frames a)" "\<not> tap_pair_finite a i"
    | "i < unat (ta_frames a)" "tap_pair_finite a i" using w(4) by linarith
  then show ?thesis
  proof cases
    case 1
    then show ?thesis using publish_inv [OF inv] P_Fill by (simp add: producer_step_def)
  next
    case 2
    then show ?thesis using abort_inv [OF inv] P_Fill by (simp add: producer_step_def)
  next
    case 3
    have "filled a (Suc i) (tp_blocks (on_slot w (tap_store a i) (ts_buffer s)) ! (length (ts_pushed s) mod PLANKTapSlots))"
      unfolding w(1) blocks_slot [OF shape] using w(5) 3(1) tap_frames_bound [OF w(2)] by (intro filled_store) simp_all
    moreover have "slots_inv (s\<lparr>ts_buffer := on_slot w (tap_store a i) (ts_buffer s), ts_producer := P_Fill a w (i + 1)\<rparr>)"
      unfolding w(1) using slots w(3) by (intro slots_inv_on_slot) (simp_all add: tap_store_def)
    ultimately show ?thesis using inv P_Fill w 3
      by (simp add: tap_system_inv_def producer_step_def frame_inv) (simp add: producer_inv_def Let_def)
  qed
qed (use active in simp)

lemma consumer_frame_inv:
  "slots_inv (s\<lparr>ts_consumer := pc\<rparr>) = slots_inv s"
  "producer_inv (s\<lparr>ts_consumer := pc\<rparr>) = producer_inv s"
  "history_inv (s\<lparr>ts_consumer := pc\<rparr>) = history_inv s"
  by (simp_all add: slots_inv_def producer_inv_def history_inv_def Let_def)

text \<open>The consumer moves its position forward, over blocks that were published.\<close>

lemma advance_inv:
  assumes inv: "tap_system_inv s" and q: "ts_position s \<le> q" "q \<le> length (ts_pushed s)"
    and h: "history_inv (s\<lparr>ts_position := q, ts_taken := taken, ts_skipped := skipped\<rparr>)"
  shows "tap_system_inv (s\<lparr>ts_buffer := ts_buffer s\<lparr>tp_read := of_nat q\<rparr>, ts_consumer := C_Idle,
     ts_position := q, ts_taken := taken, ts_skipped := skipped\<rparr>)" (is "tap_system_inv ?t")
proof -
  have "slots_inv s" "producer_inv s" using inv by (simp_all add: tap_system_inv_def)
  have "slots_inv ?t" using \<open>slots_inv s\<close> q by (simp add: slots_inv_def tap_shape_def Let_def)
  moreover have "producer_inv ?t"
    using \<open>producer_inv s\<close> q(1) by (fastforce simp: producer_inv_def Let_def split: producer_pc.splits)
  moreover have "history_inv ?t" using h by (simp add: history_inv_def)
  ultimately show ?thesis by (simp add: tap_system_inv_def consumer_inv_def)
qed

lemma pop_step_inv:
  assumes inv: "tap_system_inv s" and pc: "ts_consumer s = C_Hold"
  shows "tap_system_inv (consumer_step s)"
proof -
  let ?p = "ts_position s" and ?b = "ts_buffer s"
  have less: "?p < length (ts_pushed s)" using inv pc by (simp add: tap_system_inv_def consumer_inv_def Let_def)
  have read: "tp_read ?b = of_nat ?p"
    and content: "block_content (tp_blocks ?b ! (?p mod PLANKTapSlots)) = tap_content (ts_pushed s ! ?p)"
    using inv less by (simp_all add: tap_system_inv_def slots_inv_def Let_def)
  have "history_inv s" using inv by (simp add: tap_system_inv_def)
  then have "history_inv (s\<lparr>ts_position := ?p + 1, ts_taken := ts_taken s @ [tap_content (ts_pushed s ! ?p)],
      ts_skipped := ts_skipped s\<rparr>)"
    using less by (simp add: history_inv_def take_Suc_conv_app_nth list_emb_append_mono)
  from advance_inv [OF inv _ _ this] show ?thesis
    using less content read pc by (simp add: consumer_step_def tap_pop_def Let_def add.commute)
qed

lemma skip_step_inv:
  assumes inv: "tap_system_inv s" and pc: "ts_consumer s = C_Skip w"
  shows "tap_system_inv (consumer_step s)"
proof -
  let ?p = "ts_position s" and ?b = "ts_buffer s"
  obtain q where q: "w = of_nat q" "?p \<le> q" "q \<le> length (ts_pushed s)"
    using inv pc by (auto simp: tap_system_inv_def consumer_inv_def Let_def)
  have read: "tp_read ?b = of_nat ?p" and "length (ts_pushed s) \<le> ?p + PLANKTapSlots"
    using inv by (simp_all add: tap_system_inv_def slots_inv_def Let_def)
  then have diff: "unat (w - tp_read ?b) = q - ?p" using q unat_of_nat_diff [of ?p q] by simp
  have "history_inv s" using inv by (simp add: tap_system_inv_def)
  moreover have "subseq (map tap_content (take ?p (ts_pushed s))) (map tap_content (take q (ts_pushed s)))"
    using take_is_prefix [of ?p "take q (ts_pushed s)"] q(2)
    by (intro subseq_map prefix_imp_subseq) (simp add: min_def)
  ultimately have "history_inv (s\<lparr>ts_position := q, ts_taken := ts_taken s, ts_skipped := ts_skipped s + (q - ?p)\<rparr>)"
    using q(2) subseq_order.trans by (auto simp: history_inv_def)
  from advance_inv [OF inv q(2,3) this] show ?thesis using q(1,2) diff pc
    by (simp add: consumer_step_def Let_def)
qed

lemma consumer_step_inv:
  assumes inv: "tap_system_inv s" and active: "ts_consumer s \<noteq> C_Idle"
  shows "tap_system_inv (consumer_step s)"
proof (cases "ts_consumer s")
  case C_Discard
  have "tp_write (ts_buffer s) = of_nat (length (ts_pushed s))" "ts_position s \<le> length (ts_pushed s)"
    using inv by (simp_all add: tap_system_inv_def slots_inv_def Let_def)
  then show ?thesis using inv C_Discard
    by (auto simp: tap_system_inv_def consumer_step_def consumer_frame_inv) (auto simp: consumer_inv_def Let_def)
qed (use assms pop_step_inv skip_step_inv in simp_all)

lemma stop_frame_inv: "tap_system_inv (s\<lparr>ts_buffer := ts_buffer s\<lparr>tp_stopped := x\<rparr>\<rparr>) = tap_system_inv s"
  by (cases "ts_producer s"; simp add: tap_system_inv_def slots_inv_def producer_inv_def consumer_inv_def
      history_inv_def tap_shape_def Let_def)

lemma overruns_frame_inv:
  "tap_system_inv (s\<lparr>ts_buffer := ts_buffer s\<lparr>tp_overruns := y\<rparr>, ts_consumer := pc\<rparr>) = tap_system_inv (s\<lparr>ts_consumer := pc\<rparr>)"
  by (cases "ts_producer s"; simp add: tap_system_inv_def slots_inv_def producer_inv_def consumer_inv_def
      history_inv_def tap_shape_def Let_def)

lemma peek_step_inv:
  assumes inv: "tap_system_inv s" and some: "tap_peek (ts_buffer s) \<noteq> None"
  shows "tap_system_inv (s\<lparr>ts_consumer := C_Hold\<rparr>)"
proof -
  have "tp_read (ts_buffer s) \<noteq> tp_write (ts_buffer s)" using some by (auto simp: tap_peek_def)
  moreover have "tp_write (ts_buffer s) = of_nat (length (ts_pushed s))" "ts_position s \<le> length (ts_pushed s)"
    "tp_read (ts_buffer s) = of_nat (ts_position s)"
    using inv by (simp_all add: tap_system_inv_def slots_inv_def Let_def)
  ultimately have "ts_position s < length (ts_pushed s)" by (metis le_neq_implies_less)
  then show ?thesis using inv
    by (simp add: tap_system_inv_def consumer_frame_inv) (simp add: consumer_inv_def Let_def)
qed

lemma idle_inv: "tap_system_inv s \<Longrightarrow> pc \<in> {C_Idle, C_Discard} \<Longrightarrow> tap_system_inv (s\<lparr>ts_consumer := pc\<rparr>)"
  by (auto simp: tap_system_inv_def consumer_frame_inv) (auto simp: consumer_inv_def Let_def)

lemma call_inv: "tap_system_inv s \<Longrightarrow> tap_system_inv (s\<lparr>ts_producer := P_Read a (tp_write (ts_buffer s))\<rparr>)"
  by (simp add: tap_system_inv_def frame_inv) (simp add: producer_inv_def slots_inv_def Let_def)

lemma tap_step_inv: "tap_step s t \<Longrightarrow> tap_system_inv s \<Longrightarrow> tap_system_inv t"
proof (induction rule: tap_step.induct)
  case (discard s)
  then show ?case by (simp add: overruns_frame_inv idle_inv)
qed (simp_all add: call_inv producer_step_inv peek_step_inv consumer_step_inv stop_frame_inv)

interpretation tap_threads: invariant_system "tap_start b" tap_step "\<lambda>s. tap_shape b \<longrightarrow> tap_system_inv s" for b
  by unfold_locales (use tap_start_inv tap_step_inv in blast)+

section \<open>What the threads guarantee\<close>

lemma tap_reachable:
  assumes "tap_shape b" "tap_step\<^sup>*\<^sup>* (tap_start b) s"
  shows "tap_system_inv s"
  using tap_threads.reachable_inv [OF assms(2)] assms(1) by blast

text \<open>Under every interleaving of the HAL callback and the session queue, the producer never writes
  the slot whose block the consumer has peeked and not yet popped: whenever it is about to store a
  header or a frame, its slot is a different one.\<close>

theorem tap_no_overwrite:
  assumes "tap_shape b" "tap_step\<^sup>*\<^sup>* (tap_start b) s" "ts_consumer s = C_Hold"
    and "ts_producer s = P_Header a w \<or> ts_producer s = P_Fill a w i"
  shows "unat w mod PLANKTapSlots \<noteq> unat (tp_read (ts_buffer s)) mod PLANKTapSlots"
proof -
  have inv: "slots_inv s" "producer_inv s" "consumer_inv s"
    using tap_reachable [OF assms(1,2)] by (simp_all add: tap_system_inv_def)
  have "ts_position s < length (ts_pushed s)" using inv(3) assms(3) by (simp add: consumer_inv_def Let_def)
  moreover have "w = of_nat (length (ts_pushed s))" "length (ts_pushed s) < ts_position s + PLANKTapSlots"
    using inv(2) assms(4) by (auto simp: producer_inv_def Let_def)
  moreover have "tp_read (ts_buffer s) = of_nat (ts_position s)" using inv(1) by (simp add: slots_inv_def Let_def)
  ultimately show ?thesis using position_free [of "ts_position s" "ts_position s"] by (metis order_refl unat_of_nat_mod16)
qed

text \<open>C5: Under every interleaving, the blocks the consumer reads are blocks that were completely pushed,
  in the order of the pushes and none of them twice; a block is missing only where the consumer itself
  dropped its backlog after an overrun, so without overruns it receives every block in order; and at
  most sixteen published blocks ever wait.\<close>

theorem tap_delivery:
  assumes "tap_shape b" "tap_step\<^sup>*\<^sup>* (tap_start b) s"
  shows "subseq (ts_taken s) (map tap_content (ts_pushed s)) \<and>
    (ts_skipped s = 0 \<longrightarrow> ts_taken s = map tap_content (take (ts_position s) (ts_pushed s))) \<and>
    length (ts_taken s) + ts_skipped s \<le> length (ts_pushed s) \<and>
    length (ts_pushed s) \<le> length (ts_taken s) + ts_skipped s + PLANKTapSlots"
proof (intro conjI impI)
  have h: "history_inv s" "slots_inv s" using tap_reachable [OF assms] by (simp_all add: tap_system_inv_def)
  have p: "ts_position s \<le> length (ts_pushed s)" "length (ts_pushed s) \<le> ts_position s + PLANKTapSlots"
    using h(2) by (simp_all add: slots_inv_def Let_def)
  have "subseq (map tap_content (take (ts_position s) (ts_pushed s))) (map tap_content (ts_pushed s))"
    by (intro subseq_map prefix_imp_subseq take_is_prefix)
  then show "subseq (ts_taken s) (map tap_content (ts_pushed s))"
    using h(1) subseq_order.trans by (auto simp: history_inv_def)
  show "ts_taken s = map tap_content (take (ts_position s) (ts_pushed s))" if "ts_skipped s = 0"
    using h(1) that p(1) by (intro subseq_same_length) (simp_all add: history_inv_def)
  show "length (ts_taken s) + ts_skipped s \<le> length (ts_pushed s)"
    "length (ts_pushed s) \<le> length (ts_taken s) + ts_skipped s + PLANKTapSlots"
    using h(1) p by (simp_all add: history_inv_def)
qed

text \<open>A run: one block is pushed and peeked, and the producer is about to fill the next slot.\<close>

definition demo_call :: "tap_system \<Rightarrow> tap_system" where
  "demo_call s = s\<lparr>ts_producer := P_Read (demo_push 5) (tp_write (ts_buffer s))\<rparr>"

definition demo_first :: tap_system where
  "demo_first = (producer_step ^^ 5) (demo_call (tap_start demo_ring))"

definition demo_held :: tap_system where
  "demo_held = (producer_step ^^ 2) (demo_call (demo_first\<lparr>ts_consumer := C_Hold\<rparr>))"

lemma demo_args:
  "tap_args_ok (demo_push t)" "tap_pair_finite (demo_push t) 0" "\<not> tap_bad_args (demo_push 5)"
  "unat (ta_frames (demo_push t)) = 1" "\<not> tap_full 0 0" "\<not> tap_full 1 0"
  by (simp_all add: tap_args_ok_def demo_push_def tap_pair_finite_def tap_pair_def isfinite32_def
      tap_bad_args_def tap_full_iff)

lemma funpow_numeral_apply: "(f ^^ numeral k) x = f ((f ^^ pred_numeral k) x)"
  by (simp add: numeral_eq_Suc)

lemmas demo_eval = funpow_numeral_apply producer_step_def demo_call_def demo_args Let_def

lemma tap_start_simps:
  "ts_producer (tap_start b) = P_Idle" "ts_consumer (tap_start b) = C_Idle"
  "tp_read (ts_buffer (tap_start b)) = 0" "tp_write (ts_buffer (tap_start b)) = 0"
  "tp_stopped (ts_buffer (tap_start b)) = False"
  by (simp_all add: tap_start_def tap_buffer_init_def)

lemma demo_first_eval:
  "ts_producer demo_first = P_Idle" "ts_consumer demo_first = C_Idle" "tp_read (ts_buffer demo_first) = 0"
  "tp_write (ts_buffer demo_first) = 1" "tp_stopped (ts_buffer demo_first) = False"
  by (simp_all add: demo_first_def demo_eval tap_start_simps)

lemma produce_steps:
  assumes "\<And>k. k < n \<Longrightarrow> ts_producer ((producer_step ^^ k) s) \<noteq> P_Idle"
  shows "tap_step\<^sup>*\<^sup>* s ((producer_step ^^ n) s)"
  using assms
proof (induction n)
  case (Suc n)
  then have "tap_step\<^sup>*\<^sup>* s ((producer_step ^^ n) s)" by simp
  moreover have "tap_step ((producer_step ^^ n) s) (producer_step ((producer_step ^^ n) s))"
    using Suc.prems [of n] by (intro tap_step.produce) simp
  ultimately show ?case by (simp add: rtranclp.rtrancl_into_rtrancl)
qed simp

lemma demo_call_step:
  assumes "ts_producer s = P_Idle" "\<not> tp_stopped (ts_buffer s)"
  shows "tap_step s (demo_call s)"
  unfolding demo_call_def using assms demo_args(1) by (intro tap_step.push)

lemma demo_first_reachable: "tap_step\<^sup>*\<^sup>* (tap_start demo_ring) demo_first"
proof -
  have "tap_step\<^sup>*\<^sup>* (demo_call (tap_start demo_ring)) demo_first"
    unfolding demo_first_def
  proof (rule produce_steps)
    fix k :: nat assume "k < 5"
    then have "k = 0 \<or> k = 1 \<or> k = 2 \<or> k = 3 \<or> k = 4" by linarith
    then show "ts_producer ((producer_step ^^ k) (demo_call (tap_start demo_ring))) \<noteq> P_Idle"
      by (elim disjE; simp add: demo_eval tap_start_simps)
  qed
  moreover have "tap_step (tap_start demo_ring) (demo_call (tap_start demo_ring))"
    by (rule demo_call_step) (simp_all add: tap_start_def tap_buffer_init_def)
  ultimately show ?thesis by (rule converse_rtranclp_into_rtranclp [rotated])
qed

lemma demo_held_reachable: "tap_step\<^sup>*\<^sup>* (tap_start demo_ring) demo_held"
proof -
  have "tap_step demo_first (demo_first\<lparr>ts_consumer := C_Hold\<rparr>)"
    by (rule tap_step.peek) (simp_all add: demo_first_eval tap_peek_def)
  moreover have "tap_step (demo_first\<lparr>ts_consumer := C_Hold\<rparr>) (demo_call (demo_first\<lparr>ts_consumer := C_Hold\<rparr>))"
    by (rule demo_call_step) (simp_all add: demo_first_eval)
  moreover have "tap_step\<^sup>*\<^sup>* (demo_call (demo_first\<lparr>ts_consumer := C_Hold\<rparr>)) demo_held"
    unfolding demo_held_def
  proof (rule produce_steps)
    fix k :: nat assume "k < 2"
    then have "k = 0 \<or> k = 1" by linarith
    then show "ts_producer ((producer_step ^^ k) (demo_call (demo_first\<lparr>ts_consumer := C_Hold\<rparr>))) \<noteq> P_Idle"
      by (elim disjE; simp add: demo_eval)
  qed
  ultimately have "tap_step\<^sup>*\<^sup>* demo_first demo_held" by (meson converse_rtranclp_into_rtranclp)
  then show ?thesis using demo_first_reachable by simp
qed

lemma demo_shape: "tap_shape demo_ring"
  by (simp add: tap_shape_def demo_ring_def demo_block_def)

lemma tap_no_overwrite_witness:
  "unat (1::u32) mod PLANKTapSlots \<noteq> unat (tp_read (ts_buffer demo_held)) mod PLANKTapSlots"
proof (rule tap_no_overwrite [OF demo_shape demo_held_reachable])
  show "ts_consumer demo_held = C_Hold"
    by (simp add: demo_held_def demo_eval demo_first_eval)
  show "ts_producer demo_held = P_Header (demo_push 5) 1 \<or> ts_producer demo_held = P_Fill (demo_push 5) 1 0"
    by (simp add: demo_held_def demo_eval demo_first_eval)
qed

lemma tap_delivery_witness:
  "tap_step\<^sup>*\<^sup>* (tap_start demo_ring) demo_held \<and> subseq (ts_taken demo_held) (map tap_content (ts_pushed demo_held))"
  using tap_delivery [OF demo_shape demo_held_reachable] demo_held_reachable by blast

end
