(* ===== verification/Camera_Link.thy ===== *)
theory Camera_Link
  imports Camera_Wire Step_System
begin

text \<open>
  The shared camera mapping of the macOS host, \<^verbatim>\<open>src/apps/host/macos/camera-device/camera-link.h\<close>: a
  producer process publishes camera records in three slots, each guarded by a stamp, and an extension
  process copies them out. The operations are given as functions (what they do undisturbed); the
  theory \<^verbatim>\<open>Camera_Link_Threads\<close> takes them apart into their atomic accesses.

  A word of a slot is the little-endian image of eight bytes of the record.
\<close>

abbreviation PLANKCameraSlots :: nat where "PLANKCameraSlots \<equiv> 3"
abbreviation PLANKCameraRecordBytes :: nat where
  "PLANKCameraRecordBytes \<equiv> PLANK_CAMERA_HEADER_BYTES + PLANK_CAMERA_MAX_FRAME_BYTES"
abbreviation PLANKCameraRecordWords :: nat where
  "PLANKCameraRecordWords \<equiv> (PLANKCameraRecordBytes + 7) div 8"
abbreviation PLANK_CAMERA_MAX_AGE_NS :: u64 where "PLANK_CAMERA_MAX_AGE_NS \<equiv> 150000000"

record camera_slot =
  cs_stamp :: u64
  cs_size :: u64
  cs_host_time :: u64
  cs_arrived :: u64
  cs_words :: "u64 list"

record camera_link =
  cl_version :: u64
  cl_published :: u64
  cl_key_request :: u64
  cl_slots :: "camera_slot list"

text \<open>The layout of the structures: every field and every word is an aligned 64-bit atomic.\<close>

definition camera_link_struct_bytes :: nat where
  "camera_link_struct_bytes = 8 * 3 + PLANKCameraSlots * (8 * 4 + 8 * PLANKCameraRecordWords)"

definition camera_link_bytes :: "nat \<Rightarrow> nat" where
  "camera_link_bytes page =
     (if page \<noteq> 0 \<and> page \<le> size_max - 1 - camera_link_struct_bytes
      then (camera_link_struct_bytes + page - 1) div page * page else 0)"

definition camera_link_init :: camera_link where
  "camera_link_init = \<lparr>cl_version = 2, cl_published = 0, cl_key_request = 0,
     cl_slots = replicate PLANKCameraSlots \<lparr>cs_stamp = 0, cs_size = 0, cs_host_time = 0, cs_arrived = 0,
       cs_words = replicate PLANKCameraRecordWords 0\<rparr>\<rparr>"

definition word_bytes :: "u64 \<Rightarrow> bytes" where
  "word_bytes w = le32 (ucast w) @ le32 (ucast (drop_bit 32 w))"

definition bytes_word :: "bytes \<Rightarrow> u64" where
  "bytes_word p = or (push_bit 32 (ucast (from_le32 (drop 4 p)))) (ucast (from_le32 p))"

text \<open>The word the writer stores for offset \<^verbatim>\<open>8 * k\<close>, and the bytes the reader takes from a word there.\<close>

definition record_word :: "bytes \<Rightarrow> nat \<Rightarrow> u64" where
  "record_word r k = (let part = take 8 (drop (8 * k) r) in bytes_word (part @ replicate (8 - length part) 0))"

definition word_part :: "nat \<Rightarrow> nat \<Rightarrow> u64 \<Rightarrow> bytes" where
  "word_part count k w = take (if count - 8 * k < 8 then count - 8 * k else 8) (word_bytes w)"

definition record_words :: "nat \<Rightarrow> nat" where
  "record_words count = (count + 7) div 8"

definition slot_of :: "u64 \<Rightarrow> nat" where
  "slot_of next = unat (next - 1) mod PLANKCameraSlots"

definition on_link_slot :: "u64 \<Rightarrow> (camera_slot \<Rightarrow> camera_slot) \<Rightarrow> camera_link \<Rightarrow> camera_link" where
  "on_link_slot next f link = link\<lparr>cl_slots := (cl_slots link)[slot_of next := f (cl_slots link ! slot_of next)]\<rparr>"

definition odd_stamp :: "u64 \<Rightarrow> u64" where "odd_stamp next = or (push_bit 1 next) 1"
definition even_stamp :: "u64 \<Rightarrow> u64" where "even_stamp next = push_bit 1 next"

record camera_record =
  cr_bytes :: bytes
  cr_host_time :: u64
  cr_arrived :: u64

definition camera_write_ok :: "u64 \<Rightarrow> camera_record \<Rightarrow> bool" where
  "camera_write_ok serial r \<longleftrightarrow>
     \<not> (length (cr_bytes r) \<le> PLANK_CAMERA_HEADER_BYTES \<or> PLANKCameraRecordBytes < length (cr_bytes r) \<or>
        cr_host_time r = 0 \<or> cr_arrived r = 0 \<or> UINT64_MAX div 2 - 1 \<le> serial)"

fun store_words :: "bytes \<Rightarrow> nat \<Rightarrow> u64 list \<Rightarrow> u64 list" where
  "store_words r 0 ws = ws"
| "store_words r (Suc k) ws = (store_words r k ws)[k := record_word r k]"

definition camera_link_write :: "camera_record \<Rightarrow> u64 \<Rightarrow> camera_link \<Rightarrow> bool \<times> u64 \<times> camera_link" where
  "camera_link_write r serial link =
     (if \<not> camera_write_ok serial r then (False, serial, link)
      else
        let next = serial + 1; n = length (cr_bytes r);
            l1 = on_link_slot next (\<lambda>s. s\<lparr>cs_stamp := odd_stamp next\<rparr>) link;
            l2 = on_link_slot next (\<lambda>s. s\<lparr>cs_size := of_nat n, cs_host_time := cr_host_time r, cs_arrived := cr_arrived r\<rparr>) l1;
            l3 = on_link_slot next (\<lambda>s. s\<lparr>cs_words := store_words (cr_bytes r) (record_words n) (cs_words s)\<rparr>) l2;
            l4 = on_link_slot next (\<lambda>s. s\<lparr>cs_stamp := even_stamp next\<rparr>) l3
        in (True, next, l4\<lparr>cl_published := next\<rparr>))"

text \<open>The part of a read that decides, from the published serial, whether a slot is looked at: the
  return value, or the serial to read, with the new cursor.\<close>

definition camera_read_begin :: "u64 \<Rightarrow> u64 \<Rightarrow> (int + u64) \<times> u64" where
  "camera_read_begin published cursor =
     (if published = cursor then (Inl 0, cursor)
      else if published < cursor \<or> UINT64_MAX div 2 \<le> published then (Inl (- 1), cursor)
      else if of_nat PLANKCameraSlots < published - cursor then (Inl (- 1), published - 1)
      else (Inr (cursor + 1), cursor + 1))"

definition camera_fields_bad :: "nat \<Rightarrow> u64 \<Rightarrow> u64 \<Rightarrow> u64 \<Rightarrow> u64 \<Rightarrow> bool" where
  "camera_fields_bad capacity now count time arrived \<longleftrightarrow>
     unat count \<le> PLANK_CAMERA_HEADER_BYTES \<or> PLANKCameraRecordBytes < unat count \<or> capacity < unat count \<or>
     time = 0 \<or> INT64_MAX < time \<or> arrived = 0 \<or> now < arrived \<or> PLANK_CAMERA_MAX_AGE_NS < now - arrived \<or>
     (if now < time then 100000000 < time - now else PLANK_CAMERA_MAX_AGE_NS < now - time)"

fun load_words :: "nat \<Rightarrow> nat \<Rightarrow> u64 list \<Rightarrow> bytes" where
  "load_words count 0 ws = []"
| "load_words count (Suc k) ws = load_words count k ws @ word_part count k (ws ! k)"

definition camera_link_read ::
  "nat \<Rightarrow> u64 \<Rightarrow> u64 \<Rightarrow> camera_link \<Rightarrow> (int \<times> camera_record option) \<times> u64" where
  "camera_link_read capacity now cursor link =
     (case camera_read_begin (cl_published link) cursor of
        (Inl v, cursor') \<Rightarrow> ((v, None), cursor')
      | (Inr next, cursor') \<Rightarrow>
          let s = cl_slots link ! slot_of next;
              count = cs_size s; time = cs_host_time s; arrived = cs_arrived s in
          if cs_stamp s \<noteq> even_stamp next \<or> camera_fields_bad capacity now count time arrived
          then ((- 1, None), cursor')
          else ((1, Some \<lparr>cr_bytes = load_words (unat count) (record_words (unat count)) (cs_words s),
                          cr_host_time = time, cr_arrived = arrived\<rparr>), cursor'))"

section \<open>Records as words\<close>

lemma length_word_bytes [simp]: "length (word_bytes w) = 8"
  by (simp add: word_bytes_def)

lemma word_bytes_bytes_word:
  assumes "length p = 8"
  shows "word_bytes (bytes_word p) = p"
proof -
  have "ucast (bytes_word p) = from_le32 p" "ucast (drop_bit 32 (bytes_word p)) = from_le32 (drop 4 p)"
    unfolding bytes_word_def by (intro bit_word_eqI; auto simp: bit_simps dest: bit_imp_le_length)+
  then show ?thesis using assms by (simp add: word_bytes_def)
qed

lemma word_part_record_word:
  assumes "8 * k < length r"
  shows "word_part (length r) k (record_word r k) = take 8 (drop (8 * k) r)"
proof -
  let ?part = "take 8 (drop (8 * k) r)"
  have "word_bytes (record_word r k) = ?part @ replicate (8 - length ?part) 0"
    unfolding record_word_def Let_def by (rule word_bytes_bytes_word) simp
  then show ?thesis by (simp add: word_part_def)
qed

lemma record_words_less: "k < record_words n \<longleftrightarrow> 8 * k < n"
  by (auto simp: record_words_def less_eq_Suc_le)

lemma length_store_words [simp]: "length (store_words r k ws) = length ws"
  by (induction k) simp_all

lemma store_words_nth: "j < k \<Longrightarrow> j < length ws \<Longrightarrow> store_words r k ws ! j = record_word r j"
  by (induction k) (auto simp: nth_list_update less_Suc_eq)

text \<open>Words that hold a record give it back.\<close>

lemma load_words_prefix:
  assumes "k \<le> record_words (length r)" "\<And>j. j < k \<Longrightarrow> ws ! j = record_word r j"
  shows "load_words (length r) k ws = take (8 * k) r"
  using assms
proof (induction k)
  case (Suc k)
  have "8 * k < length r" using Suc.prems(1) by (simp add: record_words_less [symmetric])
  then show ?case using Suc word_part_record_word by (simp add: take_add [symmetric] add.commute)
qed simp

lemma load_words_record:
  assumes "\<And>j. j < record_words (length r) \<Longrightarrow> ws ! j = record_word r j"
  shows "load_words (length r) (record_words (length r)) ws = r"
proof -
  have "length r \<le> 8 * record_words (length r)" by (simp add: record_words_def)
  then show ?thesis using load_words_prefix [OF order_refl assms] by simp
qed

end
