(* ===== verification/Camera_Link_Threads.thy ===== *)
theory Camera_Link_Threads
  imports Camera_Link
begin

text \<open>
  The two processes on the camera mapping. A step is one atomic access of the mapping, so a run is an
  interleaving of the producer's stores with the reader's loads; the local variables that are live
  between two accesses are in the control points. The reader never waits and never retries.

  History variables: \<^verbatim>\<open>ls_written\<close> the records of the writes so far, in the order of their serials
  (the one being written is the last), \<^verbatim>\<open>ls_delivered\<close> the serials and records for which a read
  returned 1.
\<close>

datatype writer_pc =
    CW_Idle
  | CW_Stamp camera_record u64
  | CW_Size camera_record u64
  | CW_Host camera_record u64
  | CW_Arrived camera_record u64
  | CW_Word camera_record u64 nat
  | CW_Even camera_record u64
  | CW_Publish u64

datatype reader_pc =
    CR_Idle
  | CR_Stamp nat u64 u64
  | CR_Size nat u64 u64
  | CR_Host nat u64 u64 u64
  | CR_Arrived nat u64 u64 u64 u64
  | CR_Word u64 u64 u64 u64 nat bytes
  | CR_Last u64 u64 u64 bytes

record link_system =
  ls_link :: camera_link
  ls_serial :: u64
  ls_cursor :: u64
  ls_writer :: writer_pc
  ls_reader :: reader_pc
  ls_written :: "camera_record list"
  ls_delivered :: "(nat \<times> camera_record) list"

definition link_start :: link_system where
  "link_start = \<lparr>ls_link = camera_link_init, ls_serial = 0, ls_cursor = 0, ls_writer = CW_Idle, ls_reader = CR_Idle,
     ls_written = [], ls_delivered = []\<rparr>"

definition writer_step :: "link_system \<Rightarrow> link_system" where
  "writer_step s =
     (case ls_writer s of
        CW_Idle \<Rightarrow> s
      | CW_Stamp r n \<Rightarrow> s\<lparr>ls_link := on_link_slot n (\<lambda>c. c\<lparr>cs_stamp := odd_stamp n\<rparr>) (ls_link s), ls_writer := CW_Size r n\<rparr>
      | CW_Size r n \<Rightarrow>
          s\<lparr>ls_link := on_link_slot n (\<lambda>c. c\<lparr>cs_size := of_nat (length (cr_bytes r))\<rparr>) (ls_link s), ls_writer := CW_Host r n\<rparr>
      | CW_Host r n \<Rightarrow>
          s\<lparr>ls_link := on_link_slot n (\<lambda>c. c\<lparr>cs_host_time := cr_host_time r\<rparr>) (ls_link s), ls_writer := CW_Arrived r n\<rparr>
      | CW_Arrived r n \<Rightarrow>
          s\<lparr>ls_link := on_link_slot n (\<lambda>c. c\<lparr>cs_arrived := cr_arrived r\<rparr>) (ls_link s), ls_writer := CW_Word r n 0\<rparr>
      | CW_Word r n k \<Rightarrow>
          if 8 * k < length (cr_bytes r)
          then s\<lparr>ls_link := on_link_slot n (\<lambda>c. c\<lparr>cs_words := (cs_words c)[k := record_word (cr_bytes r) k]\<rparr>) (ls_link s),
                 ls_writer := CW_Word r n (k + 1)\<rparr>
          else s\<lparr>ls_writer := CW_Even r n\<rparr>
      | CW_Even r n \<Rightarrow>
          s\<lparr>ls_link := on_link_slot n (\<lambda>c. c\<lparr>cs_stamp := even_stamp n\<rparr>) (ls_link s), ls_writer := CW_Publish n\<rparr>
      | CW_Publish n \<Rightarrow> s\<lparr>ls_link := (ls_link s)\<lparr>cl_published := n\<rparr>, ls_writer := CW_Idle\<rparr>)"

definition reader_step :: "link_system \<Rightarrow> link_system" where
  "reader_step s =
     (let slot = \<lambda>n. cl_slots (ls_link s) ! slot_of n in
      case ls_reader s of
        CR_Idle \<Rightarrow> s
      | CR_Stamp cap now n \<Rightarrow>
          if cs_stamp (slot n) \<noteq> even_stamp n then s\<lparr>ls_reader := CR_Idle\<rparr> else s\<lparr>ls_reader := CR_Size cap now n\<rparr>
      | CR_Size cap now n \<Rightarrow> s\<lparr>ls_reader := CR_Host cap now n (cs_size (slot n))\<rparr>
      | CR_Host cap now n count \<Rightarrow> s\<lparr>ls_reader := CR_Arrived cap now n count (cs_host_time (slot n))\<rparr>
      | CR_Arrived cap now n count time \<Rightarrow>
          let arrived = cs_arrived (slot n) in
          if camera_fields_bad cap now count time arrived then s\<lparr>ls_reader := CR_Idle\<rparr>
          else s\<lparr>ls_reader := CR_Word n count time arrived 0 []\<rparr>
      | CR_Word n count time arrived k buf \<Rightarrow>
          if 8 * k < unat count
          then s\<lparr>ls_reader := CR_Word n count time arrived (k + 1) (buf @ word_part (unat count) k (cs_words (slot n) ! k))\<rparr>
          else s\<lparr>ls_reader := CR_Last n time arrived buf\<rparr>
      | CR_Last n time arrived buf \<Rightarrow>
          if cs_stamp (slot n) \<noteq> even_stamp n then s\<lparr>ls_reader := CR_Idle\<rparr>
          else s\<lparr>ls_reader := CR_Idle, ls_delivered := ls_delivered s @
            [(unat n, \<lparr>cr_bytes = buf, cr_host_time = time, cr_arrived = arrived\<rparr>)]\<rparr>)"

text \<open>The calls: a write that passes its checks takes the next serial; a read first looks at the
  published serial and may be over with that.\<close>

definition write_call :: "camera_record \<Rightarrow> link_system \<Rightarrow> link_system" where
  "write_call r s = s\<lparr>ls_serial := ls_serial s + 1, ls_writer := CW_Stamp r (ls_serial s + 1), ls_written := ls_written s @ [r]\<rparr>"

definition read_call :: "nat \<Rightarrow> u64 \<Rightarrow> link_system \<Rightarrow> link_system" where
  "read_call cap now s =
     (case camera_read_begin (cl_published (ls_link s)) (ls_cursor s) of
        (Inl v, c) \<Rightarrow> s\<lparr>ls_cursor := c\<rparr>
      | (Inr n, c) \<Rightarrow> s\<lparr>ls_cursor := c, ls_reader := CR_Stamp cap now n\<rparr>)"

inductive link_step :: "link_system \<Rightarrow> link_system \<Rightarrow> bool" where
  call_write: "ls_writer s = CW_Idle \<Longrightarrow> camera_write_ok (ls_serial s) r \<Longrightarrow> link_step s (write_call r s)"
| step_write: "ls_writer s \<noteq> CW_Idle \<Longrightarrow> link_step s (writer_step s)"
| call_read: "ls_reader s = CR_Idle \<Longrightarrow> link_step s (read_call cap now s)"
| step_read: "ls_reader s \<noteq> CR_Idle \<Longrightarrow> link_step s (reader_step s)"

inductive_cases link_stepE: "link_step s t"

section \<open>Stamps\<close>

abbreviation serial_limit :: nat where "serial_limit \<equiv> 2 ^ 63"

lemma stamp_values:
  assumes "unat n < serial_limit"
  shows "unat (even_stamp n) = 2 * unat n" "unat (odd_stamp n) = 2 * unat n + 1"
proof -
  have even: "even_stamp n = 2 * n" by (simp add: even_stamp_def push_bit_eq_mult)
  then show e: "unat (even_stamp n) = 2 * unat n" using assms by (simp add: unat_word_ariths)
  have "odd_stamp n = even_stamp n + 1"
    unfolding odd_stamp_def even_stamp_def using even by (simp add: or_one_eq push_bit_eq_mult)
  then show "unat (odd_stamp n) = 2 * unat n + 1" using e assms by (simp add: unat_word_ariths)
qed

text \<open>What a slot holds of a record; \<^verbatim>\<open>k\<close> words of it.\<close>

definition holds_words :: "camera_record \<Rightarrow> nat \<Rightarrow> camera_slot \<Rightarrow> bool" where
  "holds_words r k c \<longleftrightarrow> (\<forall>j < k. cs_words c ! j = record_word (cr_bytes r) j)"

definition holds_fields :: "camera_record \<Rightarrow> camera_slot \<Rightarrow> bool" where
  "holds_fields r c \<longleftrightarrow> cs_size c = of_nat (length (cr_bytes r)) \<and> cs_host_time c = cr_host_time r \<and> cs_arrived c = cr_arrived r"

definition holds :: "camera_record \<Rightarrow> camera_slot \<Rightarrow> bool" where
  "holds r c \<longleftrightarrow> holds_fields r c \<and> holds_words r (record_words (length (cr_bytes r))) c"

definition slot_number :: "nat \<Rightarrow> nat" where
  "slot_number n = (n - 1) mod PLANKCameraSlots"

lemma slot_of_number: "0 < unat n \<Longrightarrow> slot_of n = slot_number (unat n)"
  by (simp add: slot_of_def slot_number_def unat_minus_one unat_gt_0)

section \<open>The invariant\<close>

text \<open>
  A slot is untouched, or holds a complete record and its even stamp, or carries the odd stamp of the
  record being written. \<^verbatim>\<open>active n\<close> says that the writer is between the two stamps of serial \<^verbatim>\<open>n\<close>.
\<close>

definition writing :: "writer_pc \<Rightarrow> bool" where
  "writing pc \<longleftrightarrow> (case pc of CW_Size _ _ \<Rightarrow> True | CW_Host _ _ \<Rightarrow> True | CW_Arrived _ _ \<Rightarrow> True
     | CW_Word _ _ _ \<Rightarrow> True | CW_Even _ _ \<Rightarrow> True | _ \<Rightarrow> False)"

definition slot_inv :: "link_system \<Rightarrow> nat \<Rightarrow> bool" where
  "slot_inv s j \<longleftrightarrow>
     (let c = cl_slots (ls_link s) ! j; t = unat (cs_stamp c) in
      t = 0 \<or>
      (\<exists>n. 0 < n \<and> n \<le> length (ls_written s) \<and> slot_number n = j \<and>
        (t = 2 * n \<and> holds (ls_written s ! (n - 1)) c \<or>
         t = 2 * n + 1 \<and> n = length (ls_written s) \<and> writing (ls_writer s))))"

definition writer_slot :: "link_system \<Rightarrow> camera_slot" where
  "writer_slot s = cl_slots (ls_link s) ! slot_number (length (ls_written s))"

definition writer_inv :: "link_system \<Rightarrow> bool" where
  "writer_inv s \<longleftrightarrow>
     (let m = length (ls_written s); c = writer_slot s; current = (\<lambda>r n. unat n = m \<and> 0 < m \<and> r = ls_written s ! (m - 1));
          odd = unat (cs_stamp c) = 2 * m + 1
      in case ls_writer s of
        CW_Idle \<Rightarrow> True
      | CW_Stamp r n \<Rightarrow> current r n \<and> unat (cs_stamp c) < 2 * m
      | CW_Size r n \<Rightarrow> current r n \<and> odd
      | CW_Host r n \<Rightarrow> current r n \<and> odd \<and> cs_size c = of_nat (length (cr_bytes r))
      | CW_Arrived r n \<Rightarrow> current r n \<and> odd \<and> cs_size c = of_nat (length (cr_bytes r)) \<and> cs_host_time c = cr_host_time r
      | CW_Word r n k \<Rightarrow> current r n \<and> odd \<and> holds_fields r c \<and> holds_words r k c \<and> k \<le> record_words (length (cr_bytes r))
      | CW_Even r n \<Rightarrow> current r n \<and> odd \<and> holds r c
      | CW_Publish n \<Rightarrow> unat n = m)"

text \<open>
  The reader works on a serial \<^verbatim>\<open>n\<close> whose slot carried the even stamp of \<^verbatim>\<open>n\<close> at its first look: as long
  as the stamp is still that one, what it has loaded is what was written; otherwise the stamp has
  moved past \<^verbatim>\<open>2 * n + 1\<close> and never comes back.
\<close>

definition loaded :: "camera_record \<Rightarrow> reader_pc \<Rightarrow> bool" where
  "loaded r pc \<longleftrightarrow>
     (case pc of
        CR_Host cap now n count \<Rightarrow> count = of_nat (length (cr_bytes r))
      | CR_Arrived cap now n count time \<Rightarrow> count = of_nat (length (cr_bytes r)) \<and> time = cr_host_time r
      | CR_Word n count time arrived k buf \<Rightarrow>
          count = of_nat (length (cr_bytes r)) \<and> time = cr_host_time r \<and> arrived = cr_arrived r \<and>
          k \<le> record_words (length (cr_bytes r)) \<and> buf = take (8 * k) (cr_bytes r)
      | CR_Last n time arrived buf \<Rightarrow> time = cr_host_time r \<and> arrived = cr_arrived r \<and> buf = cr_bytes r
      | _ \<Rightarrow> True)"

definition reading :: "reader_pc \<Rightarrow> u64 option" where
  "reading pc =
     (case pc of CR_Idle \<Rightarrow> None | CR_Stamp _ _ n \<Rightarrow> Some n | CR_Size _ _ n \<Rightarrow> Some n | CR_Host _ _ n _ \<Rightarrow> Some n
      | CR_Arrived _ _ n _ _ \<Rightarrow> Some n | CR_Word n _ _ _ _ _ \<Rightarrow> Some n | CR_Last n _ _ _ \<Rightarrow> Some n)"

definition reader_inv :: "link_system \<Rightarrow> bool" where
  "reader_inv s \<longleftrightarrow>
     (case reading (ls_reader s) of
        None \<Rightarrow> True
      | Some n \<Rightarrow>
          0 < unat n \<and> unat n < serial_limit \<and> n = ls_cursor s \<and>
          ((\<exists>cap now. ls_reader s = CR_Stamp cap now n) \<or>
           (let t = unat (cs_stamp (cl_slots (ls_link s) ! slot_number (unat n))) in
            2 * unat n + 1 < t \<or> t = 2 * unat n \<and> loaded (ls_written s ! (unat n - 1)) (ls_reader s))))"

definition delivered_inv :: "link_system \<Rightarrow> bool" where
  "delivered_inv s \<longleftrightarrow>
     sorted_wrt (<) (map fst (ls_delivered s)) \<and>
     (\<forall>(n, r) \<in> set (ls_delivered s). 0 < n \<and> n \<le> length (ls_written s) \<and> r = ls_written s ! (n - 1) \<and>
        n \<le> unat (ls_cursor s) \<and> (reading (ls_reader s) \<noteq> None \<longrightarrow> n < unat (ls_cursor s)))"

definition link_shape :: "link_system \<Rightarrow> bool" where
  "link_shape s \<longleftrightarrow>
     length (cl_slots (ls_link s)) = PLANKCameraSlots \<and>
     (\<forall>c \<in> set (cl_slots (ls_link s)). length (cs_words c) = PLANKCameraRecordWords) \<and>
     unat (ls_serial s) = length (ls_written s) \<and> length (ls_written s) < serial_limit - 1 \<and>
     (\<forall>r \<in> set (ls_written s). PLANK_CAMERA_HEADER_BYTES < length (cr_bytes r) \<and> length (cr_bytes r) \<le> PLANKCameraRecordBytes)"

definition link_inv :: "link_system \<Rightarrow> bool" where
  "link_inv s \<longleftrightarrow> link_shape s \<and> (\<forall>j < PLANKCameraSlots. slot_inv s j) \<and> writer_inv s \<and> reader_inv s \<and> delivered_inv s"

lemma link_start_inv: "link_inv link_start"
  by (auto simp: link_inv_def link_start_def link_shape_def slot_inv_def writer_inv_def reader_inv_def
      delivered_inv_def camera_link_init_def reading_def nth_replicate)

section \<open>Steps of the writer\<close>

lemma slot_number_less: "slot_number n < PLANKCameraSlots"
  by (simp add: slot_number_def)

lemma on_link_slot_slots:
  assumes "unat n = m" "0 < m" "length (cl_slots link) = PLANKCameraSlots" "j < PLANKCameraSlots"
  shows "cl_slots (on_link_slot n f link) ! j =
    (if j = slot_number m then f (cl_slots link ! j) else cl_slots link ! j)"
  using assms slot_of_number [of n] slot_number_less by (simp add: on_link_slot_def)

lemma slot_inv_stamp:
  assumes "link_inv s" "j < PLANKCameraSlots" "unat (cs_stamp (cl_slots (ls_link s) ! j)) = 2 * n" "0 < n"
  shows "n \<le> length (ls_written s)" "holds (ls_written s ! (n - 1)) (cl_slots (ls_link s) ! j)"
proof -
  have "slot_inv s j" using assms(1,2) by (simp add: link_inv_def)
  then obtain k where "k \<le> length (ls_written s)"
    "2 * n = 2 * k \<and> holds (ls_written s ! (k - 1)) (cl_slots (ls_link s) ! j) \<or> 2 * n = 2 * k + 1"
    using assms(3,4) by (auto simp: slot_inv_def Let_def)
  moreover have "2 * n \<noteq> 2 * k + 1" by presburger
  ultimately show "n \<le> length (ls_written s)" "holds (ls_written s ! (n - 1)) (cl_slots (ls_link s) ! j)"
    by auto
qed

lemma reader_inv_alt:
  "reader_inv s \<longleftrightarrow> (\<forall>n. reading (ls_reader s) = Some n \<longrightarrow>
     0 < unat n \<and> unat n < serial_limit \<and> n = ls_cursor s \<and>
     ((\<exists>cap now. ls_reader s = CR_Stamp cap now n) \<or>
      2 * unat n + 1 < unat (cs_stamp (cl_slots (ls_link s) ! slot_number (unat n))) \<or>
      unat (cs_stamp (cl_slots (ls_link s) ! slot_number (unat n))) = 2 * unat n \<and>
      loaded (ls_written s ! (unat n - 1)) (ls_reader s)))"
  by (auto simp: reader_inv_def Let_def split: option.splits)

text \<open>A store of the writer into its slot.\<close>

lemma writer_store_inv:
  fixes s :: link_system and f :: "camera_slot \<Rightarrow> camera_slot" and n :: u64 and pc :: writer_pc
  assumes inv: "link_inv s" and n: "unat n = length (ls_written s)" "0 < length (ls_written s)"
  defines "c \<equiv> writer_slot s" and "m \<equiv> length (ls_written s)"
    and "t \<equiv> s\<lparr>ls_link := on_link_slot n f (ls_link s), ls_writer := pc\<rparr>"
  assumes words: "\<And>c. length (cs_words (f c)) = length (cs_words c)"
    and slot: "unat (cs_stamp (f c)) = 2 * m + 1 \<and> writing pc \<or> unat (cs_stamp (f c)) = 2 * m \<and> holds (ls_written s ! (m - 1)) (f c)"
    and reader: "\<And>k. 2 * k + 1 < unat (cs_stamp c) \<or> unat (cs_stamp c) = 2 * k \<Longrightarrow> 2 * k + 1 < unat (cs_stamp (f c))"
    and others: "\<not> writing (ls_writer s) \<or> unat (cs_stamp c) = 2 * m + 1"
    and writer: "writer_inv t"
  shows "link_inv t"
proof -
  have shape: "link_shape s" using inv by (simp add: link_inv_def)
  then have len: "length (cl_slots (ls_link s)) = PLANKCameraSlots" by (simp add: link_shape_def)
  note slots = on_link_slot_slots [OF n len]
  have m: "0 < m" "slot_number m < PLANKCameraSlots" using n slot_number_less by (simp_all add: m_def)
  have c: "cl_slots (ls_link s) ! slot_number m = c" by (simp add: c_def m_def writer_slot_def)
  have "link_shape t"
    using shape words slot_of_number [of n] n slot_number_less
    by (auto simp: link_shape_def t_def on_link_slot_def dest!: set_update_subset_insert [THEN subsetD])
  moreover have "slot_inv t j" if j: "j < PLANKCameraSlots" for j
  proof (cases "j = slot_number m")
    case True
    then have "cl_slots (ls_link t) ! j = f c" using slots [OF j] c by (simp add: t_def m_def)
    then show ?thesis using slot m(1) True by (auto simp: slot_inv_def Let_def t_def m_def)
  next
    case False
    then have same: "cl_slots (ls_link t) ! j = cl_slots (ls_link s) ! j" using slots [OF j] by (simp add: t_def m_def)
    have "slot_inv s j" using inv j by (simp add: link_inv_def)
    then show ?thesis using same False by (auto simp: slot_inv_def Let_def t_def m_def)
  qed
  moreover have "reader_inv t"
    unfolding reader_inv_alt
  proof (intro allI impI)
    fix k
    assume "reading (ls_reader t) = Some k"
    then have rs: "reading (ls_reader s) = Some k" by (simp add: t_def)
    have "reader_inv s" using inv by (simp add: link_inv_def)
    then have k: "0 < unat k" "unat k < serial_limit" "k = ls_cursor s"
      "(\<exists>cap now. ls_reader s = CR_Stamp cap now k) \<or>
       2 * unat k + 1 < unat (cs_stamp (cl_slots (ls_link s) ! slot_number (unat k))) \<or>
       unat (cs_stamp (cl_slots (ls_link s) ! slot_number (unat k))) = 2 * unat k \<and>
       loaded (ls_written s ! (unat k - 1)) (ls_reader s)"
      using rs by (auto simp: reader_inv_alt)
    have slot_k: "cl_slots (ls_link t) ! slot_number (unat k) =
      (if slot_number (unat k) = slot_number m then f c else cl_slots (ls_link s) ! slot_number (unat k))"
      using slots [OF slot_number_less [of "unat k"]] c by (simp add: t_def m_def)
    have "(\<exists>cap now. ls_reader s = CR_Stamp cap now k) \<or>
       2 * unat k + 1 < unat (cs_stamp (cl_slots (ls_link t) ! slot_number (unat k))) \<or>
       unat (cs_stamp (cl_slots (ls_link t) ! slot_number (unat k))) = 2 * unat k \<and>
       loaded (ls_written s ! (unat k - 1)) (ls_reader s)"
      using k(4) reader [of "unat k"] slot_k c by (metis (no_types))
    then show "0 < unat k \<and> unat k < serial_limit \<and> k = ls_cursor t \<and>
     ((\<exists>cap now. ls_reader t = CR_Stamp cap now k) \<or>
      2 * unat k + 1 < unat (cs_stamp (cl_slots (ls_link t) ! slot_number (unat k))) \<or>
      unat (cs_stamp (cl_slots (ls_link t) ! slot_number (unat k))) = 2 * unat k \<and>
      loaded (ls_written t ! (unat k - 1)) (ls_reader t))"
      using k by (simp add: t_def)
  qed
  moreover have "delivered_inv t" using inv by (simp add: link_inv_def delivered_inv_def t_def)
  ultimately show ?thesis using writer by (simp add: link_inv_def)
qed

lemma writer_slot_stored:
  assumes "link_inv s" "unat n = length (ls_written s)" "0 < length (ls_written s)"
  shows "writer_slot (s\<lparr>ls_link := on_link_slot n f (ls_link s), ls_writer := pc\<rparr>) = f (writer_slot s)"
  using on_link_slot_slots [OF assms(2,3) _ slot_number_less, of "ls_link s" f] assms(1)
  by (simp add: writer_slot_def link_inv_def link_shape_def)

lemma writer_slot_words:
  "link_inv s \<Longrightarrow> length (cs_words (writer_slot s)) = PLANKCameraRecordWords"
  by (simp add: link_inv_def link_shape_def writer_slot_def slot_number_less)

text \<open>A store into the record while the odd stamp is set.\<close>

lemma writer_field_inv:
  assumes inv: "link_inv s" and n: "unat n = length (ls_written s)" "0 < length (ls_written s)"
    and stamp: "unat (cs_stamp (writer_slot s)) = 2 * length (ls_written s) + 1"
    and f: "\<And>c. length (cs_words (f c)) = length (cs_words c)" "\<And>c. cs_stamp (f c) = cs_stamp c"
    and pc: "writing pc" and writer: "writer_inv (s\<lparr>ls_link := on_link_slot n f (ls_link s), ls_writer := pc\<rparr>)"
  shows "link_inv (s\<lparr>ls_link := on_link_slot n f (ls_link s), ls_writer := pc\<rparr>)"
proof (rule writer_store_inv [OF inv n f(1)])
  fix k
  assume "2 * k + 1 < unat (cs_stamp (writer_slot s)) \<or> unat (cs_stamp (writer_slot s)) = 2 * k"
  moreover have "unat (cs_stamp (writer_slot s)) \<noteq> 2 * k" unfolding stamp by presburger
  ultimately show "2 * k + 1 < unat (cs_stamp (f (writer_slot s)))" by (simp add: f(2))
qed (use stamp pc f(2) writer in simp_all)

lemma slot_inv_frame_writer:
  assumes "slot_inv s j" "\<not> writing (ls_writer s) \<or> writing pc"
  shows "slot_inv (s\<lparr>ls_writer := pc\<rparr>) j"
  using assms unfolding slot_inv_def Let_def by (elim disjE exE) (simp_all, auto)

lemma reader_frame_writer [simp]:
  "reader_inv (s\<lparr>ls_writer := pc\<rparr>) = reader_inv s" "delivered_inv (s\<lparr>ls_writer := pc\<rparr>) = delivered_inv s"
  "link_shape (s\<lparr>ls_writer := pc\<rparr>) = link_shape s"
  by (simp_all add: reader_inv_alt delivered_inv_def link_shape_def)

lemma link_frame_writer:
  assumes "link_inv s" "\<not> writing (ls_writer s) \<or> writing pc" "writer_inv (s\<lparr>ls_writer := pc\<rparr>)"
  shows "link_inv (s\<lparr>ls_writer := pc\<rparr>)"
  using assms slot_inv_frame_writer by (simp add: link_inv_def)

lemma written_bounds:
  assumes "link_inv s" "r \<in> set (ls_written s)"
  shows "PLANK_CAMERA_HEADER_BYTES < length (cr_bytes r)" "length (cr_bytes r) \<le> PLANKCameraRecordBytes"
  using assms by (simp_all add: link_inv_def link_shape_def)

lemma writer_step_inv:
  assumes inv: "link_inv s"
  shows "link_inv (writer_step s)"
proof -
  let ?m = "length (ls_written s)" and ?c = "writer_slot s"
  have w: "writer_inv s" using inv by (simp add: link_inv_def)
  have lim: "?m < serial_limit - 1" using inv by (simp add: link_inv_def link_shape_def)
  show ?thesis
  proof (cases "ls_writer s")
    case (CW_Stamp r n)
    then have n: "unat n = ?m" "0 < ?m" "r = ls_written s ! (?m - 1)" "unat (cs_stamp ?c) < 2 * ?m"
      using w unfolding writer_inv_def CW_Stamp writer_pc.case Let_def by blast+
    have odd: "unat (odd_stamp n) = 2 * ?m + 1" using stamp_values(2) [of n] n(1) lim by simp
    have "link_inv (s\<lparr>ls_link := on_link_slot n (\<lambda>c. c\<lparr>cs_stamp := odd_stamp n\<rparr>) (ls_link s), ls_writer := CW_Size r n\<rparr>)"
    proof (rule writer_store_inv [OF inv n(1,2)])
      show "writer_inv (s\<lparr>ls_link := on_link_slot n (\<lambda>c. c\<lparr>cs_stamp := odd_stamp n\<rparr>) (ls_link s), ls_writer := CW_Size r n\<rparr>)"
        using n odd by (simp add: writer_inv_def Let_def writer_slot_stored [OF inv n(1,2)])
    qed (use n odd CW_Stamp in \<open>auto simp: writing_def\<close>)
    then show ?thesis by (simp add: writer_step_def CW_Stamp)
  next
    case (CW_Size r n)
    then have n: "unat n = ?m" "0 < ?m" "r = ls_written s ! (?m - 1)" "unat (cs_stamp ?c) = 2 * ?m + 1"
      using w unfolding writer_inv_def CW_Size writer_pc.case Let_def by blast+
    show ?thesis unfolding writer_step_def CW_Size writer_pc.case
      by (rule writer_field_inv [OF inv n(1,2,4)])
        (use n in \<open>simp_all add: writing_def writer_inv_def Let_def writer_slot_stored [OF inv n(1,2)]\<close>)
  next
    case (CW_Host r n)
    then have n: "unat n = ?m" "0 < ?m" "r = ls_written s ! (?m - 1)" "unat (cs_stamp ?c) = 2 * ?m + 1"
      "cs_size ?c = of_nat (length (cr_bytes r))"
      using w unfolding writer_inv_def CW_Host writer_pc.case Let_def by blast+
    show ?thesis unfolding writer_step_def CW_Host writer_pc.case
      by (rule writer_field_inv [OF inv n(1,2,4)])
        (use n in \<open>simp_all add: writing_def writer_inv_def Let_def writer_slot_stored [OF inv n(1,2)]\<close>)
  next
    case (CW_Arrived r n)
    then have n: "unat n = ?m" "0 < ?m" "r = ls_written s ! (?m - 1)" "unat (cs_stamp ?c) = 2 * ?m + 1"
      "cs_size ?c = of_nat (length (cr_bytes r))" "cs_host_time ?c = cr_host_time r"
      using w unfolding writer_inv_def CW_Arrived writer_pc.case Let_def by blast+
    show ?thesis unfolding writer_step_def CW_Arrived writer_pc.case
      by (rule writer_field_inv [OF inv n(1,2,4)])
        (use n in \<open>simp_all add: writing_def writer_inv_def Let_def writer_slot_stored [OF inv n(1,2)]
            holds_fields_def holds_words_def\<close>)
  next
    case (CW_Word r n k)
    then have n: "unat n = ?m" "0 < ?m" "r = ls_written s ! (?m - 1)" "unat (cs_stamp ?c) = 2 * ?m + 1"
      "holds_fields r ?c" "holds_words r k ?c" "k \<le> record_words (length (cr_bytes r))"
      using w unfolding writer_inv_def CW_Word writer_pc.case Let_def by blast+
    show ?thesis
    proof (cases "8 * k < length (cr_bytes r)")
      case True
      have "length (cr_bytes r) \<le> PLANKCameraRecordBytes" using written_bounds [OF inv, of r] n(2,3) by simp
      then have "k < PLANKCameraRecordWords" using True by (simp add: less_eq_Suc_le)
      then have words: "k < length (cs_words ?c)" using writer_slot_words [OF inv] by simp
      have "holds_words r (Suc k) (?c\<lparr>cs_words := (cs_words ?c)[k := record_word (cr_bytes r) k]\<rparr>)"
        using n(6) words by (auto simp: holds_words_def nth_list_update less_Suc_eq)
      moreover have "Suc k \<le> record_words (length (cr_bytes r))" using True by (simp add: record_words_less Suc_le_eq)
      ultimately have "writer_inv (s\<lparr>ls_link := on_link_slot n (\<lambda>c. c\<lparr>cs_words := (cs_words c)[k := record_word (cr_bytes r) k]\<rparr>) (ls_link s),
          ls_writer := CW_Word r n (k + 1)\<rparr>)"
        using n by (simp add: writer_inv_def Let_def writer_slot_stored [OF inv n(1,2)] holds_fields_def)
      then have "link_inv (s\<lparr>ls_link := on_link_slot n (\<lambda>c. c\<lparr>cs_words := (cs_words c)[k := record_word (cr_bytes r) k]\<rparr>) (ls_link s),
          ls_writer := CW_Word r n (k + 1)\<rparr>)"
        by (intro writer_field_inv [OF inv n(1,2,4)]) (simp_all add: writing_def)
      then show ?thesis using True by (simp add: writer_step_def CW_Word)
    next
      case False
      then have "k = record_words (length (cr_bytes r))" using n(7) record_words_less [of k] by (simp add: order_le_less)
      then have "link_inv (s\<lparr>ls_writer := CW_Even r n\<rparr>)"
        using n by (intro link_frame_writer [OF inv])
          (simp_all add: writing_def writer_inv_def Let_def holds_def writer_slot_def)
      then show ?thesis using False by (simp add: writer_step_def CW_Word)
    qed
  next
    case (CW_Even r n)
    then have n: "unat n = ?m" "0 < ?m" "r = ls_written s ! (?m - 1)" "unat (cs_stamp ?c) = 2 * ?m + 1" "holds r ?c"
      using w unfolding writer_inv_def CW_Even writer_pc.case Let_def by blast+
    have even: "unat (even_stamp n) = 2 * ?m" using stamp_values(1) [of n] n(1) lim by simp
    have "link_inv (s\<lparr>ls_link := on_link_slot n (\<lambda>c. c\<lparr>cs_stamp := even_stamp n\<rparr>) (ls_link s), ls_writer := CW_Publish n\<rparr>)"
    proof (rule writer_store_inv [OF inv n(1,2)])
      fix k
      assume "2 * k + 1 < unat (cs_stamp ?c) \<or> unat (cs_stamp ?c) = 2 * k"
      moreover have "unat (cs_stamp ?c) \<noteq> 2 * k" unfolding n(4) by presburger
      ultimately show "2 * k + 1 < unat (cs_stamp (?c\<lparr>cs_stamp := even_stamp n\<rparr>))" using even n(4) by simp
    qed (use n even in \<open>simp_all add: writing_def writer_inv_def Let_def holds_def holds_fields_def holds_words_def\<close>)
    then show ?thesis by (simp add: writer_step_def CW_Even)
  next
    case (CW_Publish n)
    have "link_inv (s\<lparr>ls_writer := CW_Idle\<rparr>)"
      by (rule link_frame_writer [OF inv]) (simp_all add: CW_Publish writing_def writer_inv_def)
    then show ?thesis
      by (simp add: writer_step_def CW_Publish link_inv_def link_shape_def slot_inv_def writer_inv_def reader_inv_alt delivered_inv_def)
  qed (simp add: writer_step_def inv)
qed

lemma write_call_inv:
  assumes inv: "link_inv s" and idle: "ls_writer s = CW_Idle" and ok: "camera_write_ok (ls_serial s) r"
  shows "link_inv (write_call r s)"
proof -
  let ?t = "write_call r s" and ?m = "length (ls_written s)"
  have shape: "link_shape s" using inv by (simp add: link_inv_def)
  have serial: "unat (ls_serial s) = ?m" using shape by (simp add: link_shape_def)
  have "ls_serial s < 0x7ffffffffffffffe" using ok by (simp add: camera_write_ok_def not_le)
  then have lim: "?m < serial_limit - 2" using serial by (simp add: word_less_nat_alt)
  then have succ: "unat (ls_serial s + 1) = ?m + 1" using serial by (simp add: unat_word_ariths)
  have frame: "ls_link ?t = ls_link s" "ls_reader ?t = ls_reader s" "ls_cursor ?t = ls_cursor s"
    "ls_delivered ?t = ls_delivered s" "ls_written ?t = ls_written s @ [r]" "ls_writer ?t = CW_Stamp r (ls_serial s + 1)"
    by (simp_all add: write_call_def)
  have "link_shape ?t"
    using shape succ lim ok by (auto simp: link_shape_def write_call_def camera_write_ok_def)
  moreover have slots: "slot_inv ?t j \<and> unat (cs_stamp (cl_slots (ls_link s) ! j)) < 2 * (?m + 1)"
    if "j < PLANKCameraSlots" for j
  proof -
    have "slot_inv s j" using inv that by (simp add: link_inv_def)
    then show ?thesis using idle
      by (auto simp: slot_inv_def Let_def frame writing_def nth_append)
  qed
  moreover have "writer_inv ?t"
    using succ slots [OF slot_number_less] by (simp add: writer_inv_def frame writer_slot_def Let_def nth_append)
  moreover have "reader_inv ?t"
    unfolding reader_inv_alt frame
  proof (intro allI impI)
    fix k
    assume "reading (ls_reader s) = Some k"
    then have k: "0 < unat k" "unat k < serial_limit" "k = ls_cursor s"
      "(\<exists>cap now. ls_reader s = CR_Stamp cap now k) \<or>
       2 * unat k + 1 < unat (cs_stamp (cl_slots (ls_link s) ! slot_number (unat k))) \<or>
       unat (cs_stamp (cl_slots (ls_link s) ! slot_number (unat k))) = 2 * unat k \<and>
       loaded (ls_written s ! (unat k - 1)) (ls_reader s)"
      using inv by (auto simp: link_inv_def reader_inv_alt)
    have "(ls_written s @ [r]) ! (unat k - 1) = ls_written s ! (unat k - 1)"
      if "unat (cs_stamp (cl_slots (ls_link s) ! slot_number (unat k))) = 2 * unat k"
      using slot_inv_stamp(1) [OF inv slot_number_less that k(1)] k(1) by (simp add: nth_append)
    then show "0 < unat k \<and> unat k < serial_limit \<and> k = ls_cursor s \<and>
       ((\<exists>cap now. ls_reader s = CR_Stamp cap now k) \<or>
        2 * unat k + 1 < unat (cs_stamp (cl_slots (ls_link s) ! slot_number (unat k))) \<or>
        unat (cs_stamp (cl_slots (ls_link s) ! slot_number (unat k))) = 2 * unat k \<and>
        loaded ((ls_written s @ [r]) ! (unat k - 1)) (ls_reader s))"
      using k by metis
  qed
  moreover have "delivered_inv ?t"
    using inv by (fastforce simp: link_inv_def delivered_inv_def frame nth_append)
  ultimately show ?thesis by (simp add: link_inv_def)
qed

section \<open>Steps of the reader\<close>

lemma read_call_inv:
  assumes inv: "link_inv s" and idle: "ls_reader s = CR_Idle"
  shows "link_inv (read_call cap now s)"
proof -
  let ?p = "cl_published (ls_link s)" and ?c = "ls_cursor s"
  have same: "slot_inv (s\<lparr>ls_cursor := c, ls_reader := pc\<rparr>) j = slot_inv s j"
    "writer_inv (s\<lparr>ls_cursor := c, ls_reader := pc\<rparr>) = writer_inv s"
    "link_shape (s\<lparr>ls_cursor := c, ls_reader := pc\<rparr>) = link_shape s" for c pc j
    by (simp_all add: slot_inv_def writer_inv_def link_shape_def writer_slot_def)
  have reader: "link_inv (s\<lparr>ls_cursor := c, ls_reader := pc\<rparr>)"
    if "?c \<le> c" "reading pc = None \<or> pc = CR_Stamp cap now c \<and> ?c < c \<and> unat c < serial_limit" for c pc
    using that inv idle
    by (auto simp: link_inv_def same reader_inv_alt delivered_inv_def reading_def word_le_nat_alt word_less_nat_alt)
  have idle_cursor: "s\<lparr>ls_cursor := c, ls_reader := CR_Idle\<rparr> = s\<lparr>ls_cursor := c\<rparr>" for c using idle by simp
  consider "?p = ?c \<or> ?p < ?c \<or> UINT64_MAX div 2 \<le> ?p"
    | "?c < ?p" "?p < UINT64_MAX div 2" "of_nat PLANKCameraSlots < ?p - ?c"
    | "?c < ?p" "?p < UINT64_MAX div 2" "\<not> of_nat PLANKCameraSlots < ?p - ?c"
    by (metis linorder_neqE not_le)
  then show ?thesis
  proof cases
    case 1
    then show ?thesis using inv by (auto simp: read_call_def camera_read_begin_def)
  next
    case 2
    have "unat ?c < unat ?p" using 2(1) by (simp add: word_less_nat_alt)
    then have "?c \<le> ?p - 1" by (subst word_le_nat_alt, subst unat_minus_one) auto
    then have "link_inv (s\<lparr>ls_cursor := ?p - 1, ls_reader := CR_Idle\<rparr>)"
      by (rule reader) (simp add: reading_def)
    then show ?thesis using 2 inv by (simp add: idle_cursor read_call_def camera_read_begin_def not_le)
  next
    case 3
    have "unat ?c < unat ?p" "unat ?p < 2 ^ 63 - 1" using 3(1,2) by (simp_all add: word_less_nat_alt)
    then have c: "unat (?c + 1) = unat ?c + 1" by (simp add: unat_word_ariths)
    then have "?c \<le> ?c + 1" "?c < ?c + 1" "unat (?c + 1) < serial_limit"
      using \<open>unat ?c < unat ?p\<close> \<open>unat ?p < 2 ^ 63 - 1\<close> by (simp_all add: word_le_nat_alt word_less_nat_alt)
    then have "link_inv (s\<lparr>ls_cursor := ?c + 1, ls_reader := CR_Stamp cap now (?c + 1)\<rparr>)"
      by (intro reader) simp_all
    then show ?thesis using 3 inv by (auto simp: read_call_def camera_read_begin_def)
  qed
qed

lemma reader_frame:
  "slot_inv (s\<lparr>ls_reader := pc\<rparr>) j = slot_inv s j" "writer_inv (s\<lparr>ls_reader := pc\<rparr>) = writer_inv s"
  "link_shape (s\<lparr>ls_reader := pc\<rparr>) = link_shape s"
  by (simp_all add: slot_inv_def writer_inv_def link_shape_def writer_slot_def)

text \<open>The reader moves on inside its record: it loads what the slot holds as long as the stamp stands.\<close>

lemma reader_move_inv:
  assumes inv: "link_inv s" and n: "reading (ls_reader s) = Some n" "reading pc = Some n"
    and start: "(\<exists>cap now. ls_reader s = CR_Stamp cap now n) \<Longrightarrow>
      unat (cs_stamp (cl_slots (ls_link s) ! slot_number (unat n))) = 2 * unat n"
    and step: "\<And>r. holds r (cl_slots (ls_link s) ! slot_number (unat n)) \<Longrightarrow> r \<in> set (ls_written s) \<Longrightarrow>
      loaded r (ls_reader s) \<Longrightarrow> loaded r pc"
  shows "link_inv (s\<lparr>ls_reader := pc\<rparr>)"
proof -
  let ?t = "unat (cs_stamp (cl_slots (ls_link s) ! slot_number (unat n)))"
  have k: "0 < unat n" "unat n < serial_limit" "n = ls_cursor s"
    "(\<exists>cap now. ls_reader s = CR_Stamp cap now n) \<or> 2 * unat n + 1 < ?t \<or>
     ?t = 2 * unat n \<and> loaded (ls_written s ! (unat n - 1)) (ls_reader s)"
    using inv n(1) by (auto simp: link_inv_def reader_inv_alt)
  have "loaded (ls_written s ! (unat n - 1)) pc" if t: "?t = 2 * unat n"
  proof -
    have le: "unat n \<le> length (ls_written s)"
      and holds: "holds (ls_written s ! (unat n - 1)) (cl_slots (ls_link s) ! slot_number (unat n))"
      using slot_inv_stamp [OF inv slot_number_less t k(1)] by blast+
    have "loaded (ls_written s ! (unat n - 1)) (ls_reader s)"
      using k(4) t by (auto simp: loaded_def)
    then show ?thesis using step [OF holds] le k(1) by simp
  qed
  then have "2 * unat n + 1 < ?t \<or> ?t = 2 * unat n \<and> loaded (ls_written s ! (unat n - 1)) pc"
    using k(4) start by blast
  then have "reader_inv (s\<lparr>ls_reader := pc\<rparr>)" using k(1,2,3) n(2) by (auto simp: reader_inv_alt)
  moreover have "delivered_inv (s\<lparr>ls_reader := pc\<rparr>)" using inv n by (simp add: link_inv_def delivered_inv_def)
  ultimately show ?thesis using inv by (simp add: link_inv_def reader_frame)
qed

lemma reader_stop_inv:
  assumes "link_inv s" shows "link_inv (s\<lparr>ls_reader := CR_Idle\<rparr>)"
  using assms by (auto simp: link_inv_def reader_frame reader_inv_alt delivered_inv_def reading_def)

lemma reading_simps [simp]:
  "reading CR_Idle = None" "reading (CR_Stamp cap now n) = Some n" "reading (CR_Size cap now n) = Some n"
  "reading (CR_Host cap now n count) = Some n" "reading (CR_Arrived cap now n count time) = Some n"
  "reading (CR_Word n count time arrived k buf) = Some n" "reading (CR_Last n time arrived buf) = Some n"
  by (simp_all add: reading_def)

lemma loaded_simps [simp]:
  "loaded r (CR_Size cap now n)"
  "loaded r (CR_Host cap now n count) \<longleftrightarrow> count = of_nat (length (cr_bytes r))"
  "loaded r (CR_Arrived cap now n count time) \<longleftrightarrow> count = of_nat (length (cr_bytes r)) \<and> time = cr_host_time r"
  "loaded r (CR_Word n count time arrived k buf) \<longleftrightarrow>
     count = of_nat (length (cr_bytes r)) \<and> time = cr_host_time r \<and> arrived = cr_arrived r \<and>
     k \<le> record_words (length (cr_bytes r)) \<and> buf = take (8 * k) (cr_bytes r)"
  "loaded r (CR_Last n time arrived buf) \<longleftrightarrow> time = cr_host_time r \<and> arrived = cr_arrived r \<and> buf = cr_bytes r"
  by (simp_all add: loaded_def)

lemma unat_record_length: "length p \<le> PLANKCameraRecordBytes \<Longrightarrow> unat (of_nat (length p) :: u64) = length p"
  by (simp add: unat_of_nat)

lemma record_word_step:
  assumes "8 * k < length r"
  shows "take (8 * k) r @ word_part (length r) k (record_word r k) = take (8 * (k + 1)) r"
  using word_part_record_word [OF assms] by (simp add: take_add [symmetric] add.commute)

lemma deliver_inv:
  assumes inv: "link_inv s" and pc: "ls_reader s = CR_Last n time arrived buf"
    and stamp: "unat (cs_stamp (cl_slots (ls_link s) ! slot_number (unat n))) = 2 * unat n"
  shows "link_inv (s\<lparr>ls_reader := CR_Idle, ls_delivered := ls_delivered s @
    [(unat n, \<lparr>cr_bytes = buf, cr_host_time = time, cr_arrived = arrived\<rparr>)]\<rparr>)" (is "link_inv ?t")
proof -
  have n: "0 < unat n" "n = ls_cursor s" "loaded (ls_written s ! (unat n - 1)) (ls_reader s)"
    using inv pc stamp by (auto simp: link_inv_def reader_inv_alt)
  have le: "unat n \<le> length (ls_written s)" using slot_inv_stamp(1) [OF inv slot_number_less stamp n(1)] .
  have rec_eq: "\<lparr>cr_bytes = buf, cr_host_time = time, cr_arrived = arrived\<rparr> = ls_written s ! (unat n - 1)"
    using n(3) pc by simp
  have d: "delivered_inv s" using inv by (simp add: link_inv_def)
  then have "\<forall>x \<in> set (ls_delivered s). fst x < unat n"
    using pc n(2) by (auto simp: delivered_inv_def)
  then have "delivered_inv ?t"
    using d n(1,2) le rec_eq by (auto simp: delivered_inv_def sorted_wrt_append)
  moreover have "slot_inv ?t j = slot_inv s j" "writer_inv ?t = writer_inv s" "link_shape ?t = link_shape s" for j
    by (simp_all add: slot_inv_def writer_inv_def link_shape_def writer_slot_def)
  ultimately show ?thesis using inv by (simp add: link_inv_def reader_inv_alt)
qed

lemma reader_step_inv:
  assumes inv: "link_inv s"
  shows "link_inv (reader_step s)"
proof (cases "reading (ls_reader s)")
  case None
  then have "ls_reader s = CR_Idle" by (cases "ls_reader s") simp_all
  then show ?thesis using inv by (simp add: reader_step_def)
next
  case (Some n)
  then have k: "0 < unat n" "unat n < serial_limit" using inv by (auto simp: link_inv_def reader_inv_alt)
  note slot = slot_of_number [OF k(1)]
  have even: "cs_stamp c = even_stamp n \<longleftrightarrow> unat (cs_stamp c) = 2 * unat n" for c
    using stamp_values(1) [OF k(2)] by (simp add: word_unat_eq_iff)
  show ?thesis
  proof (cases "ls_reader s")
    case (CR_Stamp cap now n')
    then have "link_inv (s\<lparr>ls_reader := CR_Size cap now n\<rparr>)"
      if "cs_stamp (cl_slots (ls_link s) ! slot_number (unat n)) = even_stamp n"
      using that stamp_values(1) [OF k(2)] Some by (intro reader_move_inv [OF inv Some]) simp_all
    then show ?thesis using CR_Stamp Some reader_stop_inv [OF inv] by (simp add: reader_step_def slot)
  next
    case (CR_Size cap now n')
    then show ?thesis using Some
      by (simp add: reader_step_def slot) (rule reader_move_inv [OF inv Some], simp_all add: holds_def holds_fields_def)
  next
    case (CR_Host cap now n' count)
    then show ?thesis using Some
      by (simp add: reader_step_def slot) (rule reader_move_inv [OF inv Some], simp_all add: holds_def holds_fields_def)
  next
    case (CR_Arrived cap now n' count time)
    have "link_inv (s\<lparr>ls_reader := CR_Word n count time (cs_arrived (cl_slots (ls_link s) ! slot_number (unat n))) 0 []\<rparr>)"
      using CR_Arrived Some by (intro reader_move_inv [OF inv Some]) (simp_all add: holds_def holds_fields_def)
    then show ?thesis using CR_Arrived Some reader_stop_inv [OF inv] by (simp add: reader_step_def slot Let_def)
  next
    case (CR_Word n' count time arrived k buf)
    show ?thesis
    proof (cases "8 * k < unat count")
      case True
      have "link_inv (s\<lparr>ls_reader := CR_Word n count time arrived (k + 1)
          (buf @ word_part (unat count) k (cs_words (cl_slots (ls_link s) ! slot_number (unat n)) ! k))\<rparr>)"
      proof (rule reader_move_inv [OF inv Some])
        fix r
        assume r: "holds r (cl_slots (ls_link s) ! slot_number (unat n))" "r \<in> set (ls_written s)" "loaded r (ls_reader s)"
        have len: "unat count = length (cr_bytes r)"
          using r(3) CR_Word unat_record_length written_bounds(2) [OF inv r(2)] by simp
        then have "k < record_words (length (cr_bytes r))" using True by (simp add: record_words_less)
        then show "loaded r (CR_Word n count time arrived (k + 1)
          (buf @ word_part (unat count) k (cs_words (cl_slots (ls_link s) ! slot_number (unat n)) ! k)))"
          using r CR_Word len True record_word_step [of k "cr_bytes r"] by (simp add: holds_def holds_words_def)
      qed (use CR_Word in simp_all)
      then show ?thesis using CR_Word Some True by (simp add: reader_step_def slot)
    next
      case False
      have "link_inv (s\<lparr>ls_reader := CR_Last n time arrived buf\<rparr>)"
      proof (rule reader_move_inv [OF inv Some])
        fix r
        assume r: "r \<in> set (ls_written s)" "loaded r (ls_reader s)"
        moreover have "unat count = length (cr_bytes r)"
          using r(2) CR_Word unat_record_length written_bounds(2) [OF inv r(1)] by simp
        ultimately show "loaded r (CR_Last n time arrived buf)" using CR_Word False by simp
      qed (use CR_Word in simp_all)
      then show ?thesis using CR_Word Some False by (simp add: reader_step_def slot)
    qed
  next
    case (CR_Last n' time arrived buf)
    then have n': "n' = n" using Some by simp
    show ?thesis
    proof (cases "cs_stamp (cl_slots (ls_link s) ! slot_number (unat n)) = even_stamp n")
      case True
      then have "unat (cs_stamp (cl_slots (ls_link s) ! slot_number (unat n))) = 2 * unat n" by (rule even [THEN iffD1])
      then show ?thesis using CR_Last n' True deliver_inv [OF inv, of n time arrived buf]
        by (simp add: reader_step_def slot)
    qed (use CR_Last n' reader_stop_inv [OF inv] in \<open>simp add: reader_step_def slot\<close>)
  qed (use Some in simp)
qed

lemma link_step_inv: "link_inv s \<Longrightarrow> link_step s t \<Longrightarrow> link_inv t"
  by (elim link_stepE) (simp_all add: write_call_inv writer_step_inv read_call_inv reader_step_inv)

interpretation link_threads: invariant_system link_start link_step link_inv
  by unfold_locales (use link_start_inv link_step_inv in blast)+

section \<open>Undisturbed runs\<close>

text \<open>How far the writer and the reader are from their return.\<close>

fun writer_rank :: "writer_pc \<Rightarrow> nat" where
  "writer_rank CW_Idle = 0"
| "writer_rank (CW_Publish n) = 1"
| "writer_rank (CW_Even r n) = 2"
| "writer_rank (CW_Word r n k) = 3 + (length (cr_bytes r) - 8 * k)"
| "writer_rank (CW_Arrived r n) = 4 + length (cr_bytes r)"
| "writer_rank (CW_Host r n) = 5 + length (cr_bytes r)"
| "writer_rank (CW_Size r n) = 6 + length (cr_bytes r)"
| "writer_rank (CW_Stamp r n) = 7 + length (cr_bytes r)"

fun writer_serial :: "writer_pc \<Rightarrow> u64 option" where
  "writer_serial CW_Idle = None"
| "writer_serial (CW_Publish n) = Some n"
| "writer_serial (CW_Even r n) = Some n"
| "writer_serial (CW_Word r n k) = Some n"
| "writer_serial (CW_Arrived r n) = Some n"
| "writer_serial (CW_Host r n) = Some n"
| "writer_serial (CW_Size r n) = Some n"
| "writer_serial (CW_Stamp r n) = Some n"

definition same_reader :: "link_system \<Rightarrow> link_system \<Rightarrow> bool" where
  "same_reader s t \<longleftrightarrow> ls_reader t = ls_reader s \<and> ls_cursor t = ls_cursor s \<and> ls_serial t = ls_serial s \<and>
     ls_written t = ls_written s \<and> ls_delivered t = ls_delivered s"

lemma writer_step_frame: "same_reader s (writer_step s)"
  by (cases "ls_writer s") (simp_all add: writer_step_def same_reader_def)

lemma writer_step_rank:
  assumes "ls_writer s \<noteq> CW_Idle"
  shows "writer_rank (ls_writer (writer_step s)) < writer_rank (ls_writer s)"
  using assms by (cases "ls_writer s") (auto simp: writer_step_def)

definition stamped :: "u64 \<Rightarrow> link_system \<Rightarrow> bool" where
  "stamped n s \<longleftrightarrow> cs_stamp (cl_slots (ls_link s) ! slot_of n) = even_stamp n"

lemma writer_step_serial:
  assumes "writer_serial (ls_writer s) = Some n" "ls_writer s = CW_Publish n \<longrightarrow> stamped n s"
    and "length (cl_slots (ls_link s)) = PLANKCameraSlots"
  shows "(writer_serial (ls_writer (writer_step s)) = Some n \<and>
      (ls_writer (writer_step s) = CW_Publish n \<longrightarrow> stamped n (writer_step s))) \<or>
    ls_writer (writer_step s) = CW_Idle \<and> cl_published (ls_link (writer_step s)) = n \<and> stamped n (writer_step s)"
proof -
  have "slot_of n < PLANKCameraSlots" by (simp add: slot_of_def)
  then show ?thesis using assms
    by (cases "ls_writer s") (auto simp: writer_step_def stamped_def on_link_slot_def)
qed

lemma writer_finishes:
  assumes "writer_serial (ls_writer s) = Some n" "ls_writer s = CW_Publish n \<longrightarrow> stamped n s" "link_inv s"
  shows "\<exists>t. link_step\<^sup>*\<^sup>* s t \<and> ls_writer t = CW_Idle \<and> cl_published (ls_link t) = n \<and> same_reader s t \<and>
    stamped n t \<and> link_inv t"
  using assms
proof (induction "writer_rank (ls_writer s)" arbitrary: s rule: less_induct)
  case less
  let ?s = "writer_step s"
  have active: "ls_writer s \<noteq> CW_Idle" using less.prems by auto
  have step: "link_step s ?s" by (rule link_step.step_write [OF active])
  have len: "length (cl_slots (ls_link s)) = PLANKCameraSlots"
    using less.prems(3) by (simp add: link_inv_def link_shape_def)
  have inv: "link_inv ?s" by (rule writer_step_inv [OF less.prems(3)])
  show ?case
  proof (cases "ls_writer ?s = CW_Idle")
    case False
    then have "writer_serial (ls_writer ?s) = Some n" "ls_writer ?s = CW_Publish n \<longrightarrow> stamped n ?s"
      using writer_step_serial [OF less.prems(1,2) len] by blast+
    then obtain t where t: "link_step\<^sup>*\<^sup>* ?s t" "ls_writer t = CW_Idle" "cl_published (ls_link t) = n" "same_reader ?s t"
      "stamped n t" "link_inv t"
      using less.hyps [OF writer_step_rank [OF active] _ _ inv] by blast
    have "link_step\<^sup>*\<^sup>* s t" using step t(1) by (rule converse_rtranclp_into_rtranclp)
    moreover have "same_reader s t" using t(4) writer_step_frame [of s] by (simp add: same_reader_def)
    ultimately show ?thesis using t by blast
  next
    case True
    then have "cl_published (ls_link ?s) = n \<and> stamped n ?s"
      using writer_step_serial [OF less.prems(1,2) len] by auto
    then show ?thesis using step writer_step_frame True inv by blast
  qed
qed

fun reader_rank :: "reader_pc \<Rightarrow> nat" where
  "reader_rank CR_Idle = 0"
| "reader_rank (CR_Last n time arrived buf) = 1"
| "reader_rank (CR_Word n count time arrived k buf) = 2 + (unat count - 8 * k)"
| "reader_rank (CR_Arrived cap now n count time) = 3 + unat count"
| "reader_rank (CR_Host cap now n count) = 4 + unat count"
| "reader_rank (CR_Size cap now n) = 5 + 2 ^ 64"
| "reader_rank (CR_Stamp cap now n) = 6 + 2 ^ 64"

lemma reader_step_rank:
  assumes "ls_reader s \<noteq> CR_Idle"
  shows "reader_rank (ls_reader (reader_step s)) < reader_rank (ls_reader s)"
proof -
  have "unat c < 2 ^ 64 + 1" for c :: u64 using unsigned_less [of c, where 'a = nat] by simp
  then show ?thesis using assms by (cases "ls_reader s") (auto simp: reader_step_def Let_def)
qed

text \<open>The calls a reader is in, when the fields of record \<^verbatim>\<open>r\<close> pass its checks.\<close>

definition fresh_read :: "camera_record \<Rightarrow> reader_pc \<Rightarrow> bool" where
  "fresh_read r pc \<longleftrightarrow>
     (\<forall>cap now n c t. pc \<in> {CR_Stamp cap now n, CR_Size cap now n, CR_Host cap now n c, CR_Arrived cap now n c t} \<longrightarrow>
       \<not> camera_fields_bad cap now (of_nat (length (cr_bytes r))) (cr_host_time r) (cr_arrived r))"

lemma reader_step_stamped:
  assumes inv: "link_inv s" and n: "reading (ls_reader s) = Some n"
    and stamp: "unat (cs_stamp (cl_slots (ls_link s) ! slot_number (unat n))) = 2 * unat n"
    and r: "r = ls_written s ! (unat n - 1)" and fresh: "fresh_read r (ls_reader s)"
  shows "ls_link (reader_step s) = ls_link s \<and> ls_written (reader_step s) = ls_written s \<and>
    (reading (ls_reader (reader_step s)) = Some n \<and> ls_delivered (reader_step s) = ls_delivered s \<and>
       fresh_read r (ls_reader (reader_step s)) \<or>
     ls_reader (reader_step s) = CR_Idle \<and> ls_delivered (reader_step s) = ls_delivered s @ [(unat n, r)])"
proof -
  have k: "0 < unat n" "unat n < serial_limit" "loaded r (ls_reader s)"
    using inv n stamp r by (auto simp: link_inv_def reader_inv_alt loaded_def)
  have holds: "holds r (cl_slots (ls_link s) ! slot_number (unat n))"
    using slot_inv_stamp(2) [OF inv slot_number_less stamp k(1)] r by simp
  have even: "cs_stamp (cl_slots (ls_link s) ! slot_number (unat n)) = even_stamp n"
    using stamp_values(1) [OF k(2)] stamp by (simp add: word_unat_eq_iff)
  show ?thesis
    using n k(3) fresh holds even
    by (cases "ls_reader s")
      (auto simp: reader_step_def slot_of_number [OF k(1)] Let_def fresh_read_def holds_def holds_fields_def)
qed

lemma reader_finishes:
  assumes "link_inv s" "reading (ls_reader s) = Some n"
    and "unat (cs_stamp (cl_slots (ls_link s) ! slot_number (unat n))) = 2 * unat n"
    and "r = ls_written s ! (unat n - 1)" "fresh_read r (ls_reader s)"
  shows "\<exists>t. link_step\<^sup>*\<^sup>* s t \<and> ls_delivered t = ls_delivered s @ [(unat n, r)]"
  using assms
proof (induction "reader_rank (ls_reader s)" arbitrary: s rule: less_induct)
  case less
  have active: "ls_reader s \<noteq> CR_Idle" using less.prems(2) by auto
  have step: "link_step s (reader_step s)" by (rule link_step.step_read [OF active])
  note r = reader_step_stamped [OF less.prems]
  show ?case
  proof (cases "ls_reader (reader_step s) = CR_Idle \<and> ls_delivered (reader_step s) = ls_delivered s @ [(unat n, r)]")
    case False
    then have "reading (ls_reader (reader_step s)) = Some n" "ls_delivered (reader_step s) = ls_delivered s"
      "fresh_read r (ls_reader (reader_step s))" "ls_link (reader_step s) = ls_link s"
      "ls_written (reader_step s) = ls_written s"
      using r by blast+
    then obtain t where "link_step\<^sup>*\<^sup>* (reader_step s) t" "ls_delivered t = ls_delivered s @ [(unat n, r)]"
      using less.hyps [OF reader_step_rank [OF active] reader_step_inv [OF less.prems(1)]] less.prems(3,4) by auto
    then show ?thesis using step by (meson converse_rtranclp_into_rtranclp)
  qed (use step in blast)
qed

section \<open>What the mapping guarantees\<close>

text \<open>C6: The camera mapping never delivers a torn record: under every interleaving of the producer's and
  the reader's atomic accesses, each read that returns 1 hands out exactly one record that was written,
  all its bytes and both its times, and the records come out in the order they were written, none of
  them twice.\<close>

theorem camera_link_no_torn_read:
  assumes "link_step\<^sup>*\<^sup>* link_start s"
  shows "sorted_wrt (<) (map fst (ls_delivered s)) \<and>
    (\<forall>(n, r) \<in> set (ls_delivered s). 0 < n \<and> n \<le> length (ls_written s) \<and> r = ls_written s ! (n - 1))"
  using link_threads.reachable_inv [OF assms] by (auto simp: link_inv_def delivered_inv_def)

lemma link_delivery:
  assumes "link_step\<^sup>*\<^sup>* link_start s" "ls_writer s = CW_Idle" "ls_reader s = CR_Idle" "ls_cursor s = ls_serial s"
    and "camera_write_ok (ls_serial s) r"
    and "\<not> camera_fields_bad cap now (of_nat (length (cr_bytes r))) (cr_host_time r) (cr_arrived r)"
  shows "\<exists>t. link_step\<^sup>*\<^sup>* s t \<and> ls_delivered t = ls_delivered s @ [(unat (ls_serial s) + 1, r)]"
proof -
  let ?w = "write_call r s" and ?n = "ls_serial s + 1"
  have inv: "link_inv s" by (rule link_threads.reachable_inv [OF assms(1)])
  have "link_step s ?w" by (rule link_step.call_write [OF assms(2,5)])
  moreover have "link_inv ?w" by (rule write_call_inv [OF inv assms(2,5)])
  then obtain u where u: "link_step\<^sup>*\<^sup>* ?w u" "cl_published (ls_link u) = ?n" "same_reader ?w u" "stamped ?n u" "link_inv u"
    using writer_finishes [of ?w ?n] by (auto simp: write_call_def)
  ultimately have su: "link_step\<^sup>*\<^sup>* s u" by (meson converse_rtranclp_into_rtranclp)
  have f: "ls_reader u = CR_Idle" "ls_cursor u = ls_serial s" "ls_written u = ls_written s @ [r]" "ls_delivered u = ls_delivered s"
    using u(3) assms(3,4) by (simp_all add: same_reader_def write_call_def)
  have serial: "unat (ls_serial s) = length (ls_written s)" using inv by (simp add: link_inv_def link_shape_def)
  have "ls_serial s < 0x7ffffffffffffffe" using assms(5) by (simp add: camera_write_ok_def not_le)
  then have lim: "unat (ls_serial s) < 2 ^ 63 - 2" by (simp add: word_less_nat_alt)
  then have n: "unat ?n = unat (ls_serial s) + 1" by (simp add: unat_word_ariths)
  let ?v = "read_call cap now u"
  have "ls_serial s < ?n" "\<not> UINT64_MAX div 2 \<le> ?n" using n lim by (simp_all add: word_less_nat_alt word_le_nat_alt)
  then have v: "?v = u\<lparr>ls_cursor := ?n, ls_reader := CR_Stamp cap now ?n\<rparr>"
    using u(2) f(2) by (auto simp: read_call_def camera_read_begin_def)
  have "link_step u ?v" by (rule link_step.call_read [OF f(1)])
  moreover have "\<exists>t. link_step\<^sup>*\<^sup>* ?v t \<and> ls_delivered t = ls_delivered ?v @ [(unat ?n, r)]"
  proof (rule reader_finishes)
    show "link_inv ?v" by (rule read_call_inv [OF u(5) f(1)])
    show "unat (cs_stamp (cl_slots (ls_link ?v) ! slot_number (unat ?n))) = 2 * unat ?n"
      using u(4) stamp_values(1) [of ?n] n lim slot_of_number [of ?n] by (simp add: v stamped_def)
  qed (use f n serial assms(6) in \<open>simp_all add: v fresh_read_def nth_append\<close>)
  ultimately show ?thesis using su f(4) n by (auto simp: v intro: rtranclp_trans converse_rtranclp_into_rtranclp)
qed


text \<open>A record of 65 bytes.\<close>

definition demo_record :: camera_record where
  "demo_record = \<lparr>cr_bytes = replicate 65 7, cr_host_time = 1000, cr_arrived = 1000\<rparr>"

lemma demo_record_ok:
  "camera_write_ok 0 demo_record"
  "\<not> camera_fields_bad 100 2000 (of_nat (length (cr_bytes demo_record))) (cr_host_time demo_record) (cr_arrived demo_record)"
  by (simp_all add: camera_write_ok_def camera_fields_bad_def demo_record_def)

lemma link_start_simps:
  "ls_writer link_start = CW_Idle" "ls_reader link_start = CR_Idle" "ls_cursor link_start = ls_serial link_start"
  "ls_serial link_start = 0" "ls_delivered link_start = []"
  by (simp_all add: link_start_def)


lemma demo_delivery: "\<exists>t. link_step\<^sup>*\<^sup>* link_start t \<and> ls_delivered t = [(1, demo_record)]"
  using link_delivery [OF rtranclp.rtrancl_refl link_start_simps(1-3), of demo_record 100 2000] demo_record_ok
  by (simp add: link_start_simps)

lemma camera_link_no_torn_read_witness:
  "\<exists>t. link_step\<^sup>*\<^sup>* link_start t \<and> ls_delivered t = [(1, demo_record)] \<and> ls_written t ! 0 = demo_record"
proof -
  obtain t where t: "link_step\<^sup>*\<^sup>* link_start t" "ls_delivered t = [(1, demo_record)]" using demo_delivery by blast
  then show ?thesis using camera_link_no_torn_read [OF t(1)] by auto
qed

end
