(* ===== verification/Mic_Queue.thy ===== *)
theory Mic_Queue
  imports Complex_Main Ring "HOL-Library.Signed_Division"
begin

text \<open>
  The producer side of the virtual microphone of the macOS host,
  \<^verbatim>\<open>src/apps/host/macos/audio-device/microphone-queue.h\<close>: a ring of 60 ms of decoded speech with the times
  at which it arrived, from which blocks of 10 ms are rendered. Speech that was muted, has expired or
  has been played must not stay in memory.

  The three arrays of the structure are one list of frames here. A finite \<^verbatim>\<open>float\<close> is its rational
  value; a sample of a packet that is infinite or not a number is \<^verbatim>\<open>None\<close>. The arithmetic of the
  interpolation is that of the C expression, operation by operation, with the rounding of
  \<^verbatim>\<open>double\<close> and \<^verbatim>\<open>float\<close> results as parameters \<^verbatim>\<open>rd\<close> and \<^verbatim>\<open>rf\<close>.
\<close>

abbreviation PLANKMicRate :: nat where "PLANKMicRate \<equiv> 48000"
abbreviation PLANKMicPacketFrames :: nat where "PLANKMicPacketFrames \<equiv> 480"
abbreviation PLANKMicQueueFrames :: nat where "PLANKMicQueueFrames \<equiv> 2880"
abbreviation PLANKMicTargetFrames :: nat where "PLANKMicTargetFrames \<equiv> 960"
abbreviation PLANK_MIC_PCM_MAX_AGE_NS :: u64 where "PLANK_MIC_PCM_MAX_AGE_NS \<equiv> 100000000"

record mic_frame =
  mf_left :: rat
  mf_right :: rat
  mf_arrived :: u64
  mf_captured :: u64

definition silent_frame :: mic_frame where
  "silent_frame = \<lparr>mf_left = 0, mf_right = 0, mf_arrived = 0, mf_captured = 0\<rparr>"

record mic_queue =
  mq_frames :: "mic_frame list"
  mq_next_sample :: u64
  mq_expired_frames :: u64
  mq_discarded_frames :: u64
  mq_head :: nat
  mq_count :: nat
  mq_average256 :: int
  mq_has_sample :: bool
  mq_primed :: bool

fun mic_wipe :: "nat \<Rightarrow> nat \<Rightarrow> mic_frame list \<Rightarrow> mic_frame list" where
  "mic_wipe head 0 fs = fs"
| "mic_wipe head (Suc i) fs = (mic_wipe head i fs)[(head + i) mod PLANKMicQueueFrames := silent_frame]"

definition mic_queue_discard :: "nat \<Rightarrow> mic_queue \<Rightarrow> mic_queue" where
  "mic_queue_discard count q =
     q\<lparr>mq_frames := mic_wipe (mq_head q) count (mq_frames q),
       mq_head := (mq_head q + count) mod PLANKMicQueueFrames, mq_count := mq_count q - count\<rparr>"

definition mic_queue_flush :: "mic_queue \<Rightarrow> mic_queue" where
  "mic_queue_flush q = (mic_queue_discard (mq_count q) q)\<lparr>mq_head := 0, mq_primed := False, mq_average256 := 0\<rparr>"

definition mic_queue_clear :: "mic_queue \<Rightarrow> mic_queue" where
  "mic_queue_clear q = (mic_queue_flush q)\<lparr>mq_has_sample := False, mq_next_sample := 0\<rparr>"

definition mic_at :: "mic_queue \<Rightarrow> nat \<Rightarrow> mic_frame" where
  "mic_at q i = mq_frames q ! ((mq_head q + i) mod PLANKMicQueueFrames)"

definition mic_fresh :: "u64 \<Rightarrow> mic_frame \<Rightarrow> bool" where
  "mic_fresh now f \<longleftrightarrow> mf_arrived f \<le> now \<and> now - mf_arrived f < PLANK_MIC_PCM_MAX_AGE_NS"

text \<open>The expiry scan from frame \<^verbatim>\<open>expired\<close>, with \<^verbatim>\<open>n\<close> frames to go.\<close>

fun mic_expired :: "u64 \<Rightarrow> mic_queue \<Rightarrow> nat \<Rightarrow> nat \<Rightarrow> nat" where
  "mic_expired now q expired 0 = expired"
| "mic_expired now q expired (Suc n) =
     (if mic_fresh now (mic_at q expired) then expired else mic_expired now q (expired + 1) n)"

definition mic_queue_expire :: "u64 \<Rightarrow> mic_queue \<Rightarrow> mic_queue" where
  "mic_queue_expire now q =
     (if mq_count q \<noteq> 0 \<and> now < mf_arrived (mic_at q (mq_count q - 1))
      then mic_queue_flush (q\<lparr>mq_expired_frames := mq_expired_frames q + of_nat (mq_count q)\<rparr>)
      else
        let expired = mic_expired now q 0 (mq_count q) in
        if expired \<noteq> 0
        then (mic_queue_discard expired q)\<lparr>mq_expired_frames := mq_expired_frames q + of_nat expired, mq_primed := False\<rparr>
        else q)"

definition mic_append :: "mic_frame \<Rightarrow> mic_queue \<Rightarrow> mic_queue" where
  "mic_append f q = q\<lparr>mq_frames := (mq_frames q)[(mq_head q + mq_count q) mod PLANKMicQueueFrames := f],
     mq_count := mq_count q + 1\<rparr>"

definition clip :: "rat \<Rightarrow> rat" where
  "clip x = min 1 (max (- 1) x)"

definition packet_frame :: "rat option list \<Rightarrow> u64 \<Rightarrow> u64 \<Rightarrow> nat \<Rightarrow> mic_frame" where
  "packet_frame samples captureTime now i =
     \<lparr>mf_left = clip (the (samples ! (i * 2))), mf_right = clip (the (samples ! (i * 2 + 1))), mf_arrived = now,
      mf_captured = (if captureTime \<noteq> 0 then captureTime + of_nat i * 1000000000 div of_nat PLANKMicRate else 0)\<rparr>"

definition mic_submit_ok :: "rat option list option \<Rightarrow> u32 \<Rightarrow> u64 \<Rightarrow> u64 \<Rightarrow> mic_queue \<Rightarrow> bool" where
  "mic_submit_ok samples count sampleTime captureTime q \<longleftrightarrow>
     \<not> (0x7fffffffffffffff - 10000000 < captureTime \<or> samples = None \<or> count \<noteq> of_nat PLANKMicPacketFrames \<or>
        sampleTime mod of_nat PLANKMicPacketFrames \<noteq> 0 \<or> 0xffffffffffffffff - ucast count < sampleTime \<or>
        mq_has_sample q \<and> sampleTime < mq_next_sample q) \<and>
     (\<forall>i < unat count * 2. the samples ! i \<noteq> None)"

definition mic_fill_gap :: "u64 \<Rightarrow> u64 \<Rightarrow> mic_queue \<Rightarrow> mic_queue" where
  "mic_fill_gap sampleTime now q =
     (if mq_has_sample q \<and> sampleTime \<noteq> mq_next_sample q
      then let missing = sampleTime - mq_next_sample q in
        if missing \<le> 2 * of_nat PLANKMicPacketFrames \<and>
           mq_count q + unat missing + PLANKMicPacketFrames \<le> PLANKMicQueueFrames
        then fold (\<lambda>_. mic_append (silent_frame\<lparr>mf_arrived := now\<rparr>)) [0..<unat missing] q
        else mic_queue_flush q
      else q)"

definition mic_make_room :: "mic_queue \<Rightarrow> mic_queue" where
  "mic_make_room q =
     (if PLANKMicQueueFrames < mq_count q + PLANKMicPacketFrames
      then let discard = mq_count q + PLANKMicPacketFrames - PLANKMicQueueFrames in
        (mic_queue_discard discard q)\<lparr>mq_discarded_frames := mq_discarded_frames q + of_nat discard\<rparr>
      else q)"

definition mic_queue_submit ::
  "rat option list option \<Rightarrow> u32 \<Rightarrow> u64 \<Rightarrow> u64 \<Rightarrow> u64 \<Rightarrow> mic_queue \<Rightarrow> bool \<times> mic_queue" where
  "mic_queue_submit samples count sampleTime captureTime now q =
     (if \<not> mic_submit_ok samples count sampleTime captureTime q then (False, q)
      else
        let q1 = mic_fill_gap sampleTime now (mic_queue_expire now q);
            q2 = mic_make_room (q1\<lparr>mq_has_sample := True, mq_next_sample := sampleTime + ucast count\<rparr>)
        in (True, fold (\<lambda>i. mic_append (packet_frame (the samples) captureTime now i)) [0..<PLANKMicPacketFrames] q2))"

section \<open>Rendering\<close>

definition mic_consume :: "mic_queue \<Rightarrow> nat" where
  "mic_consume q =
     (let low = int (PLANKMicTargetFrames + PLANKMicPacketFrames) * 256;
          high = int (PLANKMicTargetFrames + 3 * PLANKMicPacketFrames div 2) * 256;
          consume = (if high < mq_average256 q then 481 else if mq_average256 q < low then 479 else 480)
      in if mq_count q < consume then mq_count q else consume)"

definition mic_offset :: "(rat \<Rightarrow> rat) \<Rightarrow> nat \<Rightarrow> nat \<Rightarrow> rat" where
  "mic_offset rd consume i = rd (rd (of_nat i * of_nat consume) / of_nat PLANKMicPacketFrames)"

definition mic_mix :: "(rat \<Rightarrow> rat) \<Rightarrow> (rat \<Rightarrow> rat) \<Rightarrow> rat \<Rightarrow> rat \<Rightarrow> rat \<Rightarrow> rat" where
  "mic_mix rd rf t x y = rf (rd (rd (x * rd (1 - t)) + rd (y * t)))"

definition mic_output :: "(rat \<Rightarrow> rat) \<Rightarrow> (rat \<Rightarrow> rat) \<Rightarrow> nat \<Rightarrow> mic_queue \<Rightarrow> nat \<Rightarrow> rat \<times> rat" where
  "mic_output rd rf consume q i =
     (let offset = mic_offset rd consume i;
          a = nat \<lfloor>offset\<rfloor>;
          b = (if a + 1 < consume then a + 1 else consume - 1);
          t = rd (offset - of_nat a)
      in (mic_mix rd rf t (mf_left (mic_at q a)) (mf_left (mic_at q b)),
          mic_mix rd rf t (mf_right (mic_at q a)) (mf_right (mic_at q b))))"

definition mic_capture_time :: "nat \<Rightarrow> mic_queue \<Rightarrow> u64" where
  "mic_capture_time consume q =
     (if \<exists>i \<in> set [1..<consume].
           let before = mf_captured (mic_at q (i - 1)); after = mf_captured (mic_at q i)
           in before = 0 \<or> after \<le> before \<or> 2000000 < after - before
      then 0 else mf_captured (mic_at q 0))"

definition mic_prime :: "mic_queue \<Rightarrow> mic_queue" where
  "mic_prime q = (if \<not> mq_primed q \<and> PLANKMicTargetFrames \<le> mq_count q
     then q\<lparr>mq_primed := True, mq_average256 := int (mq_count q) * 256\<rparr> else q)"

definition mic_smooth :: "mic_queue \<Rightarrow> mic_queue" where
  "mic_smooth q = q\<lparr>mq_average256 := mq_average256 q + (int (mq_count q) * 256 - mq_average256 q) sdiv 32\<rparr>"

text \<open>The result, the output block, the capture time when the caller asked for it, and the queue.\<close>

definition mic_queue_render ::
  "(rat \<Rightarrow> rat) \<Rightarrow> (rat \<Rightarrow> rat) \<Rightarrow> u64 \<Rightarrow> mic_queue \<Rightarrow> bool \<times> (rat \<times> rat) list \<times> u64 \<times> mic_queue" where
  "mic_queue_render rd rf now q =
     (let q1 = mic_prime (mic_queue_expire now q) in
      if \<not> mq_primed q1 \<or> mq_count q1 < 479
      then (False, replicate PLANKMicPacketFrames (0, 0), 0, q1\<lparr>mq_primed := False\<rparr>)
      else
        let q2 = mic_smooth q1; consume = mic_consume q2
        in (True, map (mic_output rd rf consume q2) [0..<PLANKMicPacketFrames], mic_capture_time consume q2,
            mic_queue_discard consume q2))"

end
