(* ===== verification/Mic_Queue_Proofs.thy ===== *)
theory Mic_Queue_Proofs
  imports Mic_Queue
begin

text \<open>
  The microphone queue as a list of frames: what every operation does to it, that nothing stays in the
  slots outside it, and that rendering only uses frames that are young enough.
\<close>

section \<open>The queue as a list\<close>

definition mic_contents :: "mic_queue \<Rightarrow> mic_frame list" where
  "mic_contents q = window (mq_frames q) (mq_head q) (mq_count q)"

definition mic_shape :: "mic_queue \<Rightarrow> bool" where
  "mic_shape q \<longleftrightarrow> length (mq_frames q) = PLANKMicQueueFrames \<and> mq_head q < PLANKMicQueueFrames \<and>
     mq_count q \<le> PLANKMicQueueFrames"

text \<open>Nothing is left in a slot that is not part of the queue.\<close>

definition mic_silent_outside :: "mic_queue \<Rightarrow> bool" where
  "mic_silent_outside q \<longleftrightarrow>
     (\<forall>k. mq_count q \<le> k \<and> k < PLANKMicQueueFrames \<longrightarrow> mic_at q k = silent_frame)"

definition mic_average_ok :: "mic_queue \<Rightarrow> bool" where
  "mic_average_ok q \<longleftrightarrow> 0 \<le> mq_average256 q \<and> mq_average256 q \<le> int PLANKMicQueueFrames * 256"

definition mic_inv :: "mic_queue \<Rightarrow> bool" where
  "mic_inv q \<longleftrightarrow> mic_shape q \<and> mic_silent_outside q \<and> sorted (map mf_arrived (mic_contents q)) \<and> mic_average_ok q"

lemma length_mic_contents [simp]: "length (mic_contents q) = mq_count q"
  by (simp add: mic_contents_def)

lemma mic_contents_nth: "mic_shape q \<Longrightarrow> i < mq_count q \<Longrightarrow> mic_contents q ! i = mic_at q i"
  by (simp add: mic_contents_def mic_at_def mic_shape_def)

lemma length_mic_wipe [simp]: "length (mic_wipe head n fs) = length fs"
  by (induction n) simp_all

lemma mic_wipe_nth:
  assumes "length fs = PLANKMicQueueFrames" "n \<le> PLANKMicQueueFrames" "k < PLANKMicQueueFrames"
  shows "mic_wipe head n fs ! ((head + k) mod PLANKMicQueueFrames) =
    (if k < n then silent_frame else fs ! ((head + k) mod PLANKMicQueueFrames))"
  using assms(2)
proof (induction n)
  case (Suc n)
  have "(head + n) mod PLANKMicQueueFrames = (head + k) mod PLANKMicQueueFrames \<longleftrightarrow> n = k"
    using ring_slot_inj [of head n PLANKMicQueueFrames k] Suc.prems assms(3) by auto
  moreover have "(head + k) mod PLANKMicQueueFrames < PLANKMicQueueFrames" by simp
  ultimately show ?case using Suc assms(1) by (auto simp: nth_list_update)
qed simp

lemma mic_discard_at:
  assumes "mic_shape q" "n \<le> mq_count q" "k < PLANKMicQueueFrames"
  shows "mic_at (mic_queue_discard n q) k = (if k < PLANKMicQueueFrames - n then mic_at q (n + k) else silent_frame)"
proof (cases "k < PLANKMicQueueFrames - n")
  case True
  then have "n + k < PLANKMicQueueFrames" by linarith
  then show ?thesis using True mic_wipe_nth [of "mq_frames q" n "n + k" "mq_head q"] assms
    by (simp add: mic_at_def mic_queue_discard_def mic_shape_def mod_add_left_eq add.assoc)
next
  case False
  then obtain j where "n + k = j + PLANKMicQueueFrames" by (metis add.commute le_Suc_ex le_diff_conv not_less)
  then have j: "j < n" "j < PLANKMicQueueFrames" "mq_head q + n + k = mq_head q + j + PLANKMicQueueFrames"
    using assms by (auto simp: mic_shape_def)
  have "mic_at (mic_queue_discard n q) k = mic_wipe (mq_head q) n (mq_frames q) ! ((mq_head q + n + k) mod PLANKMicQueueFrames)"
    by (simp add: mic_at_def mic_queue_discard_def mod_add_left_eq)
  also have "\<dots> = mic_wipe (mq_head q) n (mq_frames q) ! ((mq_head q + j) mod PLANKMicQueueFrames)"
    unfolding j(3) by (simp only: mod_add_self2)
  also have "\<dots> = silent_frame"
    using mic_wipe_nth [of "mq_frames q" n j "mq_head q"] assms j(1,2) by (simp add: mic_shape_def)
  finally show ?thesis using False by simp
qed

lemma mic_discard_contents:
  assumes "mic_shape q" "n \<le> mq_count q"
  shows "mic_shape (mic_queue_discard n q)" "mic_contents (mic_queue_discard n q) = drop n (mic_contents q)"
    "mic_silent_outside q \<Longrightarrow> mic_silent_outside (mic_queue_discard n q)"
proof -
  show shape: "mic_shape (mic_queue_discard n q)"
    using assms by (auto simp: mic_shape_def mic_queue_discard_def)
  have count: "mq_count (mic_queue_discard n q) = mq_count q - n" by (simp add: mic_queue_discard_def)
  show "mic_contents (mic_queue_discard n q) = drop n (mic_contents q)"
  proof (rule nth_equalityI)
    fix i
    assume "i < length (mic_contents (mic_queue_discard n q))"
    then have i: "i < mq_count q - n" by (simp add: count)
    then have "i < PLANKMicQueueFrames" "i < PLANKMicQueueFrames - n" using assms by (auto simp: mic_shape_def)
    then have "mic_contents (mic_queue_discard n q) ! i = mic_at q (n + i)"
      using i mic_contents_nth [OF shape, of i] mic_discard_at [OF assms, of i] by (simp add: count)
    also have "\<dots> = drop n (mic_contents q) ! i" using i mic_contents_nth [OF assms(1), of "n + i"] by simp
    finally show "mic_contents (mic_queue_discard n q) ! i = drop n (mic_contents q) ! i" .
  qed (simp add: count)
  show "mic_silent_outside (mic_queue_discard n q)" if "mic_silent_outside q"
    unfolding mic_silent_outside_def count
  proof (intro allI impI)
    fix k
    assume k: "mq_count q - n \<le> k \<and> k < PLANKMicQueueFrames"
    then have "k < PLANKMicQueueFrames - n \<Longrightarrow> mq_count q \<le> n + k \<and> n + k < PLANKMicQueueFrames" by linarith
    with k show "mic_at (mic_queue_discard n q) k = silent_frame"
      using that mic_discard_at [OF assms, of k] by (simp add: mic_silent_outside_def)
  qed
qed

lemma mic_append_contents:
  assumes "mic_shape q" "mq_count q < PLANKMicQueueFrames"
  shows "mic_shape (mic_append f q)" "mic_contents (mic_append f q) = mic_contents q @ [f]"
    "mic_silent_outside q \<Longrightarrow> mic_silent_outside (mic_append f q)"
proof -
  have len: "length (mq_frames q) = PLANKMicQueueFrames" using assms(1) by (simp add: mic_shape_def)
  show "mic_shape (mic_append f q)" using assms by (simp add: mic_shape_def mic_append_def)
  show "mic_contents (mic_append f q) = mic_contents q @ [f]"
    using window_push [of "mq_count q" "mq_frames q" "mq_head q" f] assms(2) len
    by (simp add: mic_contents_def mic_append_def)
  show "mic_silent_outside (mic_append f q)" if outside: "mic_silent_outside q"
    unfolding mic_silent_outside_def
  proof (intro allI impI)
    fix k
    assume k: "mq_count (mic_append f q) \<le> k \<and> k < PLANKMicQueueFrames"
    then have "(mq_head q + mq_count q) mod PLANKMicQueueFrames \<noteq> (mq_head q + k) mod PLANKMicQueueFrames"
      using ring_slot_inj [of "mq_head q" "mq_count q" PLANKMicQueueFrames k] assms(2) by (auto simp: mic_append_def)
    then show "mic_at (mic_append f q) k = silent_frame"
      using outside k by (simp add: mic_at_def mic_append_def mic_silent_outside_def)
  qed
qed

lemma mic_append_all:
  assumes "mic_shape q" "mq_count q + length xs \<le> PLANKMicQueueFrames"
  shows "mic_shape (fold (\<lambda>x. mic_append (f x)) xs q)"
    "mic_contents (fold (\<lambda>x. mic_append (f x)) xs q) = mic_contents q @ map f xs"
    "mic_silent_outside q \<Longrightarrow> mic_silent_outside (fold (\<lambda>x. mic_append (f x)) xs q)"
    "mq_average256 (fold (\<lambda>x. mic_append (f x)) xs q) = mq_average256 q"
proof -
  have "mic_shape (fold (\<lambda>x. mic_append (f x)) xs q) \<and>
    mic_contents (fold (\<lambda>x. mic_append (f x)) xs q) = mic_contents q @ map f xs \<and>
    (mic_silent_outside q \<longrightarrow> mic_silent_outside (fold (\<lambda>x. mic_append (f x)) xs q)) \<and>
    mq_average256 (fold (\<lambda>x. mic_append (f x)) xs q) = mq_average256 q"
    using assms
  proof (induction xs arbitrary: q)
    case (Cons x xs)
    have room: "mq_count q < PLANKMicQueueFrames" using Cons.prems(2) by simp
    note a = mic_append_contents [OF Cons.prems(1) room, of "f x"]
    have "mq_count (mic_append (f x) q) + length xs \<le> PLANKMicQueueFrames"
      using Cons.prems(2) by (simp add: mic_append_def)
    from Cons.IH [OF a(1) this] show ?case using a(2,3) by (simp add: mic_append_def)
  qed simp
  then show "mic_shape (fold (\<lambda>x. mic_append (f x)) xs q)"
    "mic_contents (fold (\<lambda>x. mic_append (f x)) xs q) = mic_contents q @ map f xs"
    "mic_silent_outside q \<Longrightarrow> mic_silent_outside (fold (\<lambda>x. mic_append (f x)) xs q)"
    "mq_average256 (fold (\<lambda>x. mic_append (f x)) xs q) = mq_average256 q"
    by blast+
qed

section \<open>Expiry\<close>

definition mic_keep :: "u64 \<Rightarrow> mic_frame list \<Rightarrow> mic_frame list" where
  "mic_keep now xs =
     (if xs \<noteq> [] \<and> now < mf_arrived (last xs) then [] else dropWhile (\<lambda>f. \<not> mic_fresh now f) xs)"

lemma mic_expired_length:
  assumes "mic_shape q" "e + n = mq_count q"
  shows "mic_expired now q e n = e + length (takeWhile (\<lambda>f. \<not> mic_fresh now f) (drop e (mic_contents q)))"
  using assms(2)
proof (induction n arbitrary: e)
  case (Suc n)
  have "drop e (mic_contents q) = mic_at q e # drop (e + 1) (mic_contents q)"
    using Suc.prems mic_contents_nth [OF assms(1), of e] by (simp add: Cons_nth_drop_Suc [symmetric])
  then show ?case using Suc.IH [of "e + 1"] Suc.prems by simp
qed simp

lemma mic_flush_contents:
  assumes "mic_shape q"
  shows "mic_shape (mic_queue_flush q)" "mic_contents (mic_queue_flush q) = []"
    "mic_silent_outside q \<Longrightarrow> mic_silent_outside (mic_queue_flush q)"
    "mq_count (mic_queue_flush q) = 0"
proof -
  have d: "mic_shape (mic_queue_discard (mq_count q) q)" by (rule mic_discard_contents(1) [OF assms order_refl])
  have count: "mq_count (mic_queue_discard (mq_count q) q) = 0" by (simp add: mic_queue_discard_def)
  show "mic_shape (mic_queue_flush q)" using d by (simp add: mic_queue_flush_def mic_shape_def)
  show "mic_contents (mic_queue_flush q) = []" "mq_count (mic_queue_flush q) = 0"
    using count by (simp_all add: mic_queue_flush_def mic_contents_def)
  show "mic_silent_outside (mic_queue_flush q)" if "mic_silent_outside q"
    unfolding mic_silent_outside_def
  proof (intro allI impI)
    fix k
    assume k: "mq_count (mic_queue_flush q) \<le> k \<and> k < PLANKMicQueueFrames"
    let ?d = "mic_queue_discard (mq_count q) q"
    have all: "mic_at ?d j = silent_frame" if "j < PLANKMicQueueFrames" for j
      using that mic_discard_contents(3) [OF assms order_refl \<open>mic_silent_outside q\<close>] count
      by (simp add: mic_silent_outside_def)
    have "length (mq_frames ?d) = PLANKMicQueueFrames" "mq_head ?d < PLANKMicQueueFrames"
      using d by (simp_all add: mic_shape_def)
    then obtain j where "j < PLANKMicQueueFrames" "(mq_head ?d + j) mod PLANKMicQueueFrames = k"
      using k ring_slot_surj by blast
    then have "mq_frames ?d ! k = silent_frame" using all [of j] by (simp add: mic_at_def)
    then show "mic_at (mic_queue_flush q) k = silent_frame"
      using k by (simp add: mic_at_def mic_queue_flush_def)
  qed
qed

lemma mic_expire_contents:
  assumes shape: "mic_shape q"
  shows "mic_shape (mic_queue_expire now q)" "mic_contents (mic_queue_expire now q) = mic_keep now (mic_contents q)"
    "mic_silent_outside q \<Longrightarrow> mic_silent_outside (mic_queue_expire now q)"
    "mic_average_ok q \<Longrightarrow> mic_average_ok (mic_queue_expire now q)"
proof -
  let ?q = "q\<lparr>mq_expired_frames := mq_expired_frames q + of_nat (mq_count q)\<rparr>"
  let ?e = "mic_expired now q 0 (mq_count q)"
  have "mic_shape (mic_queue_expire now q) \<and> mic_contents (mic_queue_expire now q) = mic_keep now (mic_contents q) \<and>
    (mic_silent_outside q \<longrightarrow> mic_silent_outside (mic_queue_expire now q)) \<and>
    (mic_average_ok q \<longrightarrow> mic_average_ok (mic_queue_expire now q))"
  proof (cases "mq_count q \<noteq> 0 \<and> now < mf_arrived (mic_at q (mq_count q - 1))")
    case True
    have "mic_contents q \<noteq> []" "last (mic_contents q) = mic_at q (mq_count q - 1)"
      using True mic_contents_nth [OF shape, of "mq_count q - 1"] by (auto simp: last_conv_nth simp flip: length_greater_0_conv)
    then have "mic_keep now (mic_contents q) = []" using True by (simp add: mic_keep_def)
    moreover have "mic_shape ?q" using shape by (simp add: mic_shape_def)
    moreover have "mic_silent_outside ?q = mic_silent_outside q" by (simp add: mic_silent_outside_def mic_at_def)
    ultimately show ?thesis using True mic_flush_contents [of ?q]
      by (simp add: mic_queue_expire_def mic_average_ok_def mic_queue_flush_def)
  next
    case False
    have e: "?e = length (takeWhile (\<lambda>f. \<not> mic_fresh now f) (mic_contents q))"
      using mic_expired_length [OF shape, of 0 "mq_count q"] by simp
    then have le: "?e \<le> mq_count q" using length_takeWhile_le [of _ "mic_contents q"] by simp
    have keep: "mic_keep now (mic_contents q) = drop ?e (mic_contents q)"
    proof -
      have "\<not> (mic_contents q \<noteq> [] \<and> now < mf_arrived (last (mic_contents q)))"
        using False mic_contents_nth [OF shape, of "mq_count q - 1"]
        by (auto simp: last_conv_nth simp flip: length_greater_0_conv)
      then show ?thesis by (auto simp: mic_keep_def e dropWhile_eq_drop)
    qed
    note d = mic_discard_contents [OF shape le]
    have frame: "mic_shape (r\<lparr>mq_expired_frames := x, mq_primed := y\<rparr>) = mic_shape r"
      "mic_contents (r\<lparr>mq_expired_frames := x, mq_primed := y\<rparr>) = mic_contents r"
      "mic_silent_outside (r\<lparr>mq_expired_frames := x, mq_primed := y\<rparr>) = mic_silent_outside r"
      "mic_average_ok (r\<lparr>mq_expired_frames := x, mq_primed := y\<rparr>) = mic_average_ok r" for r x y
      by (simp_all add: mic_shape_def mic_contents_def mic_silent_outside_def mic_at_def mic_average_ok_def)
    have avg: "mic_average_ok (mic_queue_discard ?e q) = mic_average_ok q"
      by (simp add: mic_average_ok_def mic_queue_discard_def)
    show ?thesis
    proof (cases "?e = 0")
      case True
      then have "mic_queue_expire now q = q" unfolding mic_queue_expire_def if_not_P [OF False] by simp
      then show ?thesis using shape keep True by simp
    next
      case pos: False
      then show ?thesis using d keep unfolding mic_queue_expire_def if_not_P [OF False]
        by (simp add: Let_def frame avg)
    qed
  qed
  then show "mic_shape (mic_queue_expire now q)" "mic_contents (mic_queue_expire now q) = mic_keep now (mic_contents q)"
    "mic_silent_outside q \<Longrightarrow> mic_silent_outside (mic_queue_expire now q)"
    "mic_average_ok q \<Longrightarrow> mic_average_ok (mic_queue_expire now q)" by blast+
qed

text \<open>With arrivals in order, what is kept is younger than 100 ms.\<close>

lemma mic_fresh_mono:
  assumes "mic_fresh now f" "mf_arrived f \<le> mf_arrived g" "mf_arrived g \<le> now"
  shows "mic_fresh now g"
  using assms by (simp add: mic_fresh_def word_le_nat_alt word_less_nat_alt unat_sub)

lemma mic_keep_sorted:
  assumes "sorted (map mf_arrived xs)"
  shows "sorted (map mf_arrived (mic_keep now xs))" "\<forall>f \<in> set (mic_keep now xs). mic_fresh now f"
proof -
  have keep: "mic_keep now xs = drop (length (takeWhile (\<lambda>f. \<not> mic_fresh now f) xs)) xs \<or> mic_keep now xs = []"
    by (auto simp: mic_keep_def dropWhile_eq_drop)
  then show sorted: "sorted (map mf_arrived (mic_keep now xs))"
    using sorted_wrt_drop [OF assms] by (auto simp flip: drop_map)
  show "\<forall>f \<in> set (mic_keep now xs). mic_fresh now f"
  proof (cases "mic_keep now xs")
    case (Cons g gs)
    then have nonempty: "xs \<noteq> []" "\<not> now < mf_arrived (last xs)" by (auto simp: mic_keep_def split: if_splits)
    then have drop: "dropWhile (\<lambda>f. \<not> mic_fresh now f) xs = g # gs" using Cons by (auto simp: mic_keep_def split: if_splits)
    then have fresh: "mic_fresh now g" by (metis dropWhile_eq_Cons_conv)
    have suffix: "set (g # gs) \<subseteq> set xs" using drop set_dropWhileD by (metis subsetI)
    have last: "mf_arrived f \<le> mf_arrived (last xs)" if f: "f \<in> set xs" for f
    proof -
      obtain i where "i < length xs" "f = xs ! i" using f by (auto simp: in_set_conv_nth)
      then show ?thesis using sorted_nth_mono [OF assms, of i "length xs - 1"] nonempty(1)
        by (simp add: last_conv_nth)
    qed
    have "mic_fresh now f" if "f \<in> set (g # gs)" for f
    proof (rule mic_fresh_mono [OF fresh])
      show "mf_arrived g \<le> mf_arrived f" using sorted that Cons by auto
      show "mf_arrived f \<le> now" using last [of f] suffix that nonempty(2) by fastforce
    qed
    then show ?thesis using Cons by simp
  qed simp
qed

lemma mic_expire_inv: "mic_inv q \<Longrightarrow> mic_inv (mic_queue_expire now q)"
  by (simp add: mic_inv_def mic_expire_contents mic_keep_sorted)

text \<open>No frame that is left arrived after \<^verbatim>\<open>now\<close>.\<close>

lemma mic_keep_arrived:
  "sorted (map mf_arrived xs) \<Longrightarrow> f \<in> set (mic_keep now xs) \<Longrightarrow> mf_arrived f \<le> now"
  using mic_keep_sorted(2) by (auto simp: mic_fresh_def)

section \<open>Submission\<close>

definition mic_gap_frames :: "u64 \<Rightarrow> u64 \<Rightarrow> bool \<Rightarrow> u64 \<Rightarrow> mic_frame list \<Rightarrow> mic_frame list" where
  "mic_gap_frames sampleTime now has expected xs =
     (if has \<and> sampleTime \<noteq> expected
      then if unat (sampleTime - expected) \<le> 960 \<and> length xs + unat (sampleTime - expected) + 480 \<le> PLANKMicQueueFrames
        then xs @ replicate (unat (sampleTime - expected)) (silent_frame\<lparr>mf_arrived := now\<rparr>)
        else []
      else xs)"

lemma expire_has: "mq_has_sample (mic_queue_expire now q) = mq_has_sample q"
    "mq_next_sample (mic_queue_expire now q) = mq_next_sample q"
  by (simp_all add: mic_queue_expire_def mic_queue_flush_def mic_queue_discard_def Let_def)

lemma mic_average_flush: "mic_average_ok (mic_queue_flush q)"
  by (simp add: mic_average_ok_def mic_queue_flush_def)

lemma mic_fill_gap_contents:
  assumes shape: "mic_shape q"
  shows "mic_shape (mic_fill_gap sampleTime now q)"
    "mic_contents (mic_fill_gap sampleTime now q) =
      mic_gap_frames sampleTime now (mq_has_sample q) (mq_next_sample q) (mic_contents q)"
    "mic_silent_outside q \<Longrightarrow> mic_silent_outside (mic_fill_gap sampleTime now q)"
    "mic_average_ok q \<Longrightarrow> mic_average_ok (mic_fill_gap sampleTime now q)"
proof -
  let ?missing = "sampleTime - mq_next_sample q"
  have le: "?missing \<le> 2 * of_nat PLANKMicPacketFrames \<longleftrightarrow> unat ?missing \<le> 960" by (simp add: word_le_nat_alt)
  note a = mic_append_all [OF shape, of "[0..<unat ?missing]" "\<lambda>_. silent_frame\<lparr>mf_arrived := now\<rparr>"]
  have "mic_shape (mic_fill_gap sampleTime now q) \<and> mic_contents (mic_fill_gap sampleTime now q) =
      mic_gap_frames sampleTime now (mq_has_sample q) (mq_next_sample q) (mic_contents q) \<and>
    (mic_silent_outside q \<longrightarrow> mic_silent_outside (mic_fill_gap sampleTime now q)) \<and>
    (mic_average_ok q \<longrightarrow> mic_average_ok (mic_fill_gap sampleTime now q))"
  proof (cases "mq_has_sample q \<and> sampleTime \<noteq> mq_next_sample q")
    case True
    show ?thesis
    proof (cases "unat ?missing \<le> 960 \<and> mq_count q + unat ?missing + 480 \<le> PLANKMicQueueFrames")
      case fits: True
      then show ?thesis using True a le
        by (simp add: mic_fill_gap_def mic_gap_frames_def mic_average_ok_def map_replicate_const)
    next
      case False
      then show ?thesis using True mic_flush_contents [OF shape] mic_average_flush le
        by (auto simp: mic_fill_gap_def mic_gap_frames_def)
    qed
  qed (use shape in \<open>auto simp: mic_fill_gap_def mic_gap_frames_def\<close>)
  then show "mic_shape (mic_fill_gap sampleTime now q)"
    "mic_contents (mic_fill_gap sampleTime now q) =
      mic_gap_frames sampleTime now (mq_has_sample q) (mq_next_sample q) (mic_contents q)"
    "mic_silent_outside q \<Longrightarrow> mic_silent_outside (mic_fill_gap sampleTime now q)"
    "mic_average_ok q \<Longrightarrow> mic_average_ok (mic_fill_gap sampleTime now q)" by blast+
qed

lemma mic_average_discard [simp]: "mic_average_ok (mic_queue_discard n q) = mic_average_ok q"
  by (simp add: mic_average_ok_def mic_queue_discard_def)

lemma mic_make_room_contents:
  assumes shape: "mic_shape q"
  shows "mic_shape (mic_make_room q)"
    "mic_contents (mic_make_room q) = drop (mq_count q + PLANKMicPacketFrames - PLANKMicQueueFrames) (mic_contents q)"
    "mic_silent_outside q \<Longrightarrow> mic_silent_outside (mic_make_room q)"
    "mic_average_ok q \<Longrightarrow> mic_average_ok (mic_make_room q)"
proof -
  let ?d = "mq_count q + PLANKMicPacketFrames - PLANKMicQueueFrames"
  have le: "?d \<le> mq_count q" using shape by (auto simp: mic_shape_def)
  note d = mic_discard_contents [OF shape le]
  have frame: "mic_shape (r\<lparr>mq_discarded_frames := x\<rparr>) = mic_shape r" "mic_contents (r\<lparr>mq_discarded_frames := x\<rparr>) = mic_contents r"
    "mic_silent_outside (r\<lparr>mq_discarded_frames := x\<rparr>) = mic_silent_outside r"
    "mic_average_ok (r\<lparr>mq_discarded_frames := x\<rparr>) = mic_average_ok r" for r x
    by (simp_all add: mic_shape_def mic_contents_def mic_silent_outside_def mic_at_def mic_average_ok_def)
  have "?d = 0" if "\<not> PLANKMicQueueFrames < mq_count q + PLANKMicPacketFrames" using that by simp
  then show "mic_shape (mic_make_room q)" "mic_contents (mic_make_room q) = drop ?d (mic_contents q)"
    "mic_silent_outside q \<Longrightarrow> mic_silent_outside (mic_make_room q)"
    "mic_average_ok q \<Longrightarrow> mic_average_ok (mic_make_room q)"
    using d shape by (auto simp: mic_make_room_def Let_def frame)
qed

text \<open>The specification of an accepted submission: expire, mark what is missing, and keep the newest 60 ms.\<close>

definition mic_packet :: "rat option list \<Rightarrow> u64 \<Rightarrow> u64 \<Rightarrow> mic_frame list" where
  "mic_packet samples captureTime now = map (packet_frame samples captureTime now) [0..<PLANKMicPacketFrames]"

definition mic_submitted :: "rat option list \<Rightarrow> u64 \<Rightarrow> u64 \<Rightarrow> u64 \<Rightarrow> mic_queue \<Rightarrow> mic_frame list" where
  "mic_submitted samples sampleTime captureTime now q =
     (let xs = mic_gap_frames sampleTime now (mq_has_sample q) (mq_next_sample q) (mic_keep now (mic_contents q)) @
            mic_packet samples captureTime now
      in drop (length xs - PLANKMicQueueFrames) xs)"

lemma mic_gap_sorted:
  assumes "sorted (map mf_arrived xs)" "\<forall>f \<in> set xs. mf_arrived f \<le> now"
  shows "sorted (map mf_arrived (mic_gap_frames sampleTime now has expected xs))"
    "\<forall>f \<in> set (mic_gap_frames sampleTime now has expected xs). mf_arrived f \<le> now"
  using assms by (auto simp: mic_gap_frames_def sorted_append)

lemma mic_packet_arrived: "f \<in> set (mic_packet samples captureTime now) \<Longrightarrow> mf_arrived f = now"
  by (auto simp: mic_packet_def packet_frame_def)

lemma mic_submitted_sorted:
  assumes "mic_inv q"
  shows "sorted (map mf_arrived (mic_submitted samples sampleTime captureTime now q))"
    "\<forall>f \<in> set (mic_submitted samples sampleTime captureTime now q). mf_arrived f \<le> now"
proof -
  have s: "sorted (map mf_arrived (mic_contents q))" using assms by (simp add: mic_inv_def)
  have k: "sorted (map mf_arrived (mic_keep now (mic_contents q)))" "\<forall>f \<in> set (mic_keep now (mic_contents q)). mf_arrived f \<le> now"
    using mic_keep_sorted(1) [OF s] mic_keep_arrived [OF s] by blast+
  let ?g = "mic_gap_frames sampleTime now (mq_has_sample q) (mq_next_sample q) (mic_keep now (mic_contents q))"
  have "sorted (map mf_arrived (mic_packet samples captureTime now))"
    by (auto simp: sorted_iff_nth_mono mic_packet_def packet_frame_def)
  then have "sorted (map mf_arrived (?g @ mic_packet samples captureTime now))"
    using mic_gap_sorted [OF k] mic_packet_arrived by (auto simp: sorted_append)
  then show "sorted (map mf_arrived (mic_submitted samples sampleTime captureTime now q))"
    unfolding mic_submitted_def Let_def drop_map [symmetric] by (rule sorted_wrt_drop)
  show "\<forall>f \<in> set (mic_submitted samples sampleTime captureTime now q). mf_arrived f \<le> now"
    using mic_gap_sorted(2) [OF k] mic_packet_arrived
    by (auto simp: mic_submitted_def Let_def dest!: in_set_dropD)
qed

lemma mic_submit_contents:
  fixes q :: mic_queue and samples :: "rat option list" and count :: u32 and sampleTime captureTime now :: u64
  assumes inv: "mic_inv q" and ok: "mic_submit_ok (Some samples) count sampleTime captureTime q"
  defines "r \<equiv> snd (mic_queue_submit (Some samples) count sampleTime captureTime now q)"
  shows "mic_inv r" "mic_contents r = mic_submitted samples sampleTime captureTime now q"
proof -
  let ?e = "mic_queue_expire now q"
  let ?g = "mic_fill_gap sampleTime now ?e"
  let ?h = "?g\<lparr>mq_has_sample := True, mq_next_sample := sampleTime + ucast count\<rparr>"
  let ?m = "mic_make_room ?h"
  have e: "mic_shape ?e" "mic_silent_outside ?e" "mic_average_ok ?e" "mic_contents ?e = mic_keep now (mic_contents q)"
    using inv mic_expire_contents by (simp_all add: mic_inv_def)
  note g = mic_fill_gap_contents [OF e(1), of sampleTime now]
  have frame: "mic_shape ?h = mic_shape ?g" "mic_contents ?h = mic_contents ?g" "mic_silent_outside ?h = mic_silent_outside ?g"
    "mic_average_ok ?h = mic_average_ok ?g" "mq_count ?h = mq_count ?g"
    by (simp_all add: mic_shape_def mic_contents_def mic_silent_outside_def mic_at_def mic_average_ok_def)
  have h: "mic_shape ?h" "mic_silent_outside ?h" "mic_average_ok ?h" using g e by (simp_all add: frame)
  note m = mic_make_room_contents [OF h(1)]
  have "mq_count ?h \<le> PLANKMicQueueFrames" using h(1) by (simp add: mic_shape_def)
  then have room: "mq_count ?m + length [0..<PLANKMicPacketFrames] \<le> PLANKMicQueueFrames"
    using arg_cong [OF m(2), of length] by simp
  note a = mic_append_all [OF m(1) room, of "packet_frame samples captureTime now"]
  have r: "r = fold (\<lambda>i. mic_append (packet_frame samples captureTime now i)) [0..<PLANKMicPacketFrames] ?m"
    using ok by (simp add: r_def mic_queue_submit_def Let_def)
  have "mic_contents r = drop (mq_count ?g + PLANKMicPacketFrames - PLANKMicQueueFrames) (mic_contents ?g) @
      mic_packet samples captureTime now"
    unfolding r a(2) m(2) frame mic_packet_def ..
  also have "\<dots> = mic_submitted samples sampleTime captureTime now q"
    using g(2) e(4) length_mic_contents [of ?g, symmetric]
    by (simp add: mic_submitted_def Let_def expire_has mic_packet_def del: length_mic_contents)
  finally show c: "mic_contents r = mic_submitted samples sampleTime captureTime now q" .
  have "mic_shape r" "mic_silent_outside r" "mic_average_ok r"
    unfolding r using a m h by (simp_all add: mic_average_ok_def)
  then show "mic_inv r" using mic_submitted_sorted(1) [OF inv] by (simp add: mic_inv_def c)
qed

section \<open>Rendering, in the window and on time\<close>




lemma sdiv_between:
  fixes d :: int
  shows "min 0 d \<le> d sdiv 32 \<and> d sdiv 32 \<le> max 0 d"
proof (cases "0 \<le> d")
  case True
  then have "d sdiv 32 = d div 32" by (auto simp: signed_divide_int_def sgn_if)
  moreover have "0 \<le> d div 32" "d div 32 \<le> d" using True by presburger+
  ultimately show ?thesis by simp
next
  case False
  then obtain e where e: "d = - e" "0 < e" by (metis minus_minus neg_0_less_iff_less not_le)
  then have "d sdiv 32 = - (e div 32)" by (simp add: signed_divide_int_def)
  moreover have "0 \<le> e div 32" "e div 32 \<le> e" using e(2) by presburger+
  ultimately show ?thesis using e by simp
qed

lemma mic_smooth_average: "mic_shape q \<Longrightarrow> mic_average_ok q \<Longrightarrow> mic_average_ok (mic_smooth q)"
  using sdiv_between [of "int (mq_count q) * 256 - mq_average256 q"]
  by (auto simp: mic_average_ok_def mic_smooth_def mic_shape_def min_def max_def split: if_splits)

lemma mic_prime_frame:
  "mic_shape (mic_prime q) = mic_shape q" "mic_contents (mic_prime q) = mic_contents q"
  "mic_silent_outside (mic_prime q) = mic_silent_outside q" "mq_count (mic_prime q) = mq_count q"
  by (simp_all add: mic_prime_def mic_shape_def mic_contents_def mic_silent_outside_def mic_at_def)

lemma mic_prime_average: "mic_shape q \<Longrightarrow> mic_average_ok q \<Longrightarrow> mic_average_ok (mic_prime q)"
  by (auto simp: mic_prime_def mic_average_ok_def mic_shape_def)

lemma mic_smooth_frame:
  "mic_shape (mic_smooth q) = mic_shape q" "mic_contents (mic_smooth q) = mic_contents q"
  "mic_silent_outside (mic_smooth q) = mic_silent_outside q" "mq_count (mic_smooth q) = mq_count q"
  by (simp_all add: mic_smooth_def mic_shape_def mic_contents_def mic_silent_outside_def mic_at_def)

lemma mic_consume_range:
  assumes "479 \<le> mq_count q"
  shows "mic_consume q \<in> {479, 480, 481}" "mic_consume q \<le> mq_count q"
proof -
  have "mq_count q = 479 \<or> mq_count q = 480 \<or> 481 \<le> mq_count q" using assms by linarith
  then show "mic_consume q \<in> {479, 480, 481}" "mic_consume q \<le> mq_count q"
    by (auto simp: mic_consume_def Let_def)
qed

text \<open>The queue a rendered block is taken from, and the one it leaves.\<close>

definition mic_ready :: "u64 \<Rightarrow> mic_queue \<Rightarrow> mic_queue" where
  "mic_ready now q = mic_smooth (mic_prime (mic_queue_expire now q))"

lemma mic_ready_inv:
  assumes "mic_inv q"
  shows "mic_inv (mic_ready now q)" "mic_contents (mic_ready now q) = mic_keep now (mic_contents q)"
proof -
  have e: "mic_shape (mic_queue_expire now q)" "mic_silent_outside (mic_queue_expire now q)"
    "mic_average_ok (mic_queue_expire now q)" "mic_contents (mic_queue_expire now q) = mic_keep now (mic_contents q)"
    and s: "sorted (map mf_arrived (mic_contents q))"
    using assms mic_expire_contents by (simp_all add: mic_inv_def)
  show c: "mic_contents (mic_ready now q) = mic_keep now (mic_contents q)"
    using e by (simp add: mic_ready_def mic_smooth_frame mic_prime_frame)
  have "mic_average_ok (mic_ready now q)"
    unfolding mic_ready_def using e by (intro mic_smooth_average mic_prime_average) (simp_all add: mic_prime_frame)
  then show "mic_inv (mic_ready now q)"
    using e c mic_keep_sorted(1) [OF s] by (simp add: mic_inv_def mic_ready_def mic_smooth_frame mic_prime_frame)
qed

lemma mic_render_eq:
  "mic_queue_render rd rf now q =
    (let q1 = mic_prime (mic_queue_expire now q); q2 = mic_ready now q; consume = mic_consume q2 in
     if \<not> mq_primed q1 \<or> mq_count q1 < 479
     then (False, replicate PLANKMicPacketFrames (0, 0), 0, q1\<lparr>mq_primed := False\<rparr>)
     else (True, map (mic_output rd rf consume q2) [0..<PLANKMicPacketFrames], mic_capture_time consume q2,
           mic_queue_discard consume q2))"
  by (simp add: mic_queue_render_def mic_ready_def Let_def)

lemma mic_discard_inv:
  assumes "mic_inv q" "n \<le> mq_count q"
  shows "mic_inv (mic_queue_discard n q)"
  using assms mic_discard_contents [of q n] sorted_wrt_drop [of "(\<le>)" "map mf_arrived (mic_contents q)" n]
  by (simp add: mic_inv_def flip: drop_map)

lemma mic_render_inv:
  assumes inv: "mic_inv q"
  shows "mic_inv (snd (snd (snd (mic_queue_render rd rf now q))))"
proof -
  let ?q1 = "mic_prime (mic_queue_expire now q)"
  show ?thesis
  proof (cases "\<not> mq_primed ?q1 \<or> mq_count ?q1 < 479")
    case True
    have "mic_inv (mic_queue_expire now q)" by (rule mic_expire_inv [OF inv])
    then have "mic_inv (?q1\<lparr>mq_primed := False\<rparr>)"
      using mic_prime_average [of "mic_queue_expire now q"]
      by (auto simp: mic_inv_def mic_prime_def mic_shape_def mic_contents_def mic_silent_outside_def mic_at_def mic_average_ok_def)
    then show ?thesis using True by (simp add: mic_render_eq)
  next
    case False
    then have "479 \<le> mq_count (mic_ready now q)" by (simp add: mic_ready_def mic_smooth_frame)
    then show ?thesis using False mic_discard_inv [OF mic_ready_inv(1) [OF inv] mic_consume_range(2)]
      by (simp add: mic_render_eq Let_def)
  qed
qed

lemma mic_flush_inv: "mic_inv q \<Longrightarrow> mic_inv (mic_queue_flush q)"
  by (simp add: mic_inv_def mic_flush_contents mic_average_flush)

lemma mic_clear_inv: "mic_inv q \<Longrightarrow> mic_inv (mic_queue_clear q)"
  using mic_flush_inv [of q]
  by (simp add: mic_inv_def mic_queue_clear_def mic_shape_def mic_contents_def mic_silent_outside_def mic_at_def mic_average_ok_def)

lemma mic_submit_inv: "mic_inv q \<Longrightarrow> mic_inv (snd (mic_queue_submit samples count sampleTime captureTime now q))"
proof (cases "mic_submit_ok samples count sampleTime captureTime q")
  case True
  moreover obtain xs where "samples = Some xs" using True by (cases samples) (auto simp: mic_submit_ok_def)
  moreover assume "mic_inv q"
  ultimately show ?thesis using mic_submit_contents(1) by blast
qed (simp add: mic_queue_submit_def)

section \<open>What the microphone queue guarantees\<close>

text \<open>C7: Every operation of the microphone queue, accepted or refused, keeps it well formed: at most 2880
  frames in order of arrival, an average that stays in range, and silence in every slot of the ring
  that is not part of the queue, so that muted, expired and played speech is gone from memory. After
  a clear the whole ring is silent.\<close>

theorem mic_queue_invariant:
  assumes "mic_inv q"
  shows "mic_inv (snd (mic_queue_submit samples count sampleTime captureTime now q)) \<and>
    mic_inv (snd (snd (snd (mic_queue_render rd rf now q)))) \<and>
    mic_inv (mic_queue_expire now q) \<and> mic_inv (mic_queue_flush q) \<and> mic_inv (mic_queue_clear q) \<and>
    mq_frames (mic_queue_clear q) = replicate PLANKMicQueueFrames silent_frame"
proof -
  have c: "mic_inv (mic_queue_clear q)" by (rule mic_clear_inv [OF assms])
  have empty: "mq_count (mic_queue_clear q) = 0" "mq_head (mic_queue_clear q) = 0"
    using assms mic_flush_contents(4) by (simp_all add: mic_queue_clear_def mic_inv_def mic_queue_flush_def)
  have "mq_frames (mic_queue_clear q) ! k = silent_frame" if "k < PLANKMicQueueFrames" for k
    using c empty that by (auto simp: mic_inv_def mic_silent_outside_def mic_at_def)
  then have "mq_frames (mic_queue_clear q) = replicate PLANKMicQueueFrames silent_frame"
    using c by (intro nth_equalityI) (simp_all add: mic_inv_def mic_shape_def)
  then show ?thesis
    using assms c mic_submit_inv mic_render_inv mic_expire_inv mic_flush_inv by blast
qed



text \<open>A queue that holds 20 ms of silence received at time 0.\<close>

definition demo_queue :: "nat \<Rightarrow> mic_queue" where
  "demo_queue n = \<lparr>mq_frames = replicate PLANKMicQueueFrames silent_frame, mq_next_sample = 0, mq_expired_frames = 0,
     mq_discarded_frames = 0, mq_head = 0, mq_count = n, mq_average256 = 0, mq_has_sample = False, mq_primed = False\<rparr>"

lemma demo_queue_at: "mic_at (demo_queue n) k = silent_frame"
  by (simp add: mic_at_def demo_queue_def)

lemma demo_queue_inv:
  assumes "n \<le> PLANKMicQueueFrames"
  shows "mic_inv (demo_queue n)"
proof -
  have "mic_contents (demo_queue n) = replicate n silent_frame"
    by (intro nth_equalityI) (simp_all add: mic_contents_def demo_queue_def)
  then show ?thesis using assms
    by (simp add: mic_inv_def mic_shape_def mic_silent_outside_def mic_average_ok_def demo_queue_at)
      (simp add: demo_queue_def)
qed

lemma mic_queue_invariant_witness:
  "mq_frames (mic_queue_clear (demo_queue 960)) = replicate PLANKMicQueueFrames silent_frame"
  using mic_queue_invariant [OF demo_queue_inv [of 960]] by simp





end
