(* ===== verification/Hal_Common.thy ===== *)
theory Hal_Common
  imports Complex_Main Prelude
begin

text \<open>
  What the two Core Audio plug-ins of the macOS host share,
  \<^verbatim>\<open>src/apps/host/macos/audio-device/output-driver.c\<close> and \<^verbatim>\<open>microphone-driver.c\<close>: property addresses, the
  values of IEEE floats, the reference count, the table of 64 clients and the device clock. Both files
  hold the same text for these with their own device number, which is the argument \<^verbatim>\<open>dev\<close> here; the
  theories of the drivers give it.

  The argument \<^verbatim>\<open>driver\<close> says whether the caller passes this plug-in's reference. Property selectors are
  the constructors of a data type, one for each code of the SDK that the sources name
  (\<^verbatim>\<open>kAudioStreamPropertyLatency\<close> is the code \<^verbatim>\<open>kAudioDevicePropertyLatency\<close>). The numeric codes of the SDK that the
  drivers report or compare are the fields of \<^verbatim>\<open>hal_codes\<close>. A critical section of the state lock is one step.
\<close>

abbreviation kAudioObjectUnknown :: u32 where "kAudioObjectUnknown \<equiv> 0"
abbreviation kAudioObjectPlugInObject :: u32 where "kAudioObjectPlugInObject \<equiv> 1"
abbreviation kAudioObjectPropertyElementMain :: u32 where "kAudioObjectPropertyElementMain \<equiv> 0"
abbreviation PLANKAudioZeroTimeStampPeriod :: nat where "PLANKAudioZeroTimeStampPeriod \<equiv> 15840"
abbreviation HalMaxClients :: nat where "HalMaxClients \<equiv> 64"

datatype os_status = NoErr | BadObject | IllegalOperation | UnknownProperty | BadPropertySize
  | UnsupportedOperation | UnsupportedFormat

datatype hal_scope = ScopeGlobal | ScopeInput | ScopeOutput | Other_Scope u32

datatype hal_selector =
    kAudioObjectPropertyBaseClass | kAudioObjectPropertyClass | kAudioObjectPropertyOwner
  | kAudioObjectPropertyName | kAudioObjectPropertyManufacturer | kAudioObjectPropertyOwnedObjects
  | kAudioObjectPropertyControlList
  | kAudioPlugInPropertyDeviceList | kAudioPlugInPropertyTranslateUIDToDevice | kAudioPlugInPropertyResourceBundle
  | kAudioDevicePropertyDeviceUID | kAudioDevicePropertyModelUID | kAudioDevicePropertyTransportType
  | kAudioDevicePropertyClockDomain | kAudioDevicePropertyDeviceIsAlive | kAudioDevicePropertyDeviceIsRunning
  | kAudioDevicePropertyIsHidden | kAudioDevicePropertyZeroTimeStampPeriod | kAudioDevicePropertyNominalSampleRate
  | kAudioDevicePropertyAvailableNominalSampleRates | kAudioDevicePropertyRelatedDevices
  | kAudioDevicePropertyDeviceCanBeDefaultDevice | kAudioDevicePropertyDeviceCanBeDefaultSystemDevice
  | kAudioDevicePropertyLatency | kAudioDevicePropertySafetyOffset
  | kAudioDevicePropertyPreferredChannelsForStereo | kAudioDevicePropertyStreams
  | kAudioDevicePropertyVolumeScalar | kAudioDevicePropertyMute
  | kAudioControlPropertyScope | kAudioControlPropertyElement | kAudioBooleanControlPropertyValue
  | kAudioLevelControlPropertyScalarValue | kAudioLevelControlPropertyDecibelValue
  | kAudioLevelControlPropertyDecibelRange | kAudioLevelControlPropertyConvertScalarToDecibels
  | kAudioLevelControlPropertyConvertDecibelsToScalar
  | kAudioStreamPropertyIsActive | kAudioStreamPropertyDirection | kAudioStreamPropertyTerminalType
  | kAudioStreamPropertyStartingChannel | kAudioStreamPropertyVirtualFormat | kAudioStreamPropertyPhysicalFormat
  | kAudioStreamPropertyAvailableVirtualFormats | kAudioStreamPropertyAvailablePhysicalFormats
  | Other_Selector u32

record hal_address =
  ad_selector :: hal_selector
  ad_scope :: hal_scope
  ad_element :: u32

record hal_codes =
  code_object_class :: u32
  code_plugin_class :: u32
  code_device_class :: u32
  code_stream_class :: u32
  code_level_class :: u32
  code_volume_class :: u32
  code_boolean_class :: u32
  code_mute_class :: u32
  code_transport_virtual :: u32
  code_terminal_speaker :: u32
  code_terminal_microphone :: u32
  code_scope_output :: u32
  code_linear_pcm :: u32
  code_native_float_packed :: u32

section \<open>Values of IEEE floats\<close>

datatype float_value = Finite rat | Infinite bool | Nan

text \<open>The value of the bit pattern \<^verbatim>\<open>n\<close> with \<^verbatim>\<open>e\<close> exponent bits and \<^verbatim>\<open>m\<close> fraction bits.\<close>

definition ieee_value :: "nat \<Rightarrow> nat \<Rightarrow> nat \<Rightarrow> float_value" where
  "ieee_value e m n =
     (let frac = n mod 2 ^ m; ex = n div 2 ^ m mod 2 ^ e; neg = n div 2 ^ (m + e) mod 2 = 1 in
      if ex = 2 ^ e - 1 then (if frac = 0 then Infinite neg else Nan)
      else Finite ((if neg then - 1 else 1) * of_nat ((if ex = 0 then frac else frac + 2 ^ m) * 2 ^ max ex 1) /
                   2 ^ (2 ^ (e - 1) - 1 + m)))"

definition float32 :: "bytes \<Rightarrow> float_value" where
  "float32 p = ieee_value 8 23 (unat (from_le32 p))"

definition float64 :: "bytes \<Rightarrow> float_value" where
  "float64 p = ieee_value 11 52 (unat (from_le32 p) + 2 ^ 32 * unat (from_le32 (drop 4 p)))"

fun isfinite :: "float_value \<Rightarrow> bool" where
  "isfinite (Finite x) = True"
| "isfinite _ = False"

text \<open>The comparison of C: false whenever an operand is not a number.\<close>

fun flt :: "float_value \<Rightarrow> float_value \<Rightarrow> bool" where
  "flt (Finite x) (Finite y) = (x < y)"
| "flt (Finite x) (Infinite neg) = (\<not> neg)"
| "flt (Infinite neg) (Finite y) = neg"
| "flt (Infinite neg) (Infinite neg') = (neg \<and> \<not> neg')"
| "flt _ _ = False"

definition fmaxf :: "float_value \<Rightarrow> float_value \<Rightarrow> float_value" where
  "fmaxf x y = (if x = Nan then y else if y = Nan then x else if flt x y then y else x)"

definition fminf :: "float_value \<Rightarrow> float_value \<Rightarrow> float_value" where
  "fminf x y = (if x = Nan then y else if y = Nan then x else if flt y x then y else x)"

section \<open>Data of the properties\<close>

record stream_format =
  sf_rate :: rat
  sf_id :: u32
  sf_flags :: u32
  sf_bytes_per_packet :: u32
  sf_frames_per_packet :: u32
  sf_bytes_per_frame :: u32
  sf_channels :: u32
  sf_bits :: u32

datatype hal_data =
    D_U32 u32 | D_Pair u32 u32 | D_Objects "u32 list" | D_String string | D_F32 float_value | D_F64 rat
  | D_Range rat rat | D_Format stream_format | D_Ranged stream_format rat rat

text \<open>The sizes the driver's \<^verbatim>\<open>sizeof\<close> expressions have for these on the 64-bit platform. The last member of
  \<^verbatim>\<open>AudioStreamBasicDescription\<close> is a reserved 32-bit word.\<close>

abbreviation size_U32 :: nat where "size_U32 \<equiv> 4"
abbreviation size_ObjectID :: nat where "size_ObjectID \<equiv> 4"
abbreviation size_Float32 :: nat where "size_Float32 \<equiv> 4"
abbreviation size_Float64 :: nat where "size_Float64 \<equiv> 8"
abbreviation size_CFStringRef :: nat where "size_CFStringRef \<equiv> 8"
abbreviation size_ValueRange :: nat where "size_ValueRange \<equiv> 16"
abbreviation size_Format :: nat where "size_Format \<equiv> 40"
abbreviation size_RangedFormat :: nat where "size_RangedFormat \<equiv> 56"

fun data_size :: "hal_data \<Rightarrow> nat" where
  "data_size (D_U32 v) = size_U32"
| "data_size (D_Pair v w) = 2 * size_U32"
| "data_size (D_Objects vs) = length vs * size_ObjectID"
| "data_size (D_String s) = size_CFStringRef"
| "data_size (D_F32 v) = size_Float32"
| "data_size (D_F64 v) = size_Float64"
| "data_size (D_Range a b) = size_ValueRange"
| "data_size (D_Format f) = size_Format"
| "data_size (D_Ranged f a b) = size_RangedFormat"

text \<open>The format in which a caller sets a stream format, against the fixed format of the driver.\<close>

definition format_matches :: "stream_format \<Rightarrow> bytes \<Rightarrow> bool" where
  "format_matches f p \<longleftrightarrow>
     float64 p = Finite (sf_rate f) \<and> from_le32 (drop 8 p) = sf_id f \<and> from_le32 (drop 12 p) = sf_flags f \<and>
     from_le32 (drop 16 p) = sf_bytes_per_packet f \<and> from_le32 (drop 20 p) = 1 \<and>
     from_le32 (drop 24 p) = 2 * 4 \<and> from_le32 (drop 28 p) = 2 \<and> from_le32 (drop 32 p) = 32"

text \<open>The first switch that has an answer.\<close>

fun first_answer :: "'a option list \<Rightarrow> 'a option" where
  "first_answer [] = None"
| "first_answer (Some x # xs) = Some x"
| "first_answer (None # xs) = first_answer xs"

section \<open>State of a driver\<close>

record hal_slot =
  hc_id :: u32
  hc_used :: bool
  hc_running :: bool

record hal_state =
  hs_host :: bool
  hs_clients :: "hal_slot list"
  hs_running :: u32
  hs_anchor :: u64
  hs_seed :: u64
  hs_ticks :: rat
  hs_references :: u32

definition hal_static :: hal_state where
  "hal_static = \<lparr>hs_host = False, hs_clients = replicate HalMaxClients \<lparr>hc_id = 0, hc_used = False, hc_running = False\<rparr>,
     hs_running = 0, hs_anchor = 0, hs_seed = 0, hs_ticks = 0, hs_references = 1\<rparr>"

datatype hresult = S_OK | E_POINTER | E_NOINTERFACE

text \<open>\<^verbatim>\<open>supported\<close>: the identifier is that of \<^verbatim>\<open>IUnknown\<close> or of the plug-in interface. The last component is
  the pointer stored, \<^verbatim>\<open>None\<close> when nothing is stored.\<close>

definition hal_query ::
  "bool \<Rightarrow> bool \<Rightarrow> bool \<Rightarrow> 'a hal_state_scheme \<Rightarrow> (hresult \<times> bool option) \<times> 'a hal_state_scheme" where
  "hal_query driver supported result s =
     (if \<not> result then ((E_POINTER, None), s)
      else if \<not> driver then ((E_NOINTERFACE, Some False), s)
      else if \<not> supported then ((E_NOINTERFACE, Some False), s)
      else ((S_OK, Some True), s\<lparr>hs_references := hs_references s + 1\<rparr>))"

definition hal_retain :: "bool \<Rightarrow> 'a hal_state_scheme \<Rightarrow> u32 \<times> 'a hal_state_scheme" where
  "hal_retain driver s =
     (if driver then (hs_references s + 1, s\<lparr>hs_references := hs_references s + 1\<rparr>) else (0, s))"

definition hal_release :: "bool \<Rightarrow> 'a hal_state_scheme \<Rightarrow> u32 \<times> 'a hal_state_scheme" where
  "hal_release driver s =
     (if \<not> driver then (0, s)
      else let v = hs_references s in
        if v \<noteq> 0 then (v - 1, s\<lparr>hs_references := v - 1\<rparr>) else (0, s))"

section \<open>The client table\<close>

fun find_client :: "u32 \<Rightarrow> hal_slot list \<Rightarrow> nat option" where
  "find_client c [] = None"
| "find_client c (x # xs) = (if hc_used x \<and> hc_id x = c then Some 0 else map_option Suc (find_client c xs))"

fun free_slot :: "hal_slot list \<Rightarrow> nat option" where
  "free_slot [] = None"
| "free_slot (x # xs) = (if \<not> hc_used x then Some 0 else map_option Suc (free_slot xs))"

definition hal_add_client ::
  "u32 \<Rightarrow> bool \<Rightarrow> u32 \<Rightarrow> u32 option \<Rightarrow> 'a hal_state_scheme \<Rightarrow> os_status \<times> 'a hal_state_scheme" where
  "hal_add_client dev driver device info s =
     (case info of
        None \<Rightarrow> (BadObject, s)
      | Some c \<Rightarrow>
          if \<not> driver \<or> device \<noteq> dev then (BadObject, s)
          else case find_client c (hs_clients s) of
            Some i \<Rightarrow> (NoErr, s)
          | None \<Rightarrow>
              (case free_slot (hs_clients s) of
                 None \<Rightarrow> (IllegalOperation, s)
               | Some i \<Rightarrow> (NoErr, s\<lparr>hs_clients :=
                   (hs_clients s)[i := \<lparr>hc_id = c, hc_used = True, hc_running = False\<rparr>]\<rparr>)))"

definition hal_remove_client ::
  "u32 \<Rightarrow> bool \<Rightarrow> u32 \<Rightarrow> u32 option \<Rightarrow> 'a hal_state_scheme \<Rightarrow> os_status \<times> 'a hal_state_scheme" where
  "hal_remove_client dev driver device info s =
     (case info of
        None \<Rightarrow> (BadObject, s)
      | Some c \<Rightarrow>
          if \<not> driver \<or> device \<noteq> dev then (BadObject, s)
          else case find_client c (hs_clients s) of
            None \<Rightarrow> (NoErr, s)
          | Some i \<Rightarrow>
              let x = hs_clients s ! i in
              (NoErr, s\<lparr>hs_running := (if hc_running x then hs_running s - 1 else hs_running s),
                 hs_clients := (hs_clients s)[i := x\<lparr>hc_used := False, hc_running := False\<rparr>]\<rparr>))"

text \<open>Starting and stopping IO of a client. \<^verbatim>\<open>restart\<close> is what the driver does, besides the clock, when the
  first client starts; \<^verbatim>\<open>now\<close> is \<^verbatim>\<open>mach_absolute_time()\<close>.\<close>

definition hal_restart_clock :: "u64 \<Rightarrow> 'a hal_state_scheme \<Rightarrow> 'a hal_state_scheme" where
  "hal_restart_clock now s = s\<lparr>hs_anchor := now, hs_seed := hs_seed s + 1\<rparr>"

definition hal_change_io ::
  "u32 \<Rightarrow> ('a hal_state_scheme \<Rightarrow> 'a hal_state_scheme) \<Rightarrow> bool \<Rightarrow> u32 \<Rightarrow> u32 \<Rightarrow> bool \<Rightarrow> u64 \<Rightarrow> 'a hal_state_scheme \<Rightarrow>
     os_status \<times> 'a hal_state_scheme" where
  "hal_change_io dev restart driver device client start now s =
     (if \<not> driver \<or> device \<noteq> dev \<or> \<not> hs_host s then (BadObject, s)
      else case find_client client (hs_clients s) of
        None \<Rightarrow> (IllegalOperation, s)
      | Some i \<Rightarrow>
          (NoErr,
           if hc_running (hs_clients s ! i) \<noteq> start
           then let s1 = s\<lparr>hs_clients := (hs_clients s)[i := (hs_clients s ! i)\<lparr>hc_running := start\<rparr>]\<rparr> in
             if start
             then let s2 = (if hs_running s1 = 0 then hal_restart_clock now (restart s1) else s1)
               in s2\<lparr>hs_running := hs_running s2 + 1\<rparr>
             else s1\<lparr>hs_running := hs_running s1 - 1\<rparr>
           else s))"

section \<open>The device clock\<close>

text \<open>\<^verbatim>\<open>rd\<close> rounds to the nearest \<^verbatim>\<open>double\<close>; the conversion to \<^verbatim>\<open>UInt64\<close> truncates.\<close>

definition hal_timestamp ::
  "u32 \<Rightarrow> (rat \<Rightarrow> rat) \<Rightarrow> bool \<Rightarrow> u32 \<Rightarrow> bool \<Rightarrow> u64 \<Rightarrow> 'a hal_state_scheme \<Rightarrow> os_status \<times> (rat \<times> u64 \<times> u64) option" where
  "hal_timestamp dev rd driver device results now s =
     (if \<not> driver \<or> device \<noteq> dev \<or> \<not> results \<or> \<not> hs_host s then (IllegalOperation, None)
      else let base = hs_anchor s;
               periods = of_int \<lfloor>rd (rd (of_nat (unat (now - base))) / rd (hs_ticks s * of_nat PLANKAudioZeroTimeStampPeriod))\<rfloor>;
               sample = rd (periods * of_nat PLANKAudioZeroTimeStampPeriod)
           in (NoErr, Some (sample, base + of_int \<lfloor>rd (sample * hs_ticks s)\<rfloor>, hs_seed s)))"

section \<open>Entry points without a state of their own\<close>

text \<open>A \<^verbatim>\<open>CFTypeRef\<close> behind the qualifier of \<^verbatim>\<open>TranslateUIDToDevice\<close>: null, a string, or something else.\<close>

datatype cf_ref = Cf_Null | Cf_String string | Cf_Other

datatype io_operation = IO_ReadInput | IO_WriteMix | IO_Other u32

definition hal_create :: "bool \<Rightarrow> os_status \<times> u32 option" where
  "hal_create result = (UnsupportedOperation, if result then Some kAudioObjectUnknown else None)"

definition hal_destroy :: os_status where
  "hal_destroy = UnsupportedOperation"

definition hal_configuration :: "u32 \<Rightarrow> bool \<Rightarrow> u32 \<Rightarrow> os_status" where
  "hal_configuration dev driver device = (if driver \<and> device = dev then UnsupportedOperation else BadObject)"

definition hal_factory :: "bool option \<Rightarrow> bool" where
  "hal_factory type = (case type of None \<Rightarrow> False | Some plugin_type \<Rightarrow> plugin_type)"

definition hal_boundary_io :: "u32 \<Rightarrow> nat \<Rightarrow> bool \<Rightarrow> u32 \<Rightarrow> u32 \<Rightarrow> os_status" where
  "hal_boundary_io dev max_io driver device frames =
     (if driver \<and> device = dev \<and> unat frames \<le> max_io then NoErr else IllegalOperation)"

definition hal_will_io :: "u32 \<Rightarrow> io_operation \<Rightarrow> bool \<Rightarrow> u32 \<Rightarrow> io_operation \<Rightarrow> bool \<Rightarrow> bool \<Rightarrow> os_status \<times> (bool \<times> bool) option" where
  "hal_will_io dev wanted driver device operation will inPlace =
     (if \<not> driver \<or> device \<noteq> dev \<or> \<not> will \<or> \<not> inPlace then (BadObject, None)
      else (NoErr, Some (operation = wanted, True)))"

text \<open>The first initialisation only: the clock starts and \<^verbatim>\<open>prepare\<close> does what else the driver does.
  \<^verbatim>\<open>numer\<close> and \<^verbatim>\<open>denom\<close> are the time base of the machine.\<close>

definition hal_initialize ::
  "(rat \<Rightarrow> rat) \<Rightarrow> ('a hal_state_scheme \<Rightarrow> 'a hal_state_scheme) \<Rightarrow> bool \<Rightarrow> bool \<Rightarrow> u32 \<Rightarrow> u32 \<Rightarrow> u64 \<Rightarrow>
     'a hal_state_scheme \<Rightarrow> os_status \<times> 'a hal_state_scheme" where
  "hal_initialize rd prepare driver owner numer denom now s =
     (if \<not> driver \<or> \<not> owner then (IllegalOperation, s)
      else (NoErr,
        if \<not> hs_host s
        then (prepare (s\<lparr>hs_ticks := rd (rd (rd (1000000000 / 48000) * of_nat (unat denom)) / of_nat (unat numer))\<rparr>))
               \<lparr>hs_anchor := now, hs_seed := 1, hs_host := True\<rparr>
        else s))"

section \<open>When the answers of a property table agree\<close>

lemma first_answer_Some: "first_answer xs = Some n \<Longrightarrow> Some n \<in> set xs"
  by (induction xs rule: first_answer.induct) auto

definition answers :: "os_status + hal_data \<Rightarrow> nat \<Rightarrow> bool" where
  "answers r n \<longleftrightarrow> (case r of Inl st \<Rightarrow> st = IllegalOperation \<or> st = BadPropertySize | Inr d \<Rightarrow> data_size d = n)"

text \<open>A reply of \<^verbatim>\<open>get\<close>, as status, size and value, agrees with \<^verbatim>\<open>has\<close> and with the announced size: it fails as unknown
  exactly when the property does not exist, and a success carries a value of the announced size within the
  caller's capacity.\<close>

definition get_agrees :: "bool \<Rightarrow> os_status + nat \<Rightarrow> nat \<Rightarrow> os_status \<times> nat option \<times> hal_data option \<Rightarrow> bool" where
  "get_agrees has announced capacity r \<longleftrightarrow>
     (case r of (status, actual, v) \<Rightarrow>
        (has \<longleftrightarrow> status \<noteq> BadObject \<and> status \<noteq> UnknownProperty) \<and>
        (status = NoErr \<longrightarrow> announced = Inr (the actual) \<and> the actual \<le> capacity \<and>
           the actual = (case v of None \<Rightarrow> 0 | Some d \<Rightarrow> data_size d)))"

end
