(* ===== verification/Hal_Clients.thy ===== *)
theory Hal_Clients
  imports Hal_Common
begin

text \<open>
  What the client table of the Core Audio plug-ins promises. The abstract table is a partial map from
  client numbers to whether the client runs IO, with the epoch (the clock seed) and the start of the
  device clock. The locale \<^verbatim>\<open>request_system\<close> is a simulation of an abstract request by a concrete one,
  carried to sequences of requests; \<^verbatim>\<open>client_table\<close> adds that the running count is the number of
  running clients. The lemmas show that the operations of \<^verbatim>\<open>Hal_Common\<close> satisfy both, for each driver.
\<close>

section \<open>Sequences of requests\<close>

fun run_requests :: "('r \<Rightarrow> 's \<Rightarrow> 'o \<times> 's) \<Rightarrow> 'r list \<Rightarrow> 's \<Rightarrow> 'o list \<times> 's" where
  "run_requests step [] s = ([], s)"
| "run_requests step (r # rs) s =
     (case step r s of (a, s') \<Rightarrow> case run_requests step rs s' of (as, s'') \<Rightarrow> (a # as, s''))"

locale request_system =
  fixes step :: "'r \<Rightarrow> 's \<Rightarrow> 'o \<times> 's" and spec :: "'r \<Rightarrow> 'a \<Rightarrow> 'o \<times> 'a"
    and view :: "'s \<Rightarrow> 'a" and invar :: "'s \<Rightarrow> bool"
  assumes step_invar: "invar s \<Longrightarrow> invar (snd (step r s))"
    and step_view: "invar s \<Longrightarrow> spec r (view s) = (fst (step r s), view (snd (step r s)))"
begin

lemma run_invar: "invar s \<Longrightarrow> invar (snd (run_requests step rs s))"
proof (induction rs arbitrary: s)
  case (Cons r rs)
  then show ?case using step_invar [OF Cons.prems, of r] by (auto simp: split_beta)
qed simp

lemma run_view:
  "invar s \<Longrightarrow> run_requests spec rs (view s) = (fst (run_requests step rs s), view (snd (run_requests step rs s)))"
proof (induction rs arbitrary: s)
  case (Cons r rs)
  then show ?case using step_invar [OF Cons.prems, of r] by (simp add: step_view split_beta)
qed simp

end

section \<open>The abstract client table\<close>

datatype client_request = Add_Client u32 | Remove_Client u32 | Start_IO u32 u64 | Stop_IO u32

record client_view =
  cv_table :: "u32 \<rightharpoonup> bool"
  cv_epoch :: u64
  cv_start :: u64

definition running_clients :: "(u32 \<rightharpoonup> bool) \<Rightarrow> u32 set" where
  "running_clients m = {c. m c = Some True}"

fun client_spec :: "client_request \<Rightarrow> client_view \<Rightarrow> os_status \<times> client_view" where
  "client_spec (Add_Client c) v =
     (if c \<in> dom (cv_table v) then (NoErr, v)
      else if card (dom (cv_table v)) < HalMaxClients then (NoErr, v\<lparr>cv_table := (cv_table v)(c \<mapsto> False)\<rparr>)
      else (IllegalOperation, v))"
| "client_spec (Remove_Client c) v = (NoErr, v\<lparr>cv_table := (cv_table v)(c := None)\<rparr>)"
| "client_spec (Start_IO c now) v =
     (if c \<notin> dom (cv_table v) then (IllegalOperation, v)
      else (NoErr,
        if running_clients (cv_table v) = {}
        then \<lparr>cv_table = (cv_table v)(c \<mapsto> True), cv_epoch = cv_epoch v + 1, cv_start = now\<rparr>
        else v\<lparr>cv_table := (cv_table v)(c \<mapsto> True)\<rparr>))"
| "client_spec (Stop_IO c) v =
     (if c \<notin> dom (cv_table v) then (IllegalOperation, v)
      else (NoErr, v\<lparr>cv_table := (cv_table v)(c \<mapsto> False)\<rparr>))"

locale client_table = request_system step client_spec view invar
  for step :: "client_request \<Rightarrow> 's \<Rightarrow> os_status \<times> 's" and view :: "'s \<Rightarrow> client_view" and invar :: "'s \<Rightarrow> bool" +
  fixes active :: "'s \<Rightarrow> u32"
  assumes active_count: "invar s \<Longrightarrow> unat (active s) = card (running_clients (cv_table (view s)))"
begin

lemma run_refines:
  assumes "invar s" "run_requests step rs s = (as, t)"
  shows "run_requests client_spec rs (view s) = (as, view t)
    \<and> unat (active t) = card (running_clients (cv_table (view t)))"
  using run_view [OF assms(1), of rs] active_count [OF run_invar [OF assms(1), of rs]] assms(2) by simp

end

section \<open>The table as a map\<close>

definition slot_map :: "hal_slot list \<Rightarrow> u32 \<rightharpoonup> bool" where
  "slot_map xs = map_of (map (\<lambda>x. (hc_id x, hc_running x)) (filter hc_used xs))"

definition slots_ok :: "hal_slot list \<Rightarrow> bool" where
  "slots_ok xs \<longleftrightarrow> length xs = HalMaxClients \<and> distinct (map hc_id (filter hc_used xs)) \<and>
     (\<forall>x \<in> set xs. hc_running x \<longrightarrow> hc_used x)"

definition hal_table_ok :: "'a hal_state_scheme \<Rightarrow> bool" where
  "hal_table_ok s \<longleftrightarrow> slots_ok (hs_clients s) \<and> unat (hs_running s) = length (filter hc_running (hs_clients s))"

definition hal_ok :: "'a hal_state_scheme \<Rightarrow> bool" where
  "hal_ok s \<longleftrightarrow> hs_host s \<and> slots_ok (hs_clients s) \<and> unat (hs_running s) = length (filter hc_running (hs_clients s))"

lemma hal_ok_table: "hal_ok s \<longleftrightarrow> hs_host s \<and> hal_table_ok s"
  by (simp add: hal_ok_def hal_table_ok_def)

definition hal_view :: "'a hal_state_scheme \<Rightarrow> client_view" where
  "hal_view s = \<lparr>cv_table = slot_map (hs_clients s), cv_epoch = hs_seed s, cv_start = hs_anchor s\<rparr>"

lemma find_client_split:
  "find_client c xs = Some i \<Longrightarrow>
     \<exists>as x bs. xs = as @ x # bs \<and> length as = i \<and> hc_used x \<and> hc_id x = c \<and> c \<notin> hc_id ` set (filter hc_used as)"
proof (induction xs arbitrary: i)
  case (Cons y ys)
  show ?case
  proof (cases "hc_used y \<and> hc_id y = c")
    case True
    then show ?thesis using Cons.prems by (intro exI [of _ "[]"]) auto
  next
    case False
    then obtain j where j: "find_client c ys = Some j" "i = Suc j" using Cons.prems by auto
    from Cons.IH [OF j(1)] obtain as x bs where
      "ys = as @ x # bs" "length as = j" "hc_used x" "hc_id x = c" "c \<notin> hc_id ` set (filter hc_used as)" by blast
    then show ?thesis using False j(2) by (intro exI [of _ "y # as"]) auto
  qed
qed simp

lemma find_client_None: "find_client c xs = None \<longleftrightarrow> c \<notin> hc_id ` set (filter hc_used xs)"
  by (induction xs) auto

lemma free_slot_split:
  "free_slot xs = Some i \<Longrightarrow> \<exists>as x bs. xs = as @ x # bs \<and> length as = i \<and> \<not> hc_used x"
proof (induction xs arbitrary: i)
  case (Cons y ys)
  show ?case
  proof (cases "hc_used y")
    case True
    then obtain j where j: "free_slot ys = Some j" "i = Suc j" using Cons.prems by auto
    from Cons.IH [OF j(1)] obtain as x bs where "ys = as @ x # bs" "length as = j" "\<not> hc_used x" by blast
    then show ?thesis using j(2) by (intro exI [of _ "y # as"]) auto
  qed (use Cons.prems in \<open>intro exI [of _ "[]"]; auto\<close>)
qed simp

lemma free_slot_None: "free_slot xs = None \<longleftrightarrow> filter hc_used xs = xs"
proof (induction xs)
  case (Cons x xs)
  have "filter hc_used xs \<noteq> x # xs" using length_filter_le [of hc_used xs] by (metis Suc_n_not_le_n length_Cons)
  then show ?case using Cons by simp
qed simp

lemma slot_map_Cons [simp]:
  "slot_map (x # xs) = (if hc_used x then (slot_map xs)(hc_id x \<mapsto> hc_running x) else slot_map xs)"
  by (simp add: slot_map_def)

lemma slot_map_append [simp]: "slot_map (as @ bs) = slot_map bs ++ slot_map as"
  by (simp add: slot_map_def)

lemma slot_map_None: "slot_map xs c = None \<longleftrightarrow> c \<notin> hc_id ` set (filter hc_used xs)"
  by (force simp: slot_map_def map_of_eq_None_iff)

lemma dom_slot_map: "dom (slot_map xs) = hc_id ` set (filter hc_used xs)"
  unfolding dom_def by (simp add: slot_map_None)

lemma map_add_upd_outside: "m c = None \<Longrightarrow> n(c \<mapsto> v) ++ m = (n ++ m)(c \<mapsto> v)"
  by (auto simp: fun_eq_iff map_add_def split: option.split)

lemma map_add_delete: "m c = None \<Longrightarrow> n c = None \<Longrightarrow> ((n ++ m)(c \<mapsto> v))(c := None) = n ++ m"
  by (auto simp: fun_eq_iff map_add_def)

text \<open>The three ways a slot changes: a new value for its client, given up, taken.\<close>

lemma slot_map_change:
  assumes "hc_id x \<notin> hc_id ` set (filter hc_used as)" "hc_used x" "hc_used y" "hc_id y = hc_id x"
  shows "slot_map (as @ y # bs) = (slot_map (as @ x # bs))(hc_id x \<mapsto> hc_running y)"
  using assms by (simp add: map_add_upd_outside slot_map_None)

lemma slot_map_free:
  assumes "distinct (map hc_id (filter hc_used (as @ x # bs)))" "hc_used x" "\<not> hc_used y"
  shows "slot_map (as @ y # bs) = (slot_map (as @ x # bs))(hc_id x := None)"
proof -
  have "slot_map as (hc_id x) = None" "slot_map bs (hc_id x) = None"
    using assms(1,2) by (auto simp: slot_map_None)
  then show ?thesis using assms(2,3) by (simp add: map_add_upd_outside map_add_delete del: fun_upd_upd)
qed

lemma slot_map_take:
  assumes "\<not> hc_used x" "hc_used y" "hc_id y \<notin> hc_id ` set (filter hc_used (as @ x # bs))"
  shows "slot_map (as @ y # bs) = (slot_map (as @ x # bs))(hc_id y \<mapsto> hc_running y)"
proof -
  have "slot_map as (hc_id y) = None" using assms(3) by (auto simp: slot_map_None)
  then show ?thesis using assms(1,2) by (simp add: map_add_upd_outside)
qed

lemma card_dom_slot_map: "slots_ok xs \<Longrightarrow> card (dom (slot_map xs)) = length (filter hc_used xs)"
  using distinct_card [of "map hc_id (filter hc_used xs)"] by (simp add: dom_slot_map slots_ok_def)

lemma card_running:
  assumes "slots_ok xs"
  shows "card (running_clients (slot_map xs)) = length (filter hc_running xs)"
proof -
  have d: "distinct (map hc_id (filter hc_used xs))" and r: "\<And>x. x \<in> set xs \<Longrightarrow> hc_running x \<Longrightarrow> hc_used x"
    using assms by (auto simp: slots_ok_def)
  have u: "filter hc_running (filter hc_used xs) = filter hc_running xs"
    using r by (auto intro: filter_cong)
  have "distinct (map fst (map (\<lambda>x. (hc_id x, hc_running x)) (filter hc_used xs)))"
    using d by (simp add: comp_def)
  then have "running_clients (slot_map xs) = hc_id ` set (filter hc_running (filter hc_used xs))"
    by (force simp: running_clients_def slot_map_def map_of_eq_Some_iff)
  then have "running_clients (slot_map xs) = set (map hc_id (filter hc_running xs))"
    unfolding u by simp
  moreover have "distinct (map hc_id (filter hc_running xs))"
    using distinct_map_filter [OF d, of hc_running] unfolding u .
  ultimately show ?thesis by (metis distinct_card length_map)
qed

lemma running_clients_empty: "slots_ok xs \<Longrightarrow> running_clients (slot_map xs) = {} \<longleftrightarrow> filter hc_running xs = []"
proof -
  assume a: "slots_ok xs"
  have "running_clients (slot_map xs) \<subseteq> dom (slot_map xs)" by (auto simp: running_clients_def)
  moreover have "finite (dom (slot_map xs))" by (simp add: dom_slot_map)
  ultimately have "finite (running_clients (slot_map xs))" by (rule finite_subset)
  then show ?thesis using card_running [OF a] by (simp flip: card_0_eq)
qed

section \<open>The operations keep the promise\<close>

definition keeps_hal :: "('a hal_state_scheme \<Rightarrow> 'a hal_state_scheme) \<Rightarrow> bool" where
  "keeps_hal f \<longleftrightarrow> (\<forall>s. hs_host (f s) = hs_host s \<and> hs_clients (f s) = hs_clients s \<and>
     hs_running (f s) = hs_running s \<and> hs_seed (f s) = hs_seed s)"

fun hal_request ::
  "u32 \<Rightarrow> ('a hal_state_scheme \<Rightarrow> 'a hal_state_scheme) \<Rightarrow> client_request \<Rightarrow> 'a hal_state_scheme \<Rightarrow>
     os_status \<times> 'a hal_state_scheme" where
  "hal_request dev restart (Add_Client c) s = hal_add_client dev True dev (Some c) s"
| "hal_request dev restart (Remove_Client c) s = hal_remove_client dev True dev (Some c) s"
| "hal_request dev restart (Start_IO c now) s = hal_change_io dev restart True dev c True now s"
| "hal_request dev restart (Stop_IO c) s = hal_change_io dev restart True dev c False 0 s"

definition hal_simulates ::
  "(client_request \<Rightarrow> 'a hal_state_scheme \<Rightarrow> os_status \<times> 'a hal_state_scheme) \<Rightarrow> client_request \<Rightarrow> 'a hal_state_scheme \<Rightarrow> bool" where
  "hal_simulates step r s \<longleftrightarrow> hal_ok (snd (step r s)) \<and>
     client_spec r (hal_view s) = (fst (step r s), hal_view (snd (step r s)))"

lemma hal_okD:
  assumes "hal_ok s"
  shows "hs_host s" "slots_ok (hs_clients s)" "unat (hs_running s) = length (filter hc_running (hs_clients s))"
  using assms by (simp_all add: hal_ok_def)

lemma hal_ok_running_le: "hal_ok s \<Longrightarrow> unat (hs_running s) \<le> HalMaxClients"
  using length_filter_le [of hc_running "hs_clients s"] by (simp add: hal_ok_def slots_ok_def)

lemma split_slot:
  "length as = i \<Longrightarrow> (as @ x # bs)[i := y] = as @ y # bs" "length as = i \<Longrightarrow> (as @ x # bs) ! i = x"
  by auto

lemma add_simulates:
  assumes "hal_ok s"
  shows "hal_simulates (hal_request dev restart) (Add_Client c) s"
proof (cases "find_client c (hs_clients s)")
  case (Some i)
  then have "c \<in> dom (slot_map (hs_clients s))"
    by (metis dom_slot_map find_client_None option.distinct(1))
  then show ?thesis using Some assms by (simp add: hal_simulates_def hal_add_client_def hal_view_def domIff)
next
  case None
  note ok = hal_okD [OF assms]
  have d: "c \<notin> dom (slot_map (hs_clients s))" using None by (simp add: dom_slot_map find_client_None)
  show ?thesis
  proof (cases "free_slot (hs_clients s)")
    case (Some i)
    then obtain as x bs where x: "hs_clients s = as @ x # bs" "length as = i" "\<not> hc_used x"
      using free_slot_split by blast
    have n: "\<not> hc_running x" using ok(2) x by (auto simp: slots_ok_def)
    have fresh: "c \<notin> hc_id ` set (filter hc_used (as @ x # bs))"
      using d unfolding x(1) [symmetric] by (simp add: dom_slot_map)
    have "card (dom (slot_map (hs_clients s))) = length (filter hc_used (as @ x # bs))"
      unfolding x(1) [symmetric] by (rule card_dom_slot_map [OF ok(2)])
    also have "\<dots> < HalMaxClients"
      using ok(2) x length_filter_le [of hc_used as] length_filter_le [of hc_used bs]
      by (simp add: slots_ok_def del: length_filter_le)
    finally have "card (dom (slot_map (hs_clients s))) < HalMaxClients" .
    moreover have "slot_map (as @ \<lparr>hc_id = c, hc_used = True, hc_running = False\<rparr> # bs) = (slot_map (hs_clients s))(c \<mapsto> False)"
      using slot_map_take [OF x(3), of "\<lparr>hc_id = c, hc_used = True, hc_running = False\<rparr>" as bs] fresh x(1) by simp
    moreover have "slots_ok (as @ \<lparr>hc_id = c, hc_used = True, hc_running = False\<rparr> # bs)"
      using ok(2) fresh x by (auto simp: slots_ok_def)
    ultimately show ?thesis
      using None Some d x n ok
      by (simp add: hal_simulates_def hal_add_client_def hal_view_def hal_ok_def split_slot
          del: slot_map_append slot_map_Cons)
  next
    case fs: None
    then have "card (dom (slot_map (hs_clients s))) = HalMaxClients"
      using ok(2) by (simp add: card_dom_slot_map free_slot_None) (simp add: slots_ok_def)
    then show ?thesis using None fs d assms by (simp add: hal_simulates_def hal_add_client_def hal_view_def)
  qed
qed

lemma remove_simulates:
  assumes "hal_ok s"
  shows "hal_simulates (hal_request dev restart) (Remove_Client c) s"
proof (cases "find_client c (hs_clients s)")
  case None
  then have "slot_map (hs_clients s) c = None" by (simp add: slot_map_None find_client_None)
  then have "(slot_map (hs_clients s))(c := None) = slot_map (hs_clients s)" by auto
  then show ?thesis using None assms by (simp add: hal_simulates_def hal_remove_client_def hal_view_def)
next
  case (Some i)
  note ok = hal_okD [OF assms]
  obtain as x bs where x: "hs_clients s = as @ x # bs" "length as = i" "hc_used x" "hc_id x = c"
    using find_client_split [OF Some] by blast
  let ?y = "x\<lparr>hc_used := False, hc_running := False\<rparr>"
  have "slot_map (as @ ?y # bs) = (slot_map (hs_clients s))(c := None)"
    using slot_map_free [of as x bs ?y] ok(2) x by (simp add: slots_ok_def)
  moreover have "slots_ok (as @ ?y # bs)" using ok(2) x by (auto simp: slots_ok_def)
  moreover have "hc_running x \<Longrightarrow> unat (hs_running s - 1) = unat (hs_running s) - 1"
    using ok(3) x by (subst unat_minus_one) auto
  ultimately show ?thesis
    using Some x ok
    by (cases "hc_running x") (simp_all add: hal_simulates_def hal_remove_client_def hal_view_def hal_ok_def
        Let_def split_slot del: slot_map_append slot_map_Cons)
qed

lemma change_simulates:
  assumes "hal_ok s" "keeps_hal restart" "r = (if start then Start_IO c now else Stop_IO c)"
    "step = (\<lambda>_. hal_change_io dev restart True dev c start now)"
  shows "hal_simulates step r s"
proof (cases "find_client c (hs_clients s)")
  case None
  then have "c \<notin> dom (slot_map (hs_clients s))" by (simp add: dom_slot_map find_client_None)
  then show ?thesis using None assms by (simp add: hal_simulates_def hal_change_io_def hal_view_def hal_okD)
next
  case (Some i)
  note ok = hal_okD [OF assms(1)]
  obtain as x bs where x: "hs_clients s = as @ x # bs" "length as = i" "hc_used x" "hc_id x = c"
    and first: "c \<notin> hc_id ` set (filter hc_used as)"
    using find_client_split [OF Some] by blast
  let ?y = "x\<lparr>hc_running := start\<rparr>"
  have m: "slot_map (as @ ?y # bs) = (slot_map (hs_clients s))(c \<mapsto> start)"
    using slot_map_change [of x as ?y bs] first x by simp
  have same: "slot_map (hs_clients s) = (slot_map (hs_clients s))(c \<mapsto> start)" if "hc_running x = start"
  proof -
    have "?y = x" using that by (cases x) simp
    then show ?thesis using m x(1) by metis
  qed
  have d: "c \<in> dom (slot_map (hs_clients s))" using x by (simp add: dom_slot_map)
  have so: "slots_ok (as @ ?y # bs)" using ok(2) x by (auto simp: slots_ok_def)
  have k: "hs_host (restart t) = hs_host t" "hs_clients (restart t) = hs_clients t"
    "hs_running (restart t) = hs_running t" "hs_seed (restart t) = hs_seed t" for t
    using assms(2) by (simp_all add: keeps_hal_def)
  have e: "running_clients (slot_map (hs_clients s)) = {} \<longleftrightarrow> hs_running s = 0"
    using running_clients_empty [OF ok(2)] ok(3) by (metis length_0_conv unat_eq_zero)
  have z: "hs_running s = 0 \<longrightarrow> filter hc_running (hs_clients s) = []" using ok(3) by auto
  show ?thesis
  proof (cases "hc_running x = start")
    case True
    have "running_clients (slot_map (hs_clients s)) \<noteq> {}" if "start"
      using running_clients_empty [OF ok(2)] True that x(1) by simp
    then show ?thesis
      using True Some x d assms(1,3,4) same [OF True, symmetric] ok(1)
      by (cases start) (simp_all add: hal_simulates_def hal_change_io_def hal_view_def split_slot
          del: slot_map_append slot_map_Cons)
  next
    case False
    have up: "unat (hs_running s + 1) = unat (hs_running s) + 1"
      using hal_ok_running_le [OF assms(1)] by (simp add: unat_word_ariths)
    have down: "\<not> start \<Longrightarrow> unat (hs_running s - 1) = unat (hs_running s) - 1"
      using ok(3) x False by (subst unat_minus_one) auto
    show ?thesis
      using False Some x d assms(1,3,4) m so ok e z up down
      by (cases start) (simp_all add: hal_simulates_def hal_change_io_def hal_view_def hal_ok_def hal_restart_clock_def
          Let_def k split_slot del: slot_map_append slot_map_Cons)
  qed
qed

lemma hal_request_simulates:
  assumes "hal_ok s" "keeps_hal restart"
  shows "hal_simulates (hal_request dev restart) r s"
proof (cases r)
  case (Start_IO c now)
  then show ?thesis
    using change_simulates [OF assms, of r True c now _ dev] by (simp add: hal_simulates_def)
next
  case (Stop_IO c)
  then show ?thesis
    using change_simulates [OF assms, of r False c 0 _ dev] by (simp add: hal_simulates_def)
qed (use assms add_simulates remove_simulates in blast)+

lemma hal_client_table:
  assumes "keeps_hal restart"
  shows "client_table (hal_request dev restart) hal_view hal_ok hs_running"
proof
  fix s :: "'a hal_state_scheme" and r
  assume ok: "hal_ok s"
  show "hal_ok (snd (hal_request dev restart r s))"
    and "client_spec r (hal_view s) = (fst (hal_request dev restart r s), hal_view (snd (hal_request dev restart r s)))"
    using hal_request_simulates [OF ok assms, of dev r] by (simp_all add: hal_simulates_def)
  show "unat (hs_running s) = card (running_clients (cv_table (hal_view s)))"
    using ok by (simp add: hal_ok_def hal_view_def card_running)
qed

text \<open>The table stays well formed whatever a caller passes, attached host or not.\<close>

lemma hal_table_request:
  assumes "hal_table_ok s" "keeps_hal restart"
  shows "hal_table_ok (snd (hal_request dev restart r (s\<lparr>hs_host := True\<rparr>)))"
proof -
  have "hal_ok (s\<lparr>hs_host := True\<rparr>)" using assms(1) by (simp add: hal_ok_table hal_table_ok_def)
  from hal_request_simulates [OF this assms(2)] show ?thesis by (simp add: hal_simulates_def hal_ok_table)
qed

lemma hal_table_add:
  assumes "hal_table_ok s"
  shows "hal_table_ok (snd (hal_add_client dev driver device info s))"
proof (cases info)
  case (Some c)
  have "keeps_hal (\<lambda>s. s)" by (simp add: keeps_hal_def)
  from hal_table_request [OF assms this, of dev "Add_Client c"] show ?thesis
    using assms Some by (auto simp: hal_add_client_def hal_table_ok_def split: option.splits)
qed (use assms in \<open>simp add: hal_add_client_def\<close>)

lemma hal_table_remove:
  assumes "hal_table_ok s"
  shows "hal_table_ok (snd (hal_remove_client dev driver device info s))"
proof (cases info)
  case (Some c)
  have "keeps_hal (\<lambda>s. s)" by (simp add: keeps_hal_def)
  from hal_table_request [OF assms this, of dev "Remove_Client c"] show ?thesis
    using assms Some by (auto simp: hal_remove_client_def hal_table_ok_def Let_def split: option.splits)
qed (use assms in \<open>simp add: hal_remove_client_def\<close>)

lemma hal_table_change:
  assumes "hal_table_ok s" "keeps_hal restart"
  shows "hal_table_ok (snd (hal_change_io dev restart driver device client start now s))"
proof (cases "driver \<and> device = dev \<and> hs_host s")
  case True
  then have "hal_ok s" using assms(1) by (simp add: hal_ok_table)
  from change_simulates [OF this assms(2) refl refl, where start = start and c = client and now = now and dev = dev] True
  show ?thesis by (simp add: hal_simulates_def hal_ok_table)
qed (use assms(1) in \<open>simp add: hal_change_io_def\<close>)

lemma hal_static_table: "hal_table_ok hal_static"
  by (simp add: hal_table_ok_def hal_static_def slots_ok_def filter_replicate)

end
