(* ===== verification/Output_Driver.thy ===== *)
theory Output_Driver
  imports Hal_Clients
begin

text \<open>
  The virtual loudspeaker of the macOS host, \<^verbatim>\<open>src/apps/host/macos/audio-device/output-driver.c\<close>: a Core Audio
  plug-in with one device, one stream, a volume and a mute control. A property request names an object, a
  selector, a scope and an element; \<^verbatim>\<open>propertySize\<close> decides whether it exists and how large its value is,
  \<^verbatim>\<open>get\<close> and \<^verbatim>\<open>set\<close> follow it.

  The result of \<^verbatim>\<open>get\<close> is the status, the size stored through \<^verbatim>\<open>actual\<close> and the value copied to \<^verbatim>\<open>data\<close>; the
  argument of \<^verbatim>\<open>set\<close> is the bytes the caller passes. The functions of the C library that compute decibels
  are the fields of \<^verbatim>\<open>float_ops\<close>, with the rounding of their results.
\<close>

abbreviation OutputDevice :: u32 where "OutputDevice \<equiv> 2"
abbreviation OutputStream :: u32 where "OutputStream \<equiv> 3"
abbreviation OutputVolume :: u32 where "OutputVolume \<equiv> 4"
abbreviation OutputMute :: u32 where "OutputMute \<equiv> 5"
abbreviation PLANKOutputRate :: nat where "PLANKOutputRate \<equiv> 48000"
abbreviation PLANKOutputMaxIO :: nat where "PLANKOutputMaxIO \<equiv> 8192"
abbreviation PLANK_OUTPUT_DEVICE_UID :: string where "PLANK_OUTPUT_DEVICE_UID \<equiv> ''la.instinctual.PLANK.Output''"

record output_state = hal_state +
  os_gain :: float_value
  os_mute :: u32

record float_ops =
  fo_log10f :: "float_value \<Rightarrow> float_value"
  fo_powf10 :: "float_value \<Rightarrow> float_value"
  fo_mul20 :: "float_value \<Rightarrow> float_value"
  fo_div20 :: "float_value \<Rightarrow> float_value"

definition outputFormat :: "hal_codes \<Rightarrow> stream_format" where
  "outputFormat k = \<lparr>sf_rate = of_nat PLANKOutputRate, sf_id = code_linear_pcm k, sf_flags = code_native_float_packed k,
     sf_bytes_per_packet = 2 * 4, sf_frames_per_packet = 1, sf_bytes_per_frame = 2 * 4, sf_channels = 2, sf_bits = 32\<rparr>"

definition output_static :: output_state where
  "output_static = hal_state.extend hal_static \<lparr>os_gain = Finite 1, os_mute = 0\<rparr>"

definition output_objectExists :: "u32 \<Rightarrow> bool" where
  "output_objectExists object \<longleftrightarrow> object = kAudioObjectPlugInObject \<or> object = OutputDevice \<or> object = OutputStream \<or>
     object = OutputVolume \<or> object = OutputMute"

section \<open>Which properties exist\<close>

text \<open>The switches of \<^verbatim>\<open>propertySize\<close>, in the order of the code; each gives its answer or falls through.\<close>

definition output_global_size :: "u32 \<Rightarrow> hal_selector \<Rightarrow> nat option" where
  "output_global_size object sel =
     (if sel = kAudioObjectPropertyBaseClass \<or> sel = kAudioObjectPropertyClass \<or> sel = kAudioObjectPropertyOwner
      then Some size_U32
      else if sel = kAudioObjectPropertyName \<or> sel = kAudioObjectPropertyManufacturer then Some size_CFStringRef
      else if sel = kAudioObjectPropertyOwnedObjects
      then Some (if object = OutputDevice then 3 * size_ObjectID
                 else if object = kAudioObjectPlugInObject then size_ObjectID else 0)
      else None)"

definition output_plugin_size :: "hal_selector \<Rightarrow> nat option" where
  "output_plugin_size sel =
     (if sel = kAudioPlugInPropertyDeviceList \<or> sel = kAudioPlugInPropertyTranslateUIDToDevice then Some size_ObjectID
      else if sel = kAudioPlugInPropertyResourceBundle then Some size_CFStringRef
      else None)"

definition output_device_size :: "hal_scope \<Rightarrow> hal_selector \<Rightarrow> nat option" where
  "output_device_size scope sel =
     (if scope = ScopeGlobal
      then if sel = kAudioDevicePropertyDeviceUID \<or> sel = kAudioDevicePropertyModelUID then Some size_CFStringRef
        else if sel = kAudioDevicePropertyTransportType \<or> sel = kAudioDevicePropertyClockDomain \<or>
          sel = kAudioDevicePropertyDeviceIsAlive \<or> sel = kAudioDevicePropertyDeviceIsRunning \<or>
          sel = kAudioDevicePropertyIsHidden \<or> sel = kAudioDevicePropertyZeroTimeStampPeriod then Some size_U32
        else if sel = kAudioDevicePropertyNominalSampleRate then Some size_Float64
        else if sel = kAudioDevicePropertyAvailableNominalSampleRates then Some size_ValueRange
        else if sel = kAudioObjectPropertyControlList then Some (2 * size_ObjectID)
        else if sel = kAudioDevicePropertyRelatedDevices then Some size_ObjectID
        else if sel = kAudioDevicePropertyStreams then Some size_ObjectID
        else None
      else if scope = ScopeInput \<or> scope = ScopeOutput
      then if sel = kAudioDevicePropertyDeviceCanBeDefaultDevice \<or>
          sel = kAudioDevicePropertyDeviceCanBeDefaultSystemDevice \<or>
          sel = kAudioDevicePropertyLatency \<or> sel = kAudioDevicePropertySafetyOffset then Some size_U32
        else if sel = kAudioDevicePropertyPreferredChannelsForStereo
        then (if scope = ScopeOutput then Some (size_U32 * 2) else None)
        else if sel = kAudioDevicePropertyStreams \<or> sel = kAudioObjectPropertyOwnedObjects
        then Some (if scope = ScopeOutput then size_ObjectID else 0)
        else None
      else None)"

definition output_device_control_size :: "hal_selector \<Rightarrow> nat option" where
  "output_device_control_size sel =
     (if sel = kAudioDevicePropertyVolumeScalar then Some size_Float32
      else if sel = kAudioDevicePropertyMute then Some size_U32
      else None)"

definition output_control_size :: "u32 \<Rightarrow> hal_selector \<Rightarrow> nat option" where
  "output_control_size object sel =
     (if sel = kAudioControlPropertyScope \<or> sel = kAudioControlPropertyElement then Some size_U32
      else if sel = kAudioBooleanControlPropertyValue then (if object = OutputMute then Some size_U32 else None)
      else if sel = kAudioLevelControlPropertyScalarValue \<or> sel = kAudioLevelControlPropertyDecibelValue \<or>
        sel = kAudioLevelControlPropertyConvertScalarToDecibels \<or> sel = kAudioLevelControlPropertyConvertDecibelsToScalar
      then (if object = OutputVolume then Some size_Float32 else None)
      else if sel = kAudioLevelControlPropertyDecibelRange
      then (if object = OutputVolume then Some size_ValueRange else None)
      else None)"

definition output_stream_size :: "hal_selector \<Rightarrow> nat option" where
  "output_stream_size sel =
     (if sel = kAudioStreamPropertyIsActive \<or> sel = kAudioStreamPropertyDirection \<or> sel = kAudioStreamPropertyTerminalType \<or>
        sel = kAudioStreamPropertyStartingChannel \<or> sel = kAudioDevicePropertyLatency then Some size_U32
      else if sel = kAudioStreamPropertyVirtualFormat \<or> sel = kAudioStreamPropertyPhysicalFormat then Some size_Format
      else if sel = kAudioStreamPropertyAvailableVirtualFormats \<or> sel = kAudioStreamPropertyAvailablePhysicalFormats
      then Some size_RangedFormat
      else None)"

definition output_size_answers :: "u32 \<Rightarrow> hal_scope \<Rightarrow> hal_selector \<Rightarrow> nat option list" where
  "output_size_answers object scope sel =
     [if scope = ScopeGlobal then output_global_size object sel else None,
      if object = kAudioObjectPlugInObject \<and> scope = ScopeGlobal then output_plugin_size sel else None,
      if object = OutputDevice then output_device_size scope sel else None,
      if object = OutputDevice \<and> scope = ScopeOutput then output_device_control_size sel else None,
      if (object = OutputVolume \<or> object = OutputMute) \<and> scope = ScopeGlobal then output_control_size object sel else None,
      if object = OutputStream \<and> scope = ScopeGlobal then output_stream_size sel else None]"

definition output_propertySize :: "u32 \<Rightarrow> hal_address option \<Rightarrow> bool \<Rightarrow> os_status + nat" where
  "output_propertySize object address result =
     (case address of
        None \<Rightarrow> Inl BadObject
      | Some a \<Rightarrow>
          if \<not> result \<or> \<not> output_objectExists object then Inl BadObject
          else if ad_element a \<noteq> kAudioObjectPropertyElementMain then Inl UnknownProperty
          else if ad_scope a \<notin> {ScopeGlobal, ScopeInput, ScopeOutput} then Inl UnknownProperty
          else case first_answer (output_size_answers object (ad_scope a) (ad_selector a)) of
            None \<Rightarrow> Inl UnknownProperty
          | Some n \<Rightarrow> Inr n)"

definition output_has :: "bool \<Rightarrow> u32 \<Rightarrow> hal_address option \<Rightarrow> bool" where
  "output_has driver object address \<longleftrightarrow> driver \<and> (case output_propertySize object address True of Inl _ \<Rightarrow> False | Inr _ \<Rightarrow> True)"

definition output_writable :: "u32 \<Rightarrow> hal_selector \<Rightarrow> bool" where
  "output_writable object sel \<longleftrightarrow>
     object = OutputDevice \<and> (sel = kAudioDevicePropertyNominalSampleRate \<or> sel = kAudioDevicePropertyVolumeScalar \<or>
                              sel = kAudioDevicePropertyMute) \<or>
     object = OutputVolume \<and> (sel = kAudioLevelControlPropertyScalarValue \<or> sel = kAudioLevelControlPropertyDecibelValue) \<or>
     object = OutputMute \<and> sel = kAudioBooleanControlPropertyValue \<or>
     object = OutputStream \<and> (sel = kAudioStreamPropertyVirtualFormat \<or> sel = kAudioStreamPropertyPhysicalFormat \<or>
                              sel = kAudioStreamPropertyIsActive)"

definition output_settable :: "bool \<Rightarrow> u32 \<Rightarrow> hal_address option \<Rightarrow> bool \<Rightarrow> os_status \<times> bool option" where
  "output_settable driver object address result =
     (if \<not> result then (IllegalOperation, None)
      else if \<not> output_has driver object address then (UnknownProperty, Some False)
      else (NoErr, Some (output_writable object (ad_selector (the address)))))"

definition output_sizeOf :: "bool \<Rightarrow> u32 \<Rightarrow> hal_address option \<Rightarrow> bool \<Rightarrow> os_status + nat" where
  "output_sizeOf driver object address result =
     (if driver then output_propertySize object address result else Inl BadObject)"

section \<open>Reading a property\<close>

definition output_class :: "hal_codes \<Rightarrow> u32 \<Rightarrow> u32" where
  "output_class k object =
     (if object = OutputDevice then code_device_class k
      else if object = OutputStream then code_stream_class k
      else if object = OutputVolume then code_volume_class k
      else if object = OutputMute then code_mute_class k
      else code_plugin_class k)"

definition output_base_class :: "hal_codes \<Rightarrow> u32 \<Rightarrow> u32" where
  "output_base_class k object =
     (if object = OutputVolume then code_level_class k
      else if object = OutputMute then code_boolean_class k
      else code_object_class k)"

definition output_owner :: "u32 \<Rightarrow> u32" where
  "output_owner object =
     (if object = OutputDevice then kAudioObjectPlugInObject
      else if object \<noteq> kAudioObjectPlugInObject then OutputDevice
      else kAudioObjectUnknown)"

text \<open>The least gain that has a level: the \<^verbatim>\<open>float\<close> next to 0.000015848932, 96 decibels below full scale.\<close>

definition least_gain :: float_value where
  "least_gain = Finite (8713043 / 549755813888)"

definition output_decibels :: "float_ops \<Rightarrow> float_value \<Rightarrow> float_value" where
  "output_decibels fo gain = fmaxf (Finite (- 96)) (fo_mul20 fo (fo_log10f fo (fmaxf least_gain gain)))"

definition output_convert :: "float_ops \<Rightarrow> hal_selector \<Rightarrow> float_value \<Rightarrow> float_value" where
  "output_convert fo sel x =
     (if sel = kAudioLevelControlPropertyConvertScalarToDecibels
      then fo_mul20 fo (fo_log10f fo (fmaxf least_gain (fminf (Finite 1) x)))
      else fo_powf10 fo (fo_div20 fo (fminf (Finite 0) (fmaxf (Finite (- 96)) x))))"

definition output_translate :: "nat \<Rightarrow> cf_ref option \<Rightarrow> os_status + hal_data" where
  "output_translate qualifierSize qualifier =
     (if qualifierSize \<noteq> size_CFStringRef \<or> qualifier = None then Inl BadPropertySize
      else Inr (D_U32 (if the qualifier = Cf_String PLANK_OUTPUT_DEVICE_UID then OutputDevice else kAudioObjectUnknown)))"

text \<open>The switch of \<^verbatim>\<open>get\<close>; \<^verbatim>\<open>needed\<close> is the size found before, \<^verbatim>\<open>buffer\<close> what \<^verbatim>\<open>data\<close> holds on entry.\<close>

fun output_value ::
  "hal_codes \<Rightarrow> float_ops \<Rightarrow> u32 \<Rightarrow> hal_scope \<Rightarrow> nat \<Rightarrow> cf_ref option \<Rightarrow> nat \<Rightarrow> bytes \<Rightarrow> 'a output_state_scheme \<Rightarrow>
     hal_selector \<Rightarrow> os_status + hal_data" where
  "output_value k fo object scope qs q needed buffer s kAudioObjectPropertyBaseClass = Inr (D_U32 (output_base_class k object))"
| "output_value k fo object scope qs q needed buffer s kAudioObjectPropertyClass = Inr (D_U32 (output_class k object))"
| "output_value k fo object scope qs q needed buffer s kAudioObjectPropertyOwner = Inr (D_U32 (output_owner object))"
| "output_value k fo object scope qs q needed buffer s kAudioObjectPropertyName = Inr (D_String ''PLANK Output'')"
| "output_value k fo object scope qs q needed buffer s kAudioObjectPropertyManufacturer = Inr (D_String ''PLANK'')"
| "output_value k fo object scope qs q needed buffer s kAudioObjectPropertyControlList = Inr (D_Objects [OutputVolume, OutputMute])"
| "output_value k fo object scope qs q needed buffer s kAudioObjectPropertyOwnedObjects =
     Inr (if object = OutputDevice then D_Objects (take (needed div size_ObjectID) [OutputStream, OutputVolume, OutputMute])
          else D_U32 OutputDevice)"
| "output_value k fo object scope qs q needed buffer s kAudioControlPropertyScope = Inr (D_U32 (code_scope_output k))"
| "output_value k fo object scope qs q needed buffer s kAudioControlPropertyElement = Inr (D_U32 kAudioObjectPropertyElementMain)"
| "output_value k fo object scope qs q needed buffer s kAudioBooleanControlPropertyValue = Inr (D_U32 (os_mute s))"
| "output_value k fo object scope qs q needed buffer s kAudioDevicePropertyMute = Inr (D_U32 (os_mute s))"
| "output_value k fo object scope qs q needed buffer s kAudioLevelControlPropertyScalarValue = Inr (D_F32 (os_gain s))"
| "output_value k fo object scope qs q needed buffer s kAudioDevicePropertyVolumeScalar = Inr (D_F32 (os_gain s))"
| "output_value k fo object scope qs q needed buffer s kAudioLevelControlPropertyDecibelValue = Inr (D_F32 (output_decibels fo (os_gain s)))"
| "output_value k fo object scope qs q needed buffer s kAudioLevelControlPropertyDecibelRange = Inr (D_Range (- 96) 0)"
| "output_value k fo object scope qs q needed buffer s kAudioLevelControlPropertyConvertScalarToDecibels =
     (if \<not> isfinite (float32 buffer) then Inl IllegalOperation
      else Inr (D_F32 (output_convert fo kAudioLevelControlPropertyConvertScalarToDecibels (float32 buffer))))"
| "output_value k fo object scope qs q needed buffer s kAudioLevelControlPropertyConvertDecibelsToScalar =
     (if \<not> isfinite (float32 buffer) then Inl IllegalOperation
      else Inr (D_F32 (output_convert fo kAudioLevelControlPropertyConvertDecibelsToScalar (float32 buffer))))"
| "output_value k fo object scope qs q needed buffer s kAudioPlugInPropertyDeviceList = Inr (D_U32 OutputDevice)"
| "output_value k fo object scope qs q needed buffer s kAudioDevicePropertyRelatedDevices = Inr (D_U32 OutputDevice)"
| "output_value k fo object scope qs q needed buffer s kAudioPlugInPropertyTranslateUIDToDevice = output_translate qs q"
| "output_value k fo object scope qs q needed buffer s kAudioPlugInPropertyResourceBundle = Inr (D_String '''')"
| "output_value k fo object scope qs q needed buffer s kAudioDevicePropertyDeviceUID = Inr (D_String PLANK_OUTPUT_DEVICE_UID)"
| "output_value k fo object scope qs q needed buffer s kAudioDevicePropertyModelUID = Inr (D_String ''la.instinctual.PLANK.Output.Model'')"
| "output_value k fo object scope qs q needed buffer s kAudioDevicePropertyTransportType = Inr (D_U32 (code_transport_virtual k))"
| "output_value k fo object scope qs q needed buffer s kAudioDevicePropertyClockDomain = Inr (D_U32 0)"
| "output_value k fo object scope qs q needed buffer s kAudioDevicePropertyIsHidden = Inr (D_U32 0)"
| "output_value k fo object scope qs q needed buffer s kAudioDevicePropertyLatency = Inr (D_U32 0)"
| "output_value k fo object scope qs q needed buffer s kAudioDevicePropertySafetyOffset = Inr (D_U32 0)"
| "output_value k fo object scope qs q needed buffer s kAudioDevicePropertyDeviceIsAlive = Inr (D_U32 1)"
| "output_value k fo object scope qs q needed buffer s kAudioStreamPropertyIsActive = Inr (D_U32 1)"
| "output_value k fo object scope qs q needed buffer s kAudioStreamPropertyStartingChannel = Inr (D_U32 1)"
| "output_value k fo object scope qs q needed buffer s kAudioStreamPropertyDirection = Inr (D_U32 0)"
| "output_value k fo object scope qs q needed buffer s kAudioDevicePropertyDeviceIsRunning = Inr (D_U32 (if hs_running s \<noteq> 0 then 1 else 0))"
| "output_value k fo object scope qs q needed buffer s kAudioDevicePropertyDeviceCanBeDefaultDevice =
     Inr (D_U32 (if scope = ScopeOutput then 1 else 0))"
| "output_value k fo object scope qs q needed buffer s kAudioDevicePropertyDeviceCanBeDefaultSystemDevice =
     Inr (D_U32 (if scope = ScopeOutput then 1 else 0))"
| "output_value k fo object scope qs q needed buffer s kAudioDevicePropertyZeroTimeStampPeriod =
     Inr (D_U32 (of_nat PLANKAudioZeroTimeStampPeriod))"
| "output_value k fo object scope qs q needed buffer s kAudioDevicePropertyNominalSampleRate = Inr (D_F64 (of_nat PLANKOutputRate))"
| "output_value k fo object scope qs q needed buffer s kAudioDevicePropertyAvailableNominalSampleRates =
     Inr (D_Range (of_nat PLANKOutputRate) (of_nat PLANKOutputRate))"
| "output_value k fo object scope qs q needed buffer s kAudioDevicePropertyStreams = Inr (D_U32 OutputStream)"
| "output_value k fo object scope qs q needed buffer s kAudioDevicePropertyPreferredChannelsForStereo = Inr (D_Pair 1 2)"
| "output_value k fo object scope qs q needed buffer s kAudioStreamPropertyTerminalType = Inr (D_U32 (code_terminal_speaker k))"
| "output_value k fo object scope qs q needed buffer s kAudioStreamPropertyVirtualFormat = Inr (D_Format (outputFormat k))"
| "output_value k fo object scope qs q needed buffer s kAudioStreamPropertyPhysicalFormat = Inr (D_Format (outputFormat k))"
| "output_value k fo object scope qs q needed buffer s kAudioStreamPropertyAvailableVirtualFormats =
     Inr (D_Ranged (outputFormat k) (of_nat PLANKOutputRate) (of_nat PLANKOutputRate))"
| "output_value k fo object scope qs q needed buffer s kAudioStreamPropertyAvailablePhysicalFormats =
     Inr (D_Ranged (outputFormat k) (of_nat PLANKOutputRate) (of_nat PLANKOutputRate))"
| "output_value k fo object scope qs q needed buffer s (Other_Selector c) = Inl UnknownProperty"

definition output_get ::
  "hal_codes \<Rightarrow> float_ops \<Rightarrow> bool \<Rightarrow> u32 \<Rightarrow> hal_address option \<Rightarrow> nat \<Rightarrow> cf_ref option \<Rightarrow> nat \<Rightarrow> bool \<Rightarrow> bytes option \<Rightarrow>
     'a output_state_scheme \<Rightarrow> os_status \<times> nat option \<times> hal_data option" where
  "output_get k fo driver object address qualifierSize qualifier capacity actual data s =
     (if \<not> actual then (IllegalOperation, None, None)
      else case output_sizeOf driver object address True of
        Inl status \<Rightarrow> (status, Some 0, None)
      | Inr needed \<Rightarrow>
          if capacity < needed \<or> needed \<noteq> 0 \<and> data = None then (BadPropertySize, Some 0, None)
          else if needed = 0 then (NoErr, Some 0, None)
          else case output_value k fo object (ad_scope (the address)) qualifierSize qualifier needed (the data) s
                      (ad_selector (the address)) of
            Inl status \<Rightarrow> (status, Some needed, None)
          | Inr v \<Rightarrow> (NoErr, Some needed, Some v))"

section \<open>Setting a property\<close>

type_synonym hal_notice = "u32 \<times> hal_address list"

definition main_address :: "hal_selector \<Rightarrow> hal_scope \<Rightarrow> hal_address" where
  "main_address sel scope = \<lparr>ad_selector = sel, ad_scope = scope, ad_element = kAudioObjectPropertyElementMain\<rparr>"

definition is_gain :: "hal_selector \<Rightarrow> bool" where
  "is_gain sel \<longleftrightarrow> sel = kAudioDevicePropertyVolumeScalar \<or> sel = kAudioLevelControlPropertyScalarValue \<or>
     sel = kAudioLevelControlPropertyDecibelValue"

definition is_mute :: "hal_selector \<Rightarrow> bool" where
  "is_mute sel \<longleftrightarrow> sel = kAudioDevicePropertyMute \<or> sel = kAudioBooleanControlPropertyValue"

text \<open>The calls of \<^verbatim>\<open>PropertiesChanged\<close> after a change of the gain or of the mute state.\<close>

definition output_notices :: "bool \<Rightarrow> hal_notice list" where
  "output_notices gain =
     [(if gain then OutputVolume else OutputMute,
       take (if gain then 2 else 1)
         [main_address (if gain then kAudioLevelControlPropertyScalarValue else kAudioBooleanControlPropertyValue) ScopeGlobal,
          main_address kAudioLevelControlPropertyDecibelValue ScopeGlobal]),
      (OutputDevice, [main_address (if gain then kAudioDevicePropertyVolumeScalar else kAudioDevicePropertyMute) ScopeOutput])]"

text \<open>The gain a request asks for, when it is one the driver accepts.\<close>

definition requested_gain :: "float_ops \<Rightarrow> hal_selector \<Rightarrow> float_value \<Rightarrow> float_value option" where
  "requested_gain fo sel x =
     (if \<not> isfinite x then None
      else if sel = kAudioLevelControlPropertyDecibelValue \<and> (flt x (Finite (- 96)) \<or> flt (Finite 0) x) then None
      else let v = (if sel = kAudioLevelControlPropertyDecibelValue then fo_powf10 fo (fo_div20 fo x) else x) in
        if flt v (Finite 0) \<or> flt (Finite 1) v then None else Some v)"

definition output_store ::
  "float_ops \<Rightarrow> hal_selector \<Rightarrow> bytes \<Rightarrow> 'a output_state_scheme \<Rightarrow> 'a output_state_scheme option" where
  "output_store fo sel p s =
     (if is_gain sel
      then map_option (\<lambda>v. s\<lparr>os_gain := v\<rparr>) (requested_gain fo sel (float32 p))
      else let v = from_le32 p in if 1 < v then None else Some (s\<lparr>os_mute := v\<rparr>))"

definition output_set ::
  "hal_codes \<Rightarrow> float_ops \<Rightarrow> bool \<Rightarrow> u32 \<Rightarrow> hal_address option \<Rightarrow> nat \<Rightarrow> bytes option \<Rightarrow> 'a output_state_scheme \<Rightarrow>
     os_status \<times> 'a output_state_scheme \<times> hal_notice list" where
  "output_set k fo driver object address size_in data s =
     (case output_settable driver object address True of
        (status, writable) \<Rightarrow>
          if status \<noteq> NoErr then (status, s, [])
          else if writable \<noteq> Some True then (UnsupportedOperation, s, [])
          else if Inr size_in \<noteq> output_propertySize object address True \<or> data = None then (BadPropertySize, s, [])
          else
            let sel = ad_selector (the address); p = the data in
            if is_gain sel \<or> is_mute sel
            then (case output_store fo sel p s of
                    None \<Rightarrow> (IllegalOperation, s, [])
                  | Some t \<Rightarrow> (NoErr, t, if hs_host t then output_notices (is_gain sel) else []))
            else if sel = kAudioDevicePropertyNominalSampleRate
            then (if float64 p = Finite (of_nat PLANKOutputRate) then NoErr else UnsupportedFormat, s, [])
            else if sel = kAudioStreamPropertyIsActive
            then (if from_le32 p = 1 then NoErr else UnsupportedOperation, s, [])
            else (if format_matches (outputFormat k) p then NoErr else UnsupportedFormat, s, []))"

section \<open>The other entry points\<close>

definition output_query :: "bool \<Rightarrow> bool \<Rightarrow> bool \<Rightarrow> 'a output_state_scheme \<Rightarrow> (hresult \<times> bool option) \<times> 'a output_state_scheme" where
  "output_query = hal_query"

definition output_retain :: "bool \<Rightarrow> 'a output_state_scheme \<Rightarrow> u32 \<times> 'a output_state_scheme" where
  "output_retain = hal_retain"

definition output_release :: "bool \<Rightarrow> 'a output_state_scheme \<Rightarrow> u32 \<times> 'a output_state_scheme" where
  "output_release = hal_release"

definition PLANKOutputFactory :: "bool option \<Rightarrow> bool" where
  "PLANKOutputFactory = hal_factory"

definition output_initialize ::
  "(rat \<Rightarrow> rat) \<Rightarrow> bool \<Rightarrow> bool \<Rightarrow> u32 \<Rightarrow> u32 \<Rightarrow> u64 \<Rightarrow> 'a output_state_scheme \<Rightarrow> os_status \<times> 'a output_state_scheme" where
  "output_initialize rd = hal_initialize rd (\<lambda>s. s)"

definition output_create :: "bool \<Rightarrow> os_status \<times> u32 option" where "output_create = hal_create"

definition output_destroy :: os_status where "output_destroy = hal_destroy"

definition output_configuration :: "bool \<Rightarrow> u32 \<Rightarrow> os_status" where
  "output_configuration = hal_configuration OutputDevice"

definition output_addClient ::
  "bool \<Rightarrow> u32 \<Rightarrow> u32 option \<Rightarrow> 'a output_state_scheme \<Rightarrow> os_status \<times> 'a output_state_scheme" where
  "output_addClient = hal_add_client OutputDevice"

definition output_removeClient ::
  "bool \<Rightarrow> u32 \<Rightarrow> u32 option \<Rightarrow> 'a output_state_scheme \<Rightarrow> os_status \<times> 'a output_state_scheme" where
  "output_removeClient = hal_remove_client OutputDevice"

definition output_changeIO ::
  "bool \<Rightarrow> u32 \<Rightarrow> u32 \<Rightarrow> bool \<Rightarrow> u64 \<Rightarrow> 'a output_state_scheme \<Rightarrow> os_status \<times> 'a output_state_scheme" where
  "output_changeIO = hal_change_io OutputDevice (\<lambda>s. s)"

definition output_startIO ::
  "bool \<Rightarrow> u32 \<Rightarrow> u32 \<Rightarrow> u64 \<Rightarrow> 'a output_state_scheme \<Rightarrow> os_status \<times> 'a output_state_scheme" where
  "output_startIO driver device client = output_changeIO driver device client True"

definition output_stopIO ::
  "bool \<Rightarrow> u32 \<Rightarrow> u32 \<Rightarrow> u64 \<Rightarrow> 'a output_state_scheme \<Rightarrow> os_status \<times> 'a output_state_scheme" where
  "output_stopIO driver device client = output_changeIO driver device client False"

definition output_timestamp ::
  "(rat \<Rightarrow> rat) \<Rightarrow> bool \<Rightarrow> u32 \<Rightarrow> bool \<Rightarrow> u64 \<Rightarrow> 'a output_state_scheme \<Rightarrow> os_status \<times> (rat \<times> u64 \<times> u64) option" where
  "output_timestamp = hal_timestamp OutputDevice"

definition output_willIO :: "bool \<Rightarrow> u32 \<Rightarrow> io_operation \<Rightarrow> bool \<Rightarrow> bool \<Rightarrow> os_status \<times> (bool \<times> bool) option" where
  "output_willIO = hal_will_io OutputDevice IO_WriteMix"

definition output_boundaryIO :: "bool \<Rightarrow> u32 \<Rightarrow> u32 \<Rightarrow> os_status" where
  "output_boundaryIO = hal_boundary_io OutputDevice PLANKOutputMaxIO"

text \<open>The final mix is discarded: nothing is read from or written to the buffer.\<close>

definition output_performIO :: "bool \<Rightarrow> u32 \<Rightarrow> u32 \<Rightarrow> io_operation \<Rightarrow> u32 \<Rightarrow> bool \<Rightarrow> bool \<Rightarrow> os_status" where
  "output_performIO driver device stream operation frames main cycle =
     (if \<not> driver \<or> device \<noteq> OutputDevice \<or> stream \<noteq> OutputStream \<or> operation \<noteq> IO_WriteMix \<or>
        PLANKOutputMaxIO < unat frames \<or> \<not> main \<or> \<not> cycle
      then IllegalOperation else NoErr)"

text \<open>The entry points of the driver's interface that can change its state, as one step. What the caller
  passes is the argument of the call.\<close>

datatype output_call =
    Call_QueryInterface bool bool bool
  | Call_AddRef bool
  | Call_Release bool
  | Call_Initialize bool bool u32 u32 u64
  | Call_AddDeviceClient bool u32 "u32 option"
  | Call_RemoveDeviceClient bool u32 "u32 option"
  | Call_SetPropertyData bool u32 "hal_address option" nat "bytes option"
  | Call_StartIO bool u32 u32 u64
  | Call_StopIO bool u32 u32

fun output_entry :: "hal_codes \<Rightarrow> float_ops \<Rightarrow> (rat \<Rightarrow> rat) \<Rightarrow> output_call \<Rightarrow> output_state \<Rightarrow> output_state" where
  "output_entry k fo rd (Call_QueryInterface driver supported result) s = snd (output_query driver supported result s)"
| "output_entry k fo rd (Call_AddRef driver) s = snd (output_retain driver s)"
| "output_entry k fo rd (Call_Release driver) s = snd (output_release driver s)"
| "output_entry k fo rd (Call_Initialize driver owner numer denom now) s = snd (output_initialize rd driver owner numer denom now s)"
| "output_entry k fo rd (Call_AddDeviceClient driver device info) s = snd (output_addClient driver device info s)"
| "output_entry k fo rd (Call_RemoveDeviceClient driver device info) s = snd (output_removeClient driver device info s)"
| "output_entry k fo rd (Call_SetPropertyData driver object address size_in data) s =
     fst (snd (output_set k fo driver object address size_in data s))"
| "output_entry k fo rd (Call_StartIO driver device client now) s = snd (output_startIO driver device client now s)"
| "output_entry k fo rd (Call_StopIO driver device client) s = snd (output_stopIO driver device client 0 s)"

fun output_calls :: "hal_codes \<Rightarrow> float_ops \<Rightarrow> (rat \<Rightarrow> rat) \<Rightarrow> output_call list \<Rightarrow> output_state \<Rightarrow> output_state" where
  "output_calls k fo rd [] s = s"
| "output_calls k fo rd (c # cs) s = output_calls k fo rd cs (output_entry k fo rd c s)"

end
