(* ===== verification/Output_Proofs.thy ===== *)
theory Output_Proofs
  imports Output_Driver
begin

text \<open>
  The correctness of the virtual loudspeaker of \<^verbatim>\<open>Output_Driver\<close>: the property table answers exactly what
  it announces, every change of a value is announced to the host, the gain and the mute state stay in
  range under any calls, and the clients are counted as the abstract table of \<^verbatim>\<open>Hal_Clients\<close> says.
\<close>

section \<open>The tables agree\<close>

lemma output_size_cases:
  assumes "Some n \<in> set (output_size_answers object scope sel)"
  obtains (global) "scope = ScopeGlobal" "output_global_size object sel = Some n"
  | (plugin) "object = kAudioObjectPlugInObject" "scope = ScopeGlobal" "output_plugin_size sel = Some n"
  | (device) "object = OutputDevice" "output_device_size scope sel = Some n"
  | (device_control) "object = OutputDevice" "scope = ScopeOutput" "output_device_control_size sel = Some n"
  | (control) "object = OutputVolume \<or> object = OutputMute" "scope = ScopeGlobal" "output_control_size object sel = Some n"
  | (stream) "object = OutputStream" "scope = ScopeGlobal" "output_stream_size sel = Some n"
  using assms unfolding output_size_answers_def set_simps
  by (elim insertE emptyE) (auto split: if_split_asm)

lemma output_propertySize_answer:
  "output_propertySize object (Some a) True = Inr n \<Longrightarrow>
     Some n \<in> set (output_size_answers object (ad_scope a) (ad_selector a))"
  by (auto simp: output_propertySize_def split: if_split_asm option.split_asm intro: first_answer_Some)

lemma output_global_answers:
  "output_global_size object sel = Some n \<Longrightarrow> n \<noteq> 0 \<Longrightarrow> answers (output_value k fo object scope qs q n buffer s sel) n"
  by (cases sel) (auto simp: output_global_size_def answers_def split: if_split_asm)

lemma output_plugin_answers:
  "output_plugin_size sel = Some n \<Longrightarrow> answers (output_value k fo object scope qs q n buffer s sel) n"
  by (cases sel) (auto simp: output_plugin_size_def answers_def output_translate_def)

lemma output_device_answers:
  "output_device_size scope sel = Some n \<Longrightarrow> n \<noteq> 0 \<Longrightarrow> answers (output_value k fo OutputDevice scope qs q n buffer s sel) n"
  by (cases sel) (auto simp: output_device_size_def answers_def split: if_split_asm)

lemma output_device_control_answers:
  "output_device_control_size sel = Some n \<Longrightarrow> answers (output_value k fo object scope qs q n buffer s sel) n"
  by (cases sel) (auto simp: output_device_control_size_def answers_def)

lemma output_control_answers:
  "output_control_size object sel = Some n \<Longrightarrow> answers (output_value k fo object scope qs q n buffer s sel) n"
  by (cases sel) (auto simp: output_control_size_def answers_def split: if_split_asm)

lemma output_stream_answers:
  "output_stream_size sel = Some n \<Longrightarrow> answers (output_value k fo object scope qs q n buffer s sel) n"
  by (cases sel) (auto simp: output_stream_size_def answers_def)

lemma output_value_answers:
  assumes "output_propertySize object (Some a) True = Inr n" "n \<noteq> 0"
  shows "answers (output_value k fo object (ad_scope a) qs q n buffer s (ad_selector a)) n"
  using output_propertySize_answer [OF assms(1)]
proof (cases rule: output_size_cases)
  case global then show ?thesis using assms(2) by (intro output_global_answers)
next
  case plugin then show ?thesis by (intro output_plugin_answers)
next
  case device then show ?thesis using assms(2) by (simp add: output_device_answers)
next
  case device_control then show ?thesis by (intro output_device_control_answers)
next
  case control then show ?thesis by (intro output_control_answers)
next
  case stream then show ?thesis by (intro output_stream_answers)
qed

lemma output_propertySize_status: "output_propertySize object address True = Inl st \<Longrightarrow> st = BadObject \<or> st = UnknownProperty"
  by (auto simp: output_propertySize_def Let_def split: option.splits if_splits)

text \<open>C15: whatever a caller asks, reading a property succeeds only with a value of exactly the size announced by
  \<^verbatim>\<open>sizeOf\<close> and within the caller's buffer, and fails as unknown exactly when \<^verbatim>\<open>has\<close> denies the property.\<close>

theorem output_get_agrees:
  "get_agrees (output_has driver object address) (output_sizeOf driver object address True) capacity
     (output_get k fo driver object address qs q capacity True data s)"
proof (cases "output_sizeOf driver object address True")
  case (Inl st)
  then show ?thesis
    using output_propertySize_status [of object address st]
    by (auto simp: get_agrees_def output_get_def output_has_def output_sizeOf_def split: if_splits)
next
  case (Inr n)
  then obtain a where a: "driver" "address = Some a" "output_propertySize object (Some a) True = Inr n"
    by (cases address) (auto simp: output_sizeOf_def output_propertySize_def split: if_splits)
  have "n \<noteq> 0 \<Longrightarrow> answers (output_value k fo object (ad_scope a) qs q n (the data) s (ad_selector a)) n"
    by (rule output_value_answers [OF a(3)])
  then show ?thesis
    using a by (auto simp: get_agrees_def output_get_def output_has_def output_sizeOf_def answers_def split: sum.splits)
qed

section \<open>Announced changes\<close>

lemma output_value_store:
  assumes "output_value k fo object scope qs q n buffer (s\<lparr>os_gain := v\<rparr>) sel \<noteq> output_value k fo object scope qs q n buffer s sel"
  shows "sel \<in> {kAudioLevelControlPropertyScalarValue, kAudioDevicePropertyVolumeScalar, kAudioLevelControlPropertyDecibelValue}"
  using assms by (cases sel) auto

lemma output_value_store_mute:
  assumes "output_value k fo object scope qs q n buffer (s\<lparr>os_mute := v\<rparr>) sel \<noteq> output_value k fo object scope qs q n buffer s sel"
  shows "sel \<in> {kAudioBooleanControlPropertyValue, kAudioDevicePropertyMute}"
  using assms by (cases sel) auto

text \<open>Where the properties that depend on the gain and on the mute state live.\<close>

lemma output_gain_place:
  assumes "output_propertySize object (Some a) True = Inr n"
    "ad_selector a \<in> {kAudioLevelControlPropertyScalarValue, kAudioDevicePropertyVolumeScalar, kAudioLevelControlPropertyDecibelValue}"
  shows "object = OutputVolume \<and> ad_scope a = ScopeGlobal \<and> ad_selector a \<noteq> kAudioDevicePropertyVolumeScalar \<or>
    object = OutputDevice \<and> ad_scope a = ScopeOutput \<and> ad_selector a = kAudioDevicePropertyVolumeScalar"
  using output_propertySize_answer [OF assms(1)]
proof (cases rule: output_size_cases)
  case global then show ?thesis using assms(2) by (auto simp: output_global_size_def)
next
  case plugin then show ?thesis using assms(2) by (auto simp: output_plugin_size_def)
next
  case device then show ?thesis using assms(2) by (auto simp: output_device_size_def split: if_split_asm)
next
  case device_control then show ?thesis using assms(2) by (auto simp: output_device_control_size_def)
next
  case control then show ?thesis using assms(2) by (auto simp: output_control_size_def split: if_split_asm)
next
  case stream then show ?thesis using assms(2) by (auto simp: output_stream_size_def)
qed

lemma output_mute_place:
  assumes "output_propertySize object (Some a) True = Inr n"
    "ad_selector a \<in> {kAudioBooleanControlPropertyValue, kAudioDevicePropertyMute}"
  shows "object = OutputMute \<and> ad_scope a = ScopeGlobal \<and> ad_selector a = kAudioBooleanControlPropertyValue \<or>
    object = OutputDevice \<and> ad_scope a = ScopeOutput \<and> ad_selector a = kAudioDevicePropertyMute"
  using output_propertySize_answer [OF assms(1)]
proof (cases rule: output_size_cases)
  case global then show ?thesis using assms(2) by (auto simp: output_global_size_def)
next
  case plugin then show ?thesis using assms(2) by (auto simp: output_plugin_size_def)
next
  case device then show ?thesis using assms(2) by (auto simp: output_device_size_def split: if_split_asm)
next
  case device_control then show ?thesis using assms(2) by (auto simp: output_device_control_size_def)
next
  case control then show ?thesis using assms(2) by (auto simp: output_control_size_def split: if_split_asm)
next
  case stream then show ?thesis using assms(2) by (auto simp: output_stream_size_def)
qed

definition announced :: "hal_notice list \<Rightarrow> u32 \<Rightarrow> hal_address \<Rightarrow> bool" where
  "announced ns object a \<longleftrightarrow> (\<exists>as. (object, as) \<in> set ns \<and> a \<in> set as)"

lemma output_propertySize_main: "output_propertySize object (Some a) True = Inr n \<Longrightarrow> a = main_address (ad_selector a) (ad_scope a)"
  by (auto simp: output_propertySize_def main_address_def split: if_split_asm)

lemma output_gain_announced:
  assumes "output_propertySize object (Some a) True = Inr n"
    "ad_selector a \<in> {kAudioLevelControlPropertyScalarValue, kAudioDevicePropertyVolumeScalar, kAudioLevelControlPropertyDecibelValue}"
  shows "announced (output_notices True) object a"
  using output_gain_place [OF assms] assms(2) output_propertySize_main [OF assms(1)]
  by (auto simp: announced_def output_notices_def)

lemma output_mute_announced:
  assumes "output_propertySize object (Some a) True = Inr n"
    "ad_selector a \<in> {kAudioBooleanControlPropertyValue, kAudioDevicePropertyMute}"
  shows "announced (output_notices False) object a"
  using output_mute_place [OF assms] assms(2) output_propertySize_main [OF assms(1)]
  by (auto simp: announced_def output_notices_def)

lemma output_set_cases:
  assumes "output_set k fo driver object address n data s = (st, t, ns)"
  obtains (same) "t = s"
  | (gain) v where "st = NoErr" "t = s\<lparr>os_gain := v\<rparr>" "ns = (if hs_host s then output_notices True else [])"
      "requested_gain fo (ad_selector (the address)) (float32 (the data)) = Some v"
  | (mute) v where "st = NoErr" "t = s\<lparr>os_mute := v\<rparr>" "ns = (if hs_host s then output_notices False else [])"
      "\<not> 1 < v" "v = from_le32 (the data)" "is_mute (ad_selector (the address))"
proof (cases "t = s")
  case False
  then show thesis using assms gain mute
    by (auto simp: output_set_def output_store_def Let_def split: if_split_asm prod.split_asm option.split_asm)
qed (rule same)

text \<open>C16: once the host is attached, a property whose value a call of \<^verbatim>\<open>set\<close> changes, for any reader, is among those
  the call announces to the host.\<close>

theorem output_set_announces:
  assumes "hs_host s" "output_set k fo driver object address n data s = (st, t, ns)"
    and "output_get k fo driver' object' (Some a) qs q capacity actual buffer t \<noteq>
         output_get k fo driver' object' (Some a) qs q capacity actual buffer s"
  shows "announced ns object' a"
proof -
  from assms(3) obtain m where m: "output_propertySize object' (Some a) True = Inr m"
    and v: "output_value k fo object' (ad_scope a) qs q m (the buffer) t (ad_selector a) \<noteq>
      output_value k fo object' (ad_scope a) qs q m (the buffer) s (ad_selector a)"
    by (auto simp: output_get_def output_sizeOf_def split: if_split_asm sum.split_asm)
  from assms(2) show ?thesis
  proof (cases rule: output_set_cases)
    case same then show ?thesis using v by simp
  next
    case (gain v')
    then show ?thesis using assms(1) v output_gain_announced [OF m output_value_store] by simp
  next
    case (mute v')
    then show ?thesis using assms(1) v output_mute_announced [OF m output_value_store_mute] by simp
  qed
qed

section \<open>Gain and mute\<close>

fun unit_gain :: "float_value \<Rightarrow> bool" where
  "unit_gain (Finite x) = (0 \<le> x \<and> x \<le> 1)"
| "unit_gain _ = False"

lemma unit_gain_iff: "unit_gain v \<longleftrightarrow> v \<noteq> Nan \<and> \<not> flt v (Finite 0) \<and> \<not> flt (Finite 1) v"
  by (cases v) auto

definition output_ok :: "'a output_state_scheme \<Rightarrow> bool" where
  "output_ok s \<longleftrightarrow> unit_gain (os_gain s) \<and> os_mute s \<le> 1 \<and>
     hal_table_ok s"

lemma requested_gain_unit:
  assumes "requested_gain fo sel x = Some v" "\<And>y. isfinite y \<Longrightarrow> fo_powf10 fo (fo_div20 fo y) \<noteq> Nan"
  shows "unit_gain v"
  using assms by (cases x) (auto simp: requested_gain_def unit_gain_iff Let_def split: if_split_asm)

lemma output_set_ok:
  assumes "output_ok s" "\<And>y. isfinite y \<Longrightarrow> fo_powf10 fo (fo_div20 fo y) \<noteq> Nan"
    "output_set k fo driver object address n data s = (st, t, ns)"
  shows "output_ok t"
  using assms(3)
proof (cases rule: output_set_cases)
  case same then show ?thesis using assms(1) by simp
next
  case (gain v)
  then show ?thesis using assms(1) requested_gain_unit [OF gain(4) assms(2)] by (simp add: output_ok_def hal_table_ok_def)
next
  case (mute v)
  then show ?thesis using assms(1) by (simp add: output_ok_def hal_table_ok_def)
qed

lemma keeps_hal_id [simp]: "keeps_hal (\<lambda>s. s)"
  by (simp add: keeps_hal_def)

text \<open>What the shared operations leave alone.\<close>

lemma output_frame [simp]:
  "os_gain (snd (hal_add_client dev driver device info s)) = os_gain s"
  "os_mute (snd (hal_add_client dev driver device info s)) = os_mute s"
  "os_gain (snd (hal_remove_client dev driver device info s)) = os_gain s"
  "os_mute (snd (hal_remove_client dev driver device info s)) = os_mute s"
  "os_gain (snd (hal_change_io dev (\<lambda>s. s) driver device client start now s)) = os_gain s"
  "os_mute (snd (hal_change_io dev (\<lambda>s. s) driver device client start now s)) = os_mute s"
  by (auto simp: hal_add_client_def hal_remove_client_def hal_change_io_def hal_restart_clock_def Let_def split: option.split)

lemma hal_table_frame [simp]:
  "hal_table_ok (s\<lparr>hs_references := n\<rparr>) = hal_table_ok s"
  "hal_table_ok (s\<lparr>hs_host := h\<rparr>) = hal_table_ok s" "hal_table_ok (s\<lparr>hs_ticks := x\<rparr>) = hal_table_ok s"
  "hal_table_ok (s\<lparr>hs_anchor := a\<rparr>) = hal_table_ok s" "hal_table_ok (s\<lparr>hs_seed := e\<rparr>) = hal_table_ok s"
  by (simp_all add: hal_table_ok_def)

lemma output_entry_ok:
  assumes "output_ok s" "\<And>y. isfinite y \<Longrightarrow> fo_powf10 fo (fo_div20 fo y) \<noteq> Nan"
  shows "output_ok (output_entry k fo rd c s)"
proof (cases c)
  case (Call_SetPropertyData driver object address n data)
  obtain st t ns where "output_set k fo driver object address n data s = (st, t, ns)" by (rule prod_cases3)
  then show ?thesis using Call_SetPropertyData output_set_ok [OF assms] by simp
qed (use assms(1) in \<open>simp_all add: output_ok_def output_query_def hal_query_def output_retain_def hal_retain_def
  output_release_def hal_release_def output_initialize_def hal_initialize_def output_addClient_def output_removeClient_def
  output_startIO_def output_stopIO_def output_changeIO_def Let_def hal_table_add hal_table_remove hal_table_change\<close>)

lemma output_static_ok: "output_ok output_static"
  using hal_static_table by (simp add: output_ok_def output_static_def hal_table_ok_def hal_state.extend_def)

lemma output_calls_ok:
  assumes "\<And>y. isfinite y \<Longrightarrow> fo_powf10 fo (fo_div20 fo y) \<noteq> Nan"
  shows "output_ok s \<Longrightarrow> output_ok (output_calls k fo rd cs s)"
  by (induction cs arbitrary: s) (simp_all add: output_entry_ok assms)

text \<open>C17: after any sequence of calls of the driver's entry points, with any arguments, the gain is a number between
  zero and one, the mute state is zero or one, no two clients share a number and the running count is the number of
  running clients, provided \<^verbatim>\<open>powf\<close> of a finite exponent is a number.\<close>

theorem output_calls_invariant:
  assumes "\<And>y. isfinite y \<Longrightarrow> fo_powf10 fo (fo_div20 fo y) \<noteq> Nan"
  shows "output_ok (output_calls k fo rd cs output_static)"
  using output_calls_ok [OF assms output_static_ok] .

section \<open>The clients\<close>

interpretation output_clients: client_table
  "hal_request OutputDevice (\<lambda>s. s)" "hal_view :: output_state \<Rightarrow> client_view" hal_ok hs_running
  by (rule hal_client_table) simp

text \<open>The requests of the host, by the driver's own entry points.\<close>

fun output_request :: "client_request \<Rightarrow> output_state \<Rightarrow> os_status \<times> output_state" where
  "output_request (Add_Client c) s = output_addClient True OutputDevice (Some c) s"
| "output_request (Remove_Client c) s = output_removeClient True OutputDevice (Some c) s"
| "output_request (Start_IO c now) s = output_startIO True OutputDevice c now s"
| "output_request (Stop_IO c) s = output_stopIO True OutputDevice c 0 s"

lemma output_request_hal: "output_request = hal_request OutputDevice (\<lambda>s. s)"
proof (intro ext)
  show "output_request r s = hal_request OutputDevice (\<lambda>s. s) r s" for r s
    by (cases r) (simp_all add: output_addClient_def output_removeClient_def output_startIO_def output_stopIO_def
        output_changeIO_def)
qed

definition output_ready :: "(rat \<Rightarrow> rat) \<Rightarrow> u32 \<Rightarrow> u32 \<Rightarrow> u64 \<Rightarrow> output_state" where
  "output_ready rd numer denom now = snd (output_initialize rd True True numer denom now output_static)"

lemma output_ready_ok: "hal_ok (output_ready rd numer denom now)"
  using output_static_ok
  by (simp add: output_ready_def output_initialize_def hal_initialize_def hal_ok_table hal_table_ok_def output_ok_def output_static_def
      hal_static_def hal_state.extend_def)

lemma output_ready_view: "hal_view (output_ready rd numer denom now) = \<lparr>cv_table = Map.empty, cv_epoch = 1, cv_start = now\<rparr>"
  by (simp add: output_ready_def output_initialize_def hal_initialize_def hal_view_def output_static_def hal_static_def
      hal_state.extend_def slot_map_def filter_replicate)

text \<open>C14: any sequence of requests to an initialised driver is answered as the abstract table of clients answers it: at
  most 64 distinct clients, starting and stopping is idempotent, the clock restarts with a new epoch exactly when the
  first client starts, and the running count is the number of clients running.\<close>

theorem output_clients_refine:
  assumes "run_requests output_request rs (output_ready rd numer denom now) = (as, s)"
  shows "run_requests client_spec rs \<lparr>cv_table = Map.empty, cv_epoch = 1, cv_start = now\<rparr> = (as, hal_view s) \<and>
    unat (hs_running s) = card (running_clients (slot_map (hs_clients s)))"
  using output_clients.run_refines [OF output_ready_ok assms [unfolded output_request_hal], unfolded output_ready_view]
  by (simp add: hal_view_def)

theorem output_clients_refine_witness:
  "fst (run_requests output_request [Add_Client 7, Start_IO 7 100, Stop_IO 8] (output_ready (\<lambda>x. x) 1 1 5)) =
     [NoErr, NoErr, IllegalOperation]" (is "fst ?run = _")
proof -
  have "running_clients [7 \<mapsto> False] = {}" by (auto simp: running_clients_def split: if_split_asm)
  then have "fst (run_requests client_spec [Add_Client 7, Start_IO 7 100, Stop_IO 8]
      \<lparr>cv_table = Map.empty, cv_epoch = 1, cv_start = 5\<rparr>) = [NoErr, NoErr, IllegalOperation]" by simp
  moreover have "run_requests client_spec [Add_Client 7, Start_IO 7 100, Stop_IO 8]
      \<lparr>cv_table = Map.empty, cv_epoch = 1, cv_start = 5\<rparr> = (fst ?run, hal_view (snd ?run))"
    using output_clients_refine [OF prod.collapse [symmetric]] by (rule conjunct1)
  ultimately show ?thesis by (metis fst_conv)
qed

section \<open>Witnesses\<close>

definition witness_codes :: hal_codes where
  "witness_codes = \<lparr>code_object_class = 1, code_plugin_class = 2, code_device_class = 3, code_stream_class = 4,
     code_level_class = 5, code_volume_class = 6, code_boolean_class = 7, code_mute_class = 8,
     code_transport_virtual = 9, code_terminal_speaker = 10, code_terminal_microphone = 11, code_scope_output = 12,
     code_linear_pcm = 13, code_native_float_packed = 14\<rparr>"

definition witness_floats :: float_ops where
  "witness_floats = \<lparr>fo_log10f = (\<lambda>x. Finite 0), fo_powf10 = (\<lambda>x. Finite 1), fo_mul20 = (\<lambda>x. x), fo_div20 = (\<lambda>x. x)\<rparr>"

text \<open>Half the gain is the bit pattern 3f000000.\<close>

definition witness_half :: bytes where "witness_half = [0, 0, 0, 0x3f]"

lemma witness_half_value: "float32 witness_half = Finite (1 / 2)"
  by (simp add: float32_def witness_half_def from_le32_def ieee_value_def)

theorem output_calls_invariant_witness:
  "output_ok (output_calls witness_codes witness_floats (\<lambda>x. x)
     [Call_Initialize True True 1 1 0, Call_AddDeviceClient True OutputDevice (Some 7),
      Call_SetPropertyData True OutputVolume (Some (main_address kAudioLevelControlPropertyScalarValue ScopeGlobal)) 4 (Some witness_half),
      Call_StartIO True OutputDevice 7 3] output_static)"
  by (rule output_calls_invariant) (simp add: witness_floats_def)

theorem output_set_announces_witness:
  "announced (output_notices True) OutputDevice (main_address kAudioDevicePropertyVolumeScalar ScopeOutput)"
proof (rule output_set_announces)
  let ?s = "output_static\<lparr>hs_host := True\<rparr>"
  let ?a = "main_address kAudioLevelControlPropertyScalarValue ScopeGlobal"
  show "hs_host ?s" by simp
  show "output_set witness_codes witness_floats True OutputVolume (Some ?a) 4 (Some witness_half) ?s =
      (NoErr, ?s\<lparr>os_gain := Finite (1 / 2)\<rparr>, output_notices True)"
    by (simp add: output_set_def output_settable_def output_has_def output_propertySize_def output_size_answers_def
        output_objectExists_def main_address_def output_global_size_def output_control_size_def output_writable_def
        is_gain_def output_store_def requested_gain_def witness_half_value Let_def)
  show "output_get witness_codes witness_floats True OutputDevice
      (Some (main_address kAudioDevicePropertyVolumeScalar ScopeOutput)) 0 None 4 True (Some [0, 0, 0, 0])
      (?s\<lparr>os_gain := Finite (1 / 2)\<rparr>) \<noteq>
    output_get witness_codes witness_floats True OutputDevice
      (Some (main_address kAudioDevicePropertyVolumeScalar ScopeOutput)) 0 None 4 True (Some [0, 0, 0, 0]) ?s"
    by (simp add: output_get_def output_sizeOf_def output_propertySize_def output_size_answers_def
        output_objectExists_def main_address_def output_device_size_def output_device_control_size_def
        output_static_def hal_state.extend_def)
qed

end
