(* ===== verification/Mic_Buffer.thy ===== *)
theory Mic_Buffer
  imports Hal_Common Mic_Queue
begin

text \<open>
  The sample history between the producer of the virtual microphone and its readers,
  \<^verbatim>\<open>src/apps/host/macos/audio-device/microphone-buffer.h\<close>: 8192 slots addressed by the device time of a sample,
  each stamped with that time plus one. The operations are given as functions (what they do undisturbed); the
  theory \<^verbatim>\<open>Mic_Buffer_Threads\<close> takes them apart into their atomic accesses.

  The payload word of a slot is the pair of the two \<^verbatim>\<open>float\<close> values it mic_holds; the word 0 is a pair of zeros.
\<close>

abbreviation PLANKMicFrames :: nat where "PLANKMicFrames \<equiv> 8192"
abbreviation PLANKMicMaxIO :: nat where "PLANKMicMaxIO \<equiv> 8192"

type_synonym stereo = "float_value \<times> float_value"

definition silence :: stereo where "silence = (Finite 0, Finite 0)"

record mic_sample =
  ms_frame :: u64
  ms_bits :: stereo

record mic_buffer =
  mb_generation :: u64
  mb_first :: u64
  mb_samples :: "mic_sample list"

definition mic_buffer_init :: mic_buffer where
  "mic_buffer_init = \<lparr>mb_generation = 2, mb_first = 0,
     mb_samples = replicate PLANKMicFrames \<lparr>ms_frame = 0, ms_bits = silence\<rparr>\<rparr>"

definition mic_buffer_reset :: "u64 \<Rightarrow> mic_buffer \<Rightarrow> mic_buffer" where
  "mic_buffer_reset first b =
     (let b1 = b\<lparr>mb_generation := mb_generation b + 1, mb_first := first\<rparr>;
          b2 = b1\<lparr>mb_samples := map (\<lambda>x. x\<lparr>ms_frame := 0\<rparr>) (mb_samples b1)\<rparr>
      in b2\<lparr>mb_generation := mb_generation b2 + 1\<rparr>)"

definition mic_slot :: "u64 \<Rightarrow> nat" where
  "mic_slot position = unat position mod PLANKMicFrames"

definition mic_clamp :: "float_value \<Rightarrow> float_value" where
  "mic_clamp x = fminf (Finite 1) (fmaxf (Finite (- 1)) x)"

definition mic_pair :: "float_value list \<Rightarrow> nat \<Rightarrow> stereo" where
  "mic_pair samples i = (mic_clamp (samples ! (i * 2)), mic_clamp (samples ! (i * 2 + 1)))"

definition mic_write_ok :: "u64 \<Rightarrow> u64 \<Rightarrow> float_value list option \<Rightarrow> u32 \<Rightarrow> bool" where
  "mic_write_ok first frame samples count \<longleftrightarrow>
     \<not> (samples = None \<or> count = 0 \<or> PLANKMicMaxIO < unat count \<or> 0xffffffffffffffff - ucast count < frame \<or> frame < first) \<and>
     (\<forall>i < unat count * 2. isfinite (the samples ! i))"

text \<open>One sample: the stamp is taken away, the payload stored, the new stamp set.\<close>

definition mic_store :: "u64 \<Rightarrow> stereo \<Rightarrow> mic_buffer \<Rightarrow> mic_buffer" where
  "mic_store position v b =
     (let slot = mic_slot position; x = mb_samples b ! slot;
          x1 = x\<lparr>ms_frame := 0\<rparr>; x2 = x1\<lparr>ms_bits := v\<rparr>; x3 = x2\<lparr>ms_frame := position + 1\<rparr>
      in b\<lparr>mb_samples := (mb_samples b)[slot := x3]\<rparr>)"

definition mic_buffer_write :: "u64 \<Rightarrow> float_value list option \<Rightarrow> u32 \<Rightarrow> mic_buffer \<Rightarrow> bool \<times> mic_buffer" where
  "mic_buffer_write frame samples count b =
     (if \<not> mic_write_ok (mb_first b) frame samples count then (False, b)
      else (True, fold (\<lambda>i. mic_store (frame + of_nat i) (mic_pair (the samples) i)) [0..<unat count] b))"

definition mic_load :: "mic_buffer \<Rightarrow> u64 \<Rightarrow> u64 \<Rightarrow> stereo" where
  "mic_load b first position =
     (if position < first then silence
      else let x = mb_samples b ! mic_slot position; before = ms_frame x; bits = ms_bits x; after = ms_frame x in
        if before = position + 1 \<and> after = before then bits else silence)"

text \<open>The result and the frames stored in the caller's array, \<^verbatim>\<open>None\<close> when it is left alone.\<close>

definition mic_buffer_read :: "u64 \<Rightarrow> bool \<Rightarrow> u32 \<Rightarrow> mic_buffer \<Rightarrow> bool \<times> stereo list option" where
  "mic_buffer_read frame samples count b =
     (if \<not> samples \<or> PLANKMicMaxIO < unat count then (False, None)
      else if 0xffffffffffffffff - ucast count < frame then (False, Some (replicate (unat count) silence))
      else if and (mb_generation b) 1 \<noteq> 0 then (True, Some (replicate (unat count) silence))
      else (True, Some (map (\<lambda>i. mic_load b (mb_first b) (frame + of_nat i)) [0..<unat count])))"

section \<open>The history\<close>

definition mic_history :: "mic_buffer \<Rightarrow> u64 \<rightharpoonup> stereo" where
  "mic_history b p =
     (if mb_first b \<le> p \<and> ms_frame (mb_samples b ! mic_slot p) = p + 1
      then Some (ms_bits (mb_samples b ! mic_slot p)) else None)"

lemma mic_slot_less [simp]: "length xs = PLANKMicFrames \<Longrightarrow> mic_slot p < length xs"
  by (simp add: mic_slot_def)

lemma mic_slot_less' [simp]: "mic_slot p < PLANKMicFrames"
  by (simp add: mic_slot_def)

lemma mic_load_history: "mic_load b (mb_first b) p = (case mic_history b p of None \<Rightarrow> silence | Some v \<Rightarrow> v)"
  by (auto simp: mic_load_def mic_history_def Let_def)

lemma mic_store_fields [simp]:
  "mb_first (mic_store p v b) = mb_first b" "mb_generation (mic_store p v b) = mb_generation b"
  "length (mb_samples (mic_store p v b)) = length (mb_samples b)"
  by (simp_all add: mic_store_def Let_def)

lemma mic_history_store:
  assumes "length (mb_samples b) = PLANKMicFrames"
  shows "mic_history (mic_store p v b) q =
    (if q = p then (if mb_first b \<le> p then Some v else None)
     else if mic_slot q = mic_slot p then None else mic_history b q)"
  using assms by (auto simp: mic_history_def mic_store_def Let_def nth_list_update)

text \<open>Positions less than 8192 apart have slots of their own.\<close>

lemma mic_slot_distinct:
  assumes "unat f + j < 2 ^ 64" "i < j" "j \<le> i + PLANKMicFrames - 1"
  shows "mic_slot (f + of_nat i) \<noteq> mic_slot (f + of_nat j)"
proof
  have u: "unat (f + of_nat i) = unat f + i" "unat (f + of_nat j) = unat f + j"
    using assms(1,2) by (simp_all add: unat_word_ariths unat_of_nat)
  assume "mic_slot (f + of_nat i) = mic_slot (f + of_nat j)"
  then have "(unat f + i + 0) mod PLANKMicFrames = (unat f + i + (j - i)) mod PLANKMicFrames"
    using assms(2) by (simp add: mic_slot_def u)
  moreover have "j - i < PLANKMicFrames" using assms(2,3) by linarith
  ultimately show False using ring_slot_inj_le [of "unat f + i" 0 PLANKMicFrames "j - i"] assms(2) by simp
qed

text \<open>\<^verbatim>\<open>mic_holds b f xs\<close>: of the samples \<^verbatim>\<open>xs\<close> written from position \<^verbatim>\<open>f\<close> on, the buffer has the last 8192.\<close>

definition mic_holds :: "mic_buffer \<Rightarrow> u64 \<Rightarrow> stereo list \<Rightarrow> bool" where
  "mic_holds b f xs \<longleftrightarrow> length (mb_samples b) = PLANKMicFrames \<and> mb_first b \<le> f \<and>
     (\<forall>k < length xs. length xs \<le> k + PLANKMicFrames \<longrightarrow> mic_history b (f + of_nat k) = Some (xs ! k))"

lemma mic_holds_store:
  assumes "mic_holds b f xs" "unat f + length xs < 2 ^ 64 - 1"
  shows "mic_holds (mic_store (f + of_nat (length xs)) v b) f (xs @ [v])"
proof -
  let ?p = "f + of_nat (length xs)"
  have len: "length (mb_samples b) = PLANKMicFrames" and first: "mb_first b \<le> f"
    and old: "\<And>k. k < length xs \<Longrightarrow> length xs \<le> k + PLANKMicFrames \<Longrightarrow> mic_history b (f + of_nat k) = Some (xs ! k)"
    using assms(1) by (auto simp: mic_holds_def)
  have "f \<le> ?p" using assms(2) by (simp add: word_le_nat_alt unat_word_ariths unat_of_nat)
  then have "mic_history (mic_store ?p v b) ?p = Some v" using len first by (simp add: mic_history_store)
  moreover have "mic_history (mic_store ?p v b) (f + of_nat k) = Some (xs ! k)"
    if "k < length xs" "Suc (length xs) \<le> k + PLANKMicFrames" for k
  proof -
    have "mic_slot (f + of_nat k) \<noteq> mic_slot ?p"
      using assms(2) that by (intro mic_slot_distinct) simp_all
    then show ?thesis using len old that by (auto simp: mic_history_store)
  qed
  ultimately show ?thesis using len first by (auto simp: mic_holds_def nth_append less_Suc_eq)
qed

lemma mic_holds_fold:
  assumes "mic_holds b f xs" "unat f + length xs + n < 2 ^ 64"
  shows "mic_holds (fold (\<lambda>i. mic_store (f + of_nat (length xs) + of_nat i) (g i)) [0..<n] b) f (xs @ map g [0..<n])"
  using assms(2)
proof (induction n)
  case 0
  then show ?case using assms(1) by simp
next
  case (Suc n)
  then have "mic_holds (fold (\<lambda>i. mic_store (f + of_nat (length xs) + of_nat i) (g i)) [0..<n] b) f (xs @ map g [0..<n])" by simp
  from mic_holds_store [OF this, of "g n"] Suc.prems show ?case by (simp add: add.assoc)
qed

section \<open>Consecutive blocks\<close>

text \<open>Blocks written one after the other, every write accepted.\<close>

fun mic_write_blocks :: "u64 \<Rightarrow> float_value list list \<Rightarrow> mic_buffer \<Rightarrow> mic_buffer option" where
  "mic_write_blocks f [] b = Some b"
| "mic_write_blocks f (samples # rest) b =
     (let count = of_nat (length samples div 2) in
      case mic_buffer_write f (Some samples) count b of
        (accepted, b') \<Rightarrow> if accepted then mic_write_blocks (f + ucast count) rest b' else None)"

definition block_frames :: "float_value list \<Rightarrow> stereo list" where
  "block_frames samples = map (mic_pair samples) [0..<unat (of_nat (length samples div 2) :: u32)]"

lemma mic_buffer_write_fields [simp]: "mb_generation (snd (mic_buffer_write f samples count b)) = mb_generation b"
proof -
  have "mb_generation (fold (\<lambda>i. mic_store (f + of_nat i) (g i)) is b) = mb_generation b" for g "is"
    by (induction "is" arbitrary: b) simp_all
  then show ?thesis by (simp add: mic_buffer_write_def)
qed

lemma unat_ucast_u32: "unat (ucast (n :: u32) :: u64) = unat n"
proof -
  have "unat n < 2 ^ 64" using unsigned_less [of n, where 'a = nat] by simp
  then show ?thesis unfolding unsigned_ucast_eq by (intro take_bit_nat_eq_self) simp
qed

lemma u32_below_max: "(ucast (count :: u32) :: u64) \<le> 0xffffffffffffffff"
  using unsigned_less [of count, where 'a = nat] by (simp add: word_le_nat_alt unat_ucast_u32)

lemma mic_write_accepted:
  assumes "mic_buffer_write f (Some samples) count b = (True, b')"
  shows "unat f + unat count < 2 ^ 64"
    and "b' = fold (\<lambda>i. mic_store (f + of_nat i) (mic_pair samples i)) [0..<unat count] b"
proof -
  have ok: "mic_write_ok (mb_first b) f (Some samples) count"
    using assms by (auto simp: mic_buffer_write_def split: if_split_asm)
  then have "f \<le> 0xffffffffffffffff - ucast count" by (simp add: mic_write_ok_def not_less)
  then have "unat f \<le> 0xffffffffffffffff - unat count"
    using u32_below_max [of count] by (simp add: word_le_nat_alt unat_sub unat_ucast_u32)
  moreover have "unat count < 2 ^ 32" using unsigned_less [of count] by simp
  ultimately show "unat f + unat count < 2 ^ 64" by simp
  show "b' = fold (\<lambda>i. mic_store (f + of_nat i) (mic_pair samples i)) [0..<unat count] b"
    using assms ok by (simp add: mic_buffer_write_def)
qed

lemma mic_holds_blocks:
  assumes "mic_holds b f xs" "unat f + length xs < 2 ^ 64" "mic_write_blocks (f + of_nat (length xs)) blocks b = Some b'"
  shows "mic_holds b' f (xs @ concat (map block_frames blocks)) \<and> mb_generation b' = mb_generation b"
  using assms
proof (induction blocks arbitrary: b xs)
  case (Cons samples rest)
  let ?p = "f + of_nat (length xs)" and ?n = "of_nat (length samples div 2) :: u32"
  obtain b1 where w: "mic_buffer_write ?p (Some samples) ?n b = (True, b1)"
    and r: "mic_write_blocks (?p + ucast ?n) rest b1 = Some b'"
    using Cons.prems(3) by (auto simp: Let_def split: prod.split_asm if_split_asm)
  have p: "unat ?p = unat f + length xs" using Cons.prems(2) by (simp add: unat_word_ariths unat_of_nat)
  have le: "unat f + length xs + unat ?n < 2 ^ 64" using mic_write_accepted(1) [OF w] p by simp
  have "mic_holds b1 f (xs @ map (mic_pair samples) [0..<unat ?n])"
    using mic_holds_fold [OF Cons.prems(1) le, of "mic_pair samples"] mic_write_accepted(2) [OF w] by simp
  moreover have "?p + ucast ?n = f + of_nat (length (xs @ block_frames samples))"
    by (simp add: block_frames_def add.assoc)
  ultimately have "mic_holds b' f ((xs @ block_frames samples) @ concat (map block_frames rest)) \<and> mb_generation b' = mb_generation b1"
    using r [unfolded add.assoc] le by (intro Cons.IH) (simp_all add: block_frames_def)
  moreover have "mb_generation b1 = mb_generation b" using mic_buffer_write_fields [of ?p "Some samples" ?n b] w by simp
  ultimately show ?case by simp
qed simp

text \<open>C18: after any accepted run of consecutive blocks from the buffer's first position, every reader that asks for
  samples among the last 8192 written gets exactly these samples, clamped, whatever other readers did and however
  far behind it had fallen.\<close>

theorem mic_history_reads_back:
  assumes "mb_first b = f" "length (mb_samples b) = PLANKMicFrames" "and (mb_generation b) 1 = 0"
    and "mic_write_blocks f blocks b = Some b'" "xs = concat (map block_frames blocks)"
    and "unat f + length xs < 2 ^ 64" "d + unat count \<le> length xs" "length xs \<le> d + PLANKMicFrames"
  shows "mic_buffer_read (f + of_nat d) True count b' = (True, Some (take (unat count) (drop d xs)))"
proof -
  have "mic_holds b f []" using assms(1,2) by (simp add: mic_holds_def)
  then have h: "mic_holds b' f xs" and g: "mb_generation b' = mb_generation b"
    using mic_holds_blocks [of b f "[]" blocks b'] unsigned_less [of f] assms(4,5) by auto
  have n: "unat count \<le> PLANKMicFrames" using assms(7,8) by linarith
  have p: "unat (f + of_nat d) = unat f + d" using assms(6,7) by (simp add: unat_word_ariths unat_of_nat)
  have fits: "\<not> 0xffffffffffffffff - ucast count < f + of_nat d"
    using assms(6,7) p u32_below_max [of count] by (simp add: word_less_nat_alt unat_sub unat_ucast_u32)
  have "mic_load b' (mb_first b') (f + of_nat d + of_nat i) = xs ! (d + i)" if "i < unat count" for i
  proof -
    have "d + i < length xs" "length xs \<le> d + i + PLANKMicFrames" using that assms(7,8) by linarith+
    then have "mic_history b' (f + of_nat (d + i)) = Some (xs ! (d + i))" using h unfolding mic_holds_def by blast
    then show ?thesis by (simp add: mic_load_history add.assoc)
  qed
  then have "map (\<lambda>i. mic_load b' (mb_first b') (f + of_nat d + of_nat i)) [0..<unat count] = take (unat count) (drop d xs)"
    using assms(7) by (intro nth_equalityI) simp_all
  then show ?thesis using n fits g assms(3) by (simp add: mic_buffer_read_def)
qed

theorem mic_history_reads_back_witness:
  "mic_buffer_read 0 True 1 (mic_store 0 (Finite (1 / 2), Finite (- 1)) mic_buffer_init) =
     (True, Some [(Finite (1 / 2), Finite (- 1))])"
proof -
  let ?b = "mic_store 0 (Finite (1 / 2), Finite (- 1)) mic_buffer_init"
  have pair: "mic_pair [Finite (1 / 2), Finite (- 2)] 0 = (Finite (1 / 2), Finite (- 1))"
    by (simp add: mic_pair_def mic_clamp_def fminf_def fmaxf_def)
  have ok: "mic_write_ok 0 0 (Some [Finite (1 / 2), Finite (- 2)]) 1"
    by (simp add: mic_write_ok_def less_Suc_eq numeral_2_eq_2)
  have w: "mic_write_blocks 0 [[Finite (1 / 2), Finite (- 2)]] mic_buffer_init = Some ?b"
    using ok pair by (simp add: mic_buffer_write_def mic_buffer_init_def)
  have "mic_buffer_read (0 + of_nat 0) True 1 ?b =
      (True, Some (take (unat (1 :: u32)) (drop 0 (concat (map block_frames [[Finite (1 / 2), Finite (- 2)]])))))"
    by (rule mic_history_reads_back [OF _ _ _ w refl]) (simp_all add: mic_buffer_init_def block_frames_def)
  then show ?thesis by (simp add: block_frames_def pair)
qed

end
