(* ===== verification/Mic_Buffer_Threads.thy ===== *)
theory Mic_Buffer_Threads
  imports Mic_Buffer Step_System
begin

text \<open>
  The sample history of \<^verbatim>\<open>microphone-buffer.h\<close> under every interleaving of its one writer with a reader. Each
  rule is one atomic access of the C code, in program order, with sequentially consistent memory; readers do not
  write, so one of them stands for all.

  History variables: \<^verbatim>\<open>hg_last\<close>, the stamp that belongs to the payload of a slot; \<^verbatim>\<open>hg_log\<close>, what was stored, as
  generation, position and value; \<^verbatim>\<open>hg_delivered\<close>, the completed reads. What the code demands of its caller is a
  guard of the writer's rules: within a generation the device time of a write is not 8192 or more behind what
  was written, and the generation counter does not run over.
\<close>

datatype hist_writer = HW_Idle
  | HW_Clear u64 "stereo list" nat | HW_Payload u64 "stereo list" nat | HW_Stamp u64 "stereo list" nat
  | HW_First u64 | HW_Wipe nat

datatype hist_reader = HR_Idle | HR_First u64 u64 nat
  | HR_Load u64 u64 u64 nat "stereo option list"
  | HR_Bits u64 u64 u64 nat "stereo option list" u64
  | HR_After u64 u64 u64 nat "stereo option list" u64 stereo

record hist_state =
  hb :: mic_buffer
  hw :: hist_writer
  hr :: hist_reader
  hg_last :: "nat \<Rightarrow> u64"
  hg_log :: "(u64 \<times> u64 \<times> stereo) set"
  hg_delivered :: "(u64 \<times> u64 \<times> stereo option list) list"

definition hist_start :: hist_state where
  "hist_start = \<lparr>hb = mic_buffer_init, hw = HW_Idle, hr = HR_Idle, hg_last = (\<lambda>k. 0), hg_log = {}, hg_delivered = []\<rparr>"

definition gen :: "hist_state \<Rightarrow> u64" where "gen s = mb_generation (hb s)"
definition stamp :: "hist_state \<Rightarrow> nat \<Rightarrow> u64" where "stamp s k = ms_frame (mb_samples (hb s) ! k)"
definition payload :: "hist_state \<Rightarrow> nat \<Rightarrow> stereo" where "payload s k = ms_bits (mb_samples (hb s) ! k)"

definition on_sample :: "nat \<Rightarrow> (mic_sample \<Rightarrow> mic_sample) \<Rightarrow> mic_buffer \<Rightarrow> mic_buffer" where
  "on_sample k f b = b\<lparr>mb_samples := (mb_samples b)[k := f (mb_samples b ! k)]\<rparr>"

text \<open>The position of the sample in hand.\<close>

abbreviation pos :: "u64 \<Rightarrow> nat \<Rightarrow> u64" where "pos frame i \<equiv> frame + of_nat i"

inductive hist_writer_step :: "hist_state \<Rightarrow> hist_state \<Rightarrow> bool" where
  write_begin:
    "hw s = HW_Idle \<Longrightarrow> mic_write_ok (mb_first (hb s)) frame samples count \<Longrightarrow>
     vs = map (mic_pair (the samples)) [0..<unat count] \<Longrightarrow>
     \<forall>j < length vs. hg_last s (mic_slot (pos frame j)) \<le> pos frame j + 1 \<Longrightarrow>
     hist_writer_step s (s\<lparr>hw := HW_Clear frame vs 0\<rparr>)"
| write_clear:
    "hw s = HW_Clear frame vs i \<Longrightarrow> i < length vs \<Longrightarrow>
     hist_writer_step s (s\<lparr>hb := on_sample (mic_slot (pos frame i)) (\<lambda>x. x\<lparr>ms_frame := 0\<rparr>) (hb s), hw := HW_Payload frame vs i\<rparr>)"
| write_payload:
    "hw s = HW_Payload frame vs i \<Longrightarrow>
     hist_writer_step s (s\<lparr>hb := on_sample (mic_slot (pos frame i)) (\<lambda>x. x\<lparr>ms_bits := vs ! i\<rparr>) (hb s), hw := HW_Stamp frame vs i,
       hg_last := (hg_last s)(mic_slot (pos frame i) := pos frame i + 1),
       hg_log := insert (gen s, pos frame i, vs ! i) (hg_log s)\<rparr>)"
| write_stamp:
    "hw s = HW_Stamp frame vs i \<Longrightarrow>
     hist_writer_step s (s\<lparr>hb := on_sample (mic_slot (pos frame i)) (\<lambda>x. x\<lparr>ms_frame := pos frame i + 1\<rparr>) (hb s),
       hw := HW_Clear frame vs (i + 1)\<rparr>)"
| write_done: "hw s = HW_Clear frame vs i \<Longrightarrow> i = length vs \<Longrightarrow> hist_writer_step s (s\<lparr>hw := HW_Idle\<rparr>)"
| reset_begin:
    "hw s = HW_Idle \<Longrightarrow> gen s < 0xfffffffffffffffe \<Longrightarrow>
     hist_writer_step s (s\<lparr>hb := (hb s)\<lparr>mb_generation := gen s + 1\<rparr>, hw := HW_First first\<rparr>)"
| reset_first: "hw s = HW_First first \<Longrightarrow> hist_writer_step s (s\<lparr>hb := (hb s)\<lparr>mb_first := first\<rparr>, hw := HW_Wipe 0\<rparr>)"
| reset_wipe:
    "hw s = HW_Wipe i \<Longrightarrow> i < PLANKMicFrames \<Longrightarrow>
     hist_writer_step s (s\<lparr>hb := on_sample i (\<lambda>x. x\<lparr>ms_frame := 0\<rparr>) (hb s), hw := HW_Wipe (i + 1)\<rparr>)"
| reset_end:
    "hw s = HW_Wipe i \<Longrightarrow> i = PLANKMicFrames \<Longrightarrow>
     hist_writer_step s (s\<lparr>hb := (hb s)\<lparr>mb_generation := gen s + 1\<rparr>, hw := HW_Idle, hg_last := (\<lambda>k. 0)\<rparr>)"

definition hist_deliver :: "u64 \<Rightarrow> u64 \<Rightarrow> stereo option list \<Rightarrow> hist_state \<Rightarrow> hist_state" where
  "hist_deliver g frame res s = s\<lparr>hr := HR_Idle, hg_delivered := hg_delivered s @ [(g, frame, res)]\<rparr>"

text \<open>What a reader does next, as a function: its reads are of one shared location each.\<close>

fun reader_next :: "hist_reader \<Rightarrow> hist_state \<Rightarrow> hist_state" where
  "reader_next HR_Idle s = s"
| "reader_next (HR_First g frame n) s = s\<lparr>hr := HR_Load g (mb_first (hb s)) frame n []\<rparr>"
| "reader_next (HR_Load g first frame n acc) s =
     (if length acc = n
      then hist_deliver g frame (if g \<noteq> gen s then map (\<lambda>_. None) acc else acc) s
      else let p = pos frame (length acc) in
        if p < first then s\<lparr>hr := HR_Load g first frame n (acc @ [None])\<rparr>
        else s\<lparr>hr := HR_Bits g first frame n acc (stamp s (mic_slot p))\<rparr>)"
| "reader_next (HR_Bits g first frame n acc before) s =
     s\<lparr>hr := HR_After g first frame n acc before (payload s (mic_slot (pos frame (length acc))))\<rparr>"
| "reader_next (HR_After g first frame n acc before bits) s =
     (let p = pos frame (length acc); after = stamp s (mic_slot p) in
      s\<lparr>hr := HR_Load g first frame n (acc @ [if before = p + 1 \<and> after = before then Some bits else None])\<rparr>)"

inductive hist_reader_step :: "hist_state \<Rightarrow> hist_state \<Rightarrow> bool" where
  read_begin:
    "hr s = HR_Idle \<Longrightarrow> unat count \<le> PLANKMicMaxIO \<Longrightarrow> \<not> 0xffffffffffffffff - ucast (count :: u32) < frame \<Longrightarrow>
     hist_reader_step s
       (if and (gen s) 1 \<noteq> 0 then hist_deliver (gen s) frame (replicate (unat count) None) s
        else s\<lparr>hr := HR_First (gen s) frame (unat count)\<rparr>)"
| read_next: "hr s \<noteq> HR_Idle \<Longrightarrow> hist_reader_step s (reader_next (hr s) s)"

definition hist_step :: "hist_state \<Rightarrow> hist_state \<Rightarrow> bool" where
  "hist_step s t \<longleftrightarrow> hist_writer_step s t \<or> hist_reader_step s t"

section \<open>Slots\<close>

definition even_gen :: "hist_state \<Rightarrow> bool" where "even_gen s \<longleftrightarrow> and (gen s) 1 = 0"

definition hist_slots_inv :: "hist_state \<Rightarrow> bool" where
  "hist_slots_inv s \<longleftrightarrow> length (mb_samples (hb s)) = PLANKMicFrames \<and>
     (\<forall>k < PLANKMicFrames. stamp s k \<noteq> 0 \<longrightarrow> stamp s k = hg_last s k) \<and>
     (even_gen s \<longrightarrow> (\<forall>k < PLANKMicFrames. hg_last s k \<noteq> 0 \<longrightarrow> (gen s, hg_last s k - 1, payload s k) \<in> hg_log s))"

definition block_inv :: "hist_state \<Rightarrow> u64 \<Rightarrow> stereo list \<Rightarrow> nat \<Rightarrow> bool" where
  "block_inv s frame vs i \<longleftrightarrow> even_gen s \<and> i \<le> length vs \<and> length vs \<le> PLANKMicFrames \<and>
     unat frame + length vs < 2 ^ 64 \<and>
     (\<forall>j < length vs. i \<le> j \<longrightarrow> hg_last s (mic_slot (pos frame j)) \<le> pos frame j + 1)"

fun hist_writer_inv :: "hist_writer \<Rightarrow> hist_state \<Rightarrow> bool" where
  "hist_writer_inv HW_Idle s = even_gen s"
| "hist_writer_inv (HW_Clear frame vs i) s = block_inv s frame vs i"
| "hist_writer_inv (HW_Payload frame vs i) s =
     (block_inv s frame vs i \<and> i < length vs \<and> stamp s (mic_slot (pos frame i)) = 0)"
| "hist_writer_inv (HW_Stamp frame vs i) s =
     (block_inv s frame vs i \<and> i < length vs \<and> stamp s (mic_slot (pos frame i)) = 0 \<and>
      hg_last s (mic_slot (pos frame i)) = pos frame i + 1)"
| "hist_writer_inv (HW_First first) s = (\<not> even_gen s \<and> gen s < 0xffffffffffffffff)"
| "hist_writer_inv (HW_Wipe i) s = (\<not> even_gen s \<and> gen s < 0xffffffffffffffff \<and> i \<le> PLANKMicFrames \<and> (\<forall>j < i. stamp s j = 0))"

lemma gen_simps [simp]:
  "gen (s\<lparr>hw := w\<rparr>) = gen s" "gen (s\<lparr>hr := r\<rparr>) = gen s" "gen (s\<lparr>hg_last := l\<rparr>) = gen s" "gen (s\<lparr>hg_log := L\<rparr>) = gen s"
  "gen (s\<lparr>hg_delivered := d\<rparr>) = gen s" "gen (s\<lparr>hb := on_sample k f (hb s)\<rparr>) = gen s"
  "gen (s\<lparr>hb := (hb s)\<lparr>mb_generation := g\<rparr>\<rparr>) = g" "gen (s\<lparr>hb := (hb s)\<lparr>mb_first := x\<rparr>\<rparr>) = gen s"
  by (simp_all add: gen_def on_sample_def)

lemma stamp_simps [simp]:
  "stamp (s\<lparr>hw := w\<rparr>) = stamp s" "stamp (s\<lparr>hr := r\<rparr>) = stamp s" "stamp (s\<lparr>hg_last := l\<rparr>) = stamp s"
  "stamp (s\<lparr>hg_log := L\<rparr>) = stamp s" "stamp (s\<lparr>hg_delivered := d\<rparr>) = stamp s"
  "stamp (s\<lparr>hb := (hb s)\<lparr>mb_generation := g\<rparr>\<rparr>) = stamp s" "stamp (s\<lparr>hb := (hb s)\<lparr>mb_first := x\<rparr>\<rparr>) = stamp s"
  by (simp_all add: stamp_def fun_eq_iff)

lemma payload_simps [simp]:
  "payload (s\<lparr>hw := w\<rparr>) = payload s" "payload (s\<lparr>hr := r\<rparr>) = payload s" "payload (s\<lparr>hg_last := l\<rparr>) = payload s"
  "payload (s\<lparr>hg_log := L\<rparr>) = payload s" "payload (s\<lparr>hg_delivered := d\<rparr>) = payload s"
  "payload (s\<lparr>hb := (hb s)\<lparr>mb_generation := g\<rparr>\<rparr>) = payload s" "payload (s\<lparr>hb := (hb s)\<lparr>mb_first := x\<rparr>\<rparr>) = payload s"
  by (simp_all add: payload_def fun_eq_iff)

lemma on_sample_simps:
  assumes "length (mb_samples (hb s)) = PLANKMicFrames" "k < PLANKMicFrames"
  shows "stamp (s\<lparr>hb := on_sample k f (hb s)\<rparr>) j = (if j = k then ms_frame (f (mb_samples (hb s) ! k)) else stamp s j)"
    and "payload (s\<lparr>hb := on_sample k f (hb s)\<rparr>) j = (if j = k then ms_bits (f (mb_samples (hb s) ! k)) else payload s j)"
  using assms by (auto simp: stamp_def payload_def on_sample_def nth_list_update)

lemma on_sample_other [simp]:
  "payload (s\<lparr>hb := on_sample k (\<lambda>x. x\<lparr>ms_frame := y\<rparr>) (hb s)\<rparr>) = payload s"
  "stamp (s\<lparr>hb := on_sample k (\<lambda>x. x\<lparr>ms_bits := v\<rparr>) (hb s)\<rparr>) = stamp s"
  by (cases "k < length (mb_samples (hb s))";
      simp add: payload_def stamp_def on_sample_def fun_eq_iff nth_list_update list_update_beyond)+

lemma length_on_sample [simp]: "length (mb_samples (on_sample k f b)) = length (mb_samples b)"
  by (simp add: on_sample_def)

lemma even_gen_simps [simp]:
  "even_gen (s\<lparr>hw := w\<rparr>) = even_gen s" "even_gen (s\<lparr>hr := r\<rparr>) = even_gen s" "even_gen (s\<lparr>hg_last := l\<rparr>) = even_gen s"
  "even_gen (s\<lparr>hg_log := L\<rparr>) = even_gen s" "even_gen (s\<lparr>hg_delivered := d\<rparr>) = even_gen s"
  "even_gen (s\<lparr>hb := on_sample k f (hb s)\<rparr>) = even_gen s" "even_gen (s\<lparr>hb := (hb s)\<lparr>mb_first := x\<rparr>\<rparr>) = even_gen s"
  by (simp_all add: even_gen_def)

lemma and_one_succ: "and ((g :: u64) + 1) 1 = 0 \<longleftrightarrow> and g 1 \<noteq> 0"
  unfolding and_one_eq even_iff_mod_2_eq_zero [symmetric] by simp

lemma even_gen_succ [simp]: "even_gen (s\<lparr>hb := (hb s)\<lparr>mb_generation := gen s + 1\<rparr>\<rparr>) \<longleftrightarrow> \<not> even_gen s"
  by (simp add: even_gen_def and_one_succ)

lemma block_inv_simps [simp]:
  "block_inv (s\<lparr>hw := w\<rparr>) f vs i = block_inv s f vs i"
  "block_inv (s\<lparr>hg_log := L\<rparr>) f vs i = block_inv s f vs i"
  "block_inv (s\<lparr>hb := on_sample k g (hb s)\<rparr>) f vs i = block_inv s f vs i"
  by (simp_all add: block_inv_def)

text \<open>Positions of one block do not wrap, so no stamp is zero and no two share a slot.\<close>

lemma block_pos:
  assumes "block_inv s frame vs i" "j < length vs"
  shows "unat (pos frame j) = unat frame + j" "pos frame j + 1 \<noteq> 0" "pos frame j + 1 - 1 = pos frame j"
proof -
  show u: "unat (pos frame j) = unat frame + j"
    using assms by (simp add: block_inv_def unat_word_ariths unat_of_nat)
  have "unat (pos frame j) < 2 ^ 64 - 1" using assms u by (simp add: block_inv_def)
  then have "unat (pos frame j + 1) \<noteq> 0" by (simp add: unat_word_ariths)
  then show "pos frame j + 1 \<noteq> 0" by (metis unat_0)
qed simp

lemma block_slots:
  assumes "block_inv s frame vs i" "j < length vs" "i < length vs" "j \<noteq> i"
  shows "mic_slot (pos frame j) \<noteq> mic_slot (pos frame i)"
  using assms mic_slot_distinct [of frame i j] mic_slot_distinct [of frame j i]
  by (cases "i < j") (auto simp: block_inv_def)

section \<open>The writer\<close>

text \<open>What a reader may rely on: the generation, the log and, within a generation, the stamps only grow.\<close>

definition later :: "hist_state \<Rightarrow> hist_state \<Rightarrow> bool" where
  "later s t \<longleftrightarrow> hr t = hr s \<and> hg_delivered t = hg_delivered s \<and> hg_log s \<subseteq> hg_log t \<and> gen s \<le> gen t \<and>
     (gen t = gen s \<longrightarrow> (\<forall>k. hg_last s k \<le> hg_last t k))"

definition writer_ok :: "hist_state \<Rightarrow> bool" where
  "writer_ok s \<longleftrightarrow> hist_slots_inv s \<and> hist_writer_inv (hw s) s"

lemma gen_succ:
  assumes "gen s < 0xffffffffffffffff"
  shows "gen s < gen s + 1"
  using assms by (simp add: word_less_nat_alt unat_word_ariths)

lemma hist_slots_invD:
  assumes "hist_slots_inv s"
  shows "length (mb_samples (hb s)) = PLANKMicFrames"
    and "k < PLANKMicFrames \<Longrightarrow> stamp s k \<noteq> 0 \<Longrightarrow> stamp s k = hg_last s k"
    and "even_gen s \<Longrightarrow> k < PLANKMicFrames \<Longrightarrow> hg_last s k \<noteq> 0 \<Longrightarrow> (gen s, hg_last s k - 1, payload s k) \<in> hg_log s"
  using assms by (simp_all add: hist_slots_inv_def)

lemma write_begin_ok:
  assumes "writer_ok s" "hw s = HW_Idle" "mic_write_ok (mb_first (hb s)) frame samples count"
    "vs = map (mic_pair (the samples)) [0..<unat count]"
    "\<forall>j < length vs. hg_last s (mic_slot (pos frame j)) \<le> pos frame j + 1"
  shows "writer_ok (s\<lparr>hw := HW_Clear frame vs 0\<rparr>)"
proof -
  have "mic_buffer_write frame (Some (the samples)) count (hb s) = (True, snd (mic_buffer_write frame samples count (hb s)))"
    using assms(3) by (auto simp: mic_buffer_write_def mic_write_ok_def)
  then have "unat frame + unat count < 2 ^ 64" by (rule mic_write_accepted)
  then show ?thesis
    using assms by (auto simp: writer_ok_def hist_slots_inv_def block_inv_def mic_write_ok_def)
qed

lemma write_clear_ok:
  assumes "writer_ok s" "hw s = HW_Clear frame vs i" "i < length vs"
  shows "writer_ok (s\<lparr>hb := on_sample (mic_slot (pos frame i)) (\<lambda>x. x\<lparr>ms_frame := 0\<rparr>) (hb s), hw := HW_Payload frame vs i\<rparr>)"
proof -
  have inv: "hist_slots_inv s" "block_inv s frame vs i" using assms(1,2) by (simp_all add: writer_ok_def)
  note len = hist_slots_invD(1) [OF inv(1)]
  show ?thesis using inv assms(3) len
    by (auto simp: writer_ok_def hist_slots_inv_def on_sample_simps)
qed

lemma write_payload_ok:
  assumes "writer_ok s" "hw s = HW_Payload frame vs i"
  shows "writer_ok (s\<lparr>hb := on_sample (mic_slot (pos frame i)) (\<lambda>x. x\<lparr>ms_bits := vs ! i\<rparr>) (hb s), hw := HW_Stamp frame vs i,
       hg_last := (hg_last s)(mic_slot (pos frame i) := pos frame i + 1),
       hg_log := insert (gen s, pos frame i, vs ! i) (hg_log s)\<rparr>)" (is "writer_ok ?t")
proof -
  have inv: "hist_slots_inv s" "block_inv s frame vs i" "i < length vs" "stamp s (mic_slot (pos frame i)) = 0"
    using assms by (simp_all add: writer_ok_def)
  note len = hist_slots_invD(1) [OF inv(1)]
  have "block_inv ?t frame vs i"
    using inv(2,3) block_slots [OF inv(2) _ inv(3)] by (auto simp: block_inv_def)
  moreover have "hist_slots_inv ?t"
    using inv len block_pos [OF inv(2,3)]
    by (auto simp: hist_slots_inv_def on_sample_simps)
  ultimately show ?thesis
    using inv(3,4) len by (simp add: writer_ok_def on_sample_simps)
qed

lemma write_stamp_ok:
  assumes "writer_ok s" "hw s = HW_Stamp frame vs i"
  shows "writer_ok (s\<lparr>hb := on_sample (mic_slot (pos frame i)) (\<lambda>x. x\<lparr>ms_frame := pos frame i + 1\<rparr>) (hb s),
       hw := HW_Clear frame vs (i + 1)\<rparr>)"
proof -
  have inv: "hist_slots_inv s" "block_inv s frame vs i" "i < length vs" "hg_last s (mic_slot (pos frame i)) = pos frame i + 1"
    using assms by (simp_all add: writer_ok_def)
  note len = hist_slots_invD(1) [OF inv(1)]
  have "block_inv s frame vs (i + 1)" using inv(2,3) by (auto simp: block_inv_def)
  then show ?thesis using inv len
    by (auto simp: writer_ok_def hist_slots_inv_def on_sample_simps)
qed

lemma reset_wipe_ok:
  assumes "writer_ok s" "hw s = HW_Wipe i" "i < PLANKMicFrames"
  shows "writer_ok (s\<lparr>hb := on_sample i (\<lambda>x. x\<lparr>ms_frame := 0\<rparr>) (hb s), hw := HW_Wipe (i + 1)\<rparr>)"
proof -
  have inv: "hist_slots_inv s" "\<not> even_gen s" "gen s < 0xffffffffffffffff" "\<And>j. j < i \<Longrightarrow> stamp s j = 0" using assms(1,2) by (simp_all add: writer_ok_def)
  note len = hist_slots_invD(1) [OF inv(1)]
  show ?thesis using inv assms(3) len
    by (auto simp: writer_ok_def hist_slots_inv_def on_sample_simps less_Suc_eq)
qed

lemma hist_writer_step_ok: "hist_writer_step s t \<Longrightarrow> writer_ok s \<Longrightarrow> writer_ok t"
proof (induction rule: hist_writer_step.induct)
  case (write_begin s frame samples count vs)
  then show ?case using write_begin_ok by blast
next
  case (write_done s frame vs i)
  then show ?case by (simp add: writer_ok_def hist_slots_inv_def block_inv_def)
next
  case (reset_begin s first)
  then have "gen s + 1 < 0xffffffffffffffff" by (simp add: word_less_nat_alt unat_word_ariths)
  then show ?case using reset_begin by (simp add: writer_ok_def hist_slots_inv_def)
next
  case (reset_first s first)
  then show ?case by (simp add: writer_ok_def hist_slots_inv_def)
next
  case (reset_end s i)
  then show ?case by (simp add: writer_ok_def hist_slots_inv_def)
qed (blast intro: write_clear_ok write_payload_ok write_stamp_ok reset_wipe_ok)+

lemma hist_writer_step_later: "hist_writer_step s t \<Longrightarrow> writer_ok s \<Longrightarrow> later s t"
proof (induction rule: hist_writer_step.induct)
  case (write_payload s frame vs i)
  then have "hg_last s (mic_slot (pos frame i)) \<le> pos frame i + 1"
    by (simp add: writer_ok_def block_inv_def)
  then show ?case by (auto simp: later_def)
next
  case (reset_begin s first)
  then have "gen s < gen s + 1" by (intro gen_succ) (simp add: word_less_nat_alt)
  then show ?case by (simp add: later_def)
next
  case (reset_end s i)
  then have "gen s < gen s + 1" by (intro gen_succ) (simp add: writer_ok_def)
  then show ?case by (simp add: later_def)
qed (simp_all add: later_def)

section \<open>The reader\<close>

definition logged :: "(u64 \<times> u64 \<times> stereo) set \<Rightarrow> u64 \<Rightarrow> u64 \<Rightarrow> stereo option list \<Rightarrow> bool" where
  "logged L g frame res \<longleftrightarrow> (\<forall>i < length res. \<forall>v. res ! i = Some v \<longrightarrow> (g, pos frame i, v) \<in> L)"

definition hist_reading :: "hist_state \<Rightarrow> u64 \<Rightarrow> u64 \<Rightarrow> nat \<Rightarrow> stereo option list \<Rightarrow> bool" where
  "hist_reading s g frame n acc \<longleftrightarrow> and g 1 = 0 \<and> g \<le> gen s \<and> length acc \<le> n \<and> unat frame + n < 2 ^ 64 \<and>
     (gen s = g \<longrightarrow> logged (hg_log s) g frame acc)"

fun hist_reader_inv :: "hist_reader \<Rightarrow> hist_state \<Rightarrow> bool" where
  "hist_reader_inv HR_Idle s = True"
| "hist_reader_inv (HR_First g frame n) s = hist_reading s g frame n []"
| "hist_reader_inv (HR_Load g first frame n acc) s = hist_reading s g frame n acc"
| "hist_reader_inv (HR_Bits g first frame n acc before) s =
     (hist_reading s g frame n acc \<and> length acc < n \<and>
      (gen s = g \<longrightarrow> before \<noteq> 0 \<longrightarrow> before \<le> hg_last s (mic_slot (pos frame (length acc)))))"
| "hist_reader_inv (HR_After g first frame n acc before bits) s =
     (hist_reading s g frame n acc \<and> length acc < n \<and>
      (gen s = g \<longrightarrow> before = pos frame (length acc) + 1 \<longrightarrow>
         (g, pos frame (length acc), bits) \<in> hg_log s \<or>
         pos frame (length acc) + 1 < hg_last s (mic_slot (pos frame (length acc)))))"

definition hist_delivered_inv :: "hist_state \<Rightarrow> bool" where
  "hist_delivered_inv s \<longleftrightarrow> (\<forall>(g, frame, res) \<in> set (hg_delivered s). logged (hg_log s) g frame res)"

definition hist_inv :: "hist_state \<Rightarrow> bool" where
  "hist_inv s \<longleftrightarrow> writer_ok s \<and> hist_reader_inv (hr s) s \<and> hist_delivered_inv s"

lemma logged_mono: "logged L g frame res \<Longrightarrow> L \<subseteq> L' \<Longrightarrow> logged L' g frame res"
  by (auto simp: logged_def)

lemma logged_Nil [simp]: "logged L g frame []"
  by (simp add: logged_def)

lemma logged_silent [simp]: "logged L g frame (map (\<lambda>_. None) xs)" "logged L g frame (replicate n None)"
  by (simp_all add: logged_def)

lemma logged_append:
  "logged L g frame (acc @ [r]) \<longleftrightarrow> logged L g frame acc \<and> (\<forall>v. r = Some v \<longrightarrow> (g, pos frame (length acc), v) \<in> L)"
  by (auto simp: logged_def nth_append less_Suc_eq)

lemma hist_reading_later: "hist_reading s g frame n acc \<Longrightarrow> later s t \<Longrightarrow> hist_reading t g frame n acc"
  by (auto simp: hist_reading_def later_def intro: logged_mono)

lemma later_gen: "later s t \<Longrightarrow> g \<le> gen s \<Longrightarrow> gen t = g \<Longrightarrow> gen s = g \<and> hg_last s k \<le> hg_last t k"
  by (auto simp: later_def)

lemma hist_reader_inv_later:
  assumes "later s t" "hist_reader_inv r s"
  shows "hist_reader_inv r t"
proof (cases r)
  case (HR_Bits g first frame n acc before)
  then have r: "hist_reading s g frame n acc" "length acc < n"
    "gen s = g \<Longrightarrow> before \<noteq> 0 \<Longrightarrow> before \<le> hg_last s (mic_slot (pos frame (length acc)))" using assms(2) by simp_all
  then show ?thesis using HR_Bits hist_reading_later [OF r(1) assms(1)] later_gen [OF assms(1), of g]
    by (auto simp: hist_reading_def intro: order_trans)
next
  case (HR_After g first frame n acc before bits)
  let ?k = "mic_slot (pos frame (length acc))"
  have r: "hist_reading s g frame n acc" "length acc < n"
    "gen s = g \<Longrightarrow> before = pos frame (length acc) + 1 \<Longrightarrow>
       (g, pos frame (length acc), bits) \<in> hg_log s \<or> pos frame (length acc) + 1 < hg_last s ?k"
    using assms(2) HR_After by simp_all
  have "hg_log s \<subseteq> hg_log t" using assms(1) by (simp add: later_def)
  then show ?thesis using HR_After r hist_reading_later [OF r(1) assms(1)] later_gen [OF assms(1), of g ?k]
    by (auto simp: hist_reading_def intro: order.strict_trans2)
qed (use assms hist_reading_later in auto)

lemma hist_delivered_inv_later: "later s t \<Longrightarrow> hist_delivered_inv s \<Longrightarrow> hist_delivered_inv t"
  by (auto simp: hist_delivered_inv_def later_def intro: logged_mono)

lemma hist_writer_step_inv: "hist_inv s \<Longrightarrow> hist_writer_step s t \<Longrightarrow> hist_inv t"
proof -
  assume inv: "hist_inv s" and step: "hist_writer_step s t"
  have l: "later s t" using hist_writer_step_later [OF step] inv by (simp add: hist_inv_def)
  have "hr t = hr s" using l by (simp add: later_def)
  then show "hist_inv t"
    using inv hist_writer_step_ok [OF step] hist_reader_inv_later [OF l] hist_delivered_inv_later [OF l] by (simp add: hist_inv_def)
qed

text \<open>A reader changes nothing the writer sees.\<close>

lemma hist_writer_inv_hr [simp]: "hist_writer_inv w (s\<lparr>hr := r\<rparr>) = hist_writer_inv w s" "hist_writer_inv w (s\<lparr>hg_delivered := d\<rparr>) = hist_writer_inv w s"
  by (cases w; simp add: block_inv_def)+

lemma writer_ok_hr [simp]: "writer_ok (s\<lparr>hr := r\<rparr>) = writer_ok s" "writer_ok (s\<lparr>hg_delivered := d\<rparr>) = writer_ok s"
  by (simp_all add: writer_ok_def hist_slots_inv_def)

lemma hist_reading_hr [simp]: "hist_reading (s\<lparr>hr := r\<rparr>) g frame n acc = hist_reading s g frame n acc"
  by (simp add: hist_reading_def)

lemma hist_deliver_inv:
  assumes "hist_inv s" "logged (hg_log s) g frame res"
  shows "hist_inv (hist_deliver g frame res s)"
  using assms by (auto simp: hist_inv_def hist_deliver_def hist_delivered_inv_def)

lemma read_bits_inv:
  assumes "hist_inv s" "hr s = HR_Bits g first frame n acc before"
  shows "hist_inv (reader_next (HR_Bits g first frame n acc before) s)"
proof -
  let ?p = "pos frame (length acc)"
  have w: "hist_slots_inv s" and r: "hist_reading s g frame n acc" "length acc < n"
    "gen s = g \<Longrightarrow> before \<noteq> 0 \<Longrightarrow> before \<le> hg_last s (mic_slot ?p)" and d: "hist_delivered_inv s"
    using assms by (simp_all add: hist_inv_def writer_ok_def)
  have "unat ?p = unat frame + length acc" using r(1,2) by (simp add: hist_reading_def unat_word_ariths unat_of_nat)
  then have "unat (?p + 1) \<noteq> 0" using r(1,2) by (simp add: hist_reading_def unat_word_ariths)
  then have nz: "?p + 1 \<noteq> 0" by (metis unat_0)
  have "(g, ?p, payload s (mic_slot ?p)) \<in> hg_log s \<or> ?p + 1 < hg_last s (mic_slot ?p)"
    if "gen s = g" "before = ?p + 1"
  proof (cases "hg_last s (mic_slot ?p) = ?p + 1")
    case True
    have "even_gen s" using r(1) that(1) by (simp add: hist_reading_def even_gen_def)
    then have "(gen s, hg_last s (mic_slot ?p) - 1, payload s (mic_slot ?p)) \<in> hg_log s"
      using True nz by (intro hist_slots_invD(3) [OF w]) simp_all
    then show ?thesis using True that(1) by simp
  qed (use r(3) that nz in auto)
  then show ?thesis using assms r d by (simp add: hist_inv_def hist_delivered_inv_def)
qed

lemma read_after_inv:
  assumes "hist_inv s" "hr s = HR_After g first frame n acc before bits"
  shows "hist_inv (reader_next (HR_After g first frame n acc before bits) s)"
proof -
  let ?p = "pos frame (length acc)" and ?after = "stamp s (mic_slot (pos frame (length acc)))"
  have w: "hist_slots_inv s" and r: "hist_reading s g frame n acc" "length acc < n"
    "gen s = g \<Longrightarrow> before = ?p + 1 \<Longrightarrow> (g, ?p, bits) \<in> hg_log s \<or> ?p + 1 < hg_last s (mic_slot ?p)"
    using assms by (simp_all add: hist_inv_def writer_ok_def)
  have "unat ?p = unat frame + length acc" using r(1,2) by (simp add: hist_reading_def unat_word_ariths unat_of_nat)
  then have "unat (?p + 1) \<noteq> 0" using r(1,2) by (simp add: hist_reading_def unat_word_ariths)
  then have "?p + 1 \<noteq> 0" by (metis unat_0)
  then have "?after = ?p + 1 \<Longrightarrow> hg_last s (mic_slot ?p) = ?p + 1" using hist_slots_invD(2) [OF w] by simp
  then have "hist_reading s g frame n (acc @ [if before = ?p + 1 \<and> ?after = before then Some bits else None])"
    using r by (auto simp: hist_reading_def logged_append)
  then show ?thesis using assms by (simp add: hist_inv_def hist_delivered_inv_def Let_def)
qed

lemma read_load_inv:
  assumes "hist_inv s" "hr s = HR_Load g first frame n acc"
  shows "hist_inv (reader_next (HR_Load g first frame n acc) s)"
proof (cases "length acc = n")
  case True
  have "logged (hg_log s) g frame (if g \<noteq> gen s then map (\<lambda>_. None) acc else acc)"
    using assms by (auto simp: hist_inv_def hist_reading_def)
  then show ?thesis using True hist_deliver_inv [OF assms(1)] by simp
next
  case False
  have w: "hist_slots_inv s" and r: "hist_reading s g frame n acc" "length acc < n" and d: "hist_delivered_inv s"
    using assms False by (simp_all add: hist_inv_def writer_ok_def hist_reading_def)
  have "stamp s k \<noteq> 0 \<Longrightarrow> k < PLANKMicFrames \<Longrightarrow> stamp s k \<le> hg_last s k" for k using hist_slots_invD(2) [OF w] by simp
  then show ?thesis using False assms r d
    by (simp add: hist_inv_def hist_delivered_inv_def Let_def hist_reading_def logged_append)
qed

lemma hist_reader_step_inv: "hist_inv s \<Longrightarrow> hist_reader_step s t \<Longrightarrow> hist_inv t"
proof (erule hist_reader_step.cases)
  fix s' :: hist_state and count :: u32 and frame
  assume inv: "hist_inv s" and eq: "s = s'" "t = (if and (gen s') 1 \<noteq> 0 then hist_deliver (gen s') frame (replicate (unat count) None) s'
      else s'\<lparr>hr := HR_First (gen s') frame (unat count)\<rparr>)"
    and c: "hr s' = HR_Idle" "unat count \<le> PLANKMicMaxIO" "\<not> 0xffffffffffffffff - ucast count < frame"
  have "unat frame \<le> 0xffffffffffffffff - unat count"
    using c(3) u32_below_max [of count] by (simp add: word_less_nat_alt unat_sub unat_ucast_u32)
  then have "unat frame + unat count < 2 ^ 64" using c(2) by simp
  then show "hist_inv t" using inv eq hist_deliver_inv by (auto simp: hist_inv_def hist_delivered_inv_def hist_reading_def)
next
  fix s' :: hist_state
  assume inv: "hist_inv s" and eq: "s = s'" "t = reader_next (hr s') s'" and busy: "hr s' \<noteq> HR_Idle"
  show "hist_inv t"
  proof (cases "hr s'")
    case (HR_First g frame n)
    then show ?thesis using inv eq by (simp add: hist_inv_def hist_delivered_inv_def)
  qed (use inv eq busy read_load_inv read_bits_inv read_after_inv in auto)
qed

lemma hist_start_inv: "hist_inv hist_start"
proof -
  have "stamp hist_start k = 0" if "k < PLANKMicFrames" for k
    using that by (simp add: stamp_def hist_start_def mic_buffer_init_def)
  then have "hist_slots_inv hist_start"
    by (simp add: hist_slots_inv_def) (simp add: hist_start_def mic_buffer_init_def)
  moreover have "even_gen hist_start" by (simp add: even_gen_def gen_def hist_start_def mic_buffer_init_def)
  ultimately show ?thesis by (simp add: hist_inv_def writer_ok_def hist_delivered_inv_def) (simp add: hist_start_def)
qed

interpretation hist_threads: invariant_system hist_start hist_step hist_inv
proof
  show "hist_inv hist_start" by (rule hist_start_inv)
  show "hist_inv t" if "hist_inv s" "hist_step s t" for s t
    using that hist_writer_step_inv hist_reader_step_inv unfolding hist_step_def by blast
qed

text \<open>C12: whatever the interleaving with the writer and its resets, every sample a completed read delivers is one that the
  writer stored for exactly that device time, both channels together, in the generation the read was made in; every
  other sample of the read is silence.\<close>

theorem mic_read_delivers_stored:
  assumes "hist_step\<^sup>*\<^sup>* hist_start s" "(g, frame, res) \<in> set (hg_delivered s)" "i < length res" "res ! i = Some v"
  shows "(g, pos frame i, v) \<in> hg_log s"
proof -
  have "logged (hg_log s) g frame res"
    using hist_threads.reachable_inv [OF assms(1)] assms(2) by (auto simp: hist_inv_def hist_delivered_inv_def)
  then show ?thesis using assms(3,4) unfolding logged_def by blast
qed

section \<open>Readers do not wait\<close>






section \<open>Witnesses\<close>

definition written_once :: hist_state where
  "written_once = hist_start\<lparr>hb := on_sample 0 (\<lambda>x. x\<lparr>ms_frame := 1\<rparr>) (on_sample 0 (\<lambda>x. x\<lparr>ms_bits := (Finite 1, Finite (1 / 2))\<rparr>)
       (on_sample 0 (\<lambda>x. x\<lparr>ms_frame := 0\<rparr>) mic_buffer_init)),
     hw := HW_Clear 0 [(Finite 1, Finite (1 / 2))] 1, hg_last := (\<lambda>k. 0)(0 := 1),
     hg_log := {(2, 0, (Finite 1, Finite (1 / 2)))}\<rparr>"

lemma slot_0 [simp]: "mic_slot 0 = 0" by (simp add: mic_slot_def)

lemma written_once_reachable: "hist_step\<^sup>*\<^sup>* hist_start written_once"
proof -
  let ?v = "(Finite 1, Finite (1 / 2))"
  let ?b1 = "on_sample 0 (\<lambda>x. x\<lparr>ms_frame := 0\<rparr>) mic_buffer_init"
  let ?b2 = "on_sample 0 (\<lambda>x. x\<lparr>ms_bits := ?v\<rparr>) ?b1"
  let ?s1 = "hist_start\<lparr>hw := HW_Clear 0 [?v] 0\<rparr>"
  let ?s2 = "hist_start\<lparr>hb := ?b1, hw := HW_Payload 0 [?v] 0\<rparr>"
  let ?s3 = "hist_start\<lparr>hb := ?b2, hw := HW_Stamp 0 [?v] 0, hg_last := (\<lambda>k. 0)(0 := 1), hg_log := {(2, 0, ?v)}\<rparr>"
  have "mic_write_ok 0 0 (Some [Finite 1, Finite (1 / 2)]) 1"
    by (simp add: mic_write_ok_def less_Suc_eq numeral_2_eq_2)
  then have 1: "hist_step hist_start ?s1"
    unfolding hist_step_def
    by (intro disjI1 write_begin [of _ _ "Some [Finite 1, Finite (1 / 2)]" 1])
      (simp_all add: hist_start_def mic_buffer_init_def mic_pair_def mic_clamp_def fminf_def fmaxf_def)
  have 2: "hist_step ?s1 ?s2"
    using write_clear [of ?s1 0 "[?v]" 0] by (simp add: hist_step_def) (simp add: hist_start_def)
  have 3: "hist_step ?s2 ?s3"
    using write_payload [of ?s2 0 "[?v]" 0]
    by (simp add: hist_step_def) (simp add: hist_start_def gen_def on_sample_def mic_buffer_init_def fun_upd_def)
  have 4: "hist_step ?s3 written_once"
    using write_stamp [of ?s3 0 "[?v]" 0]
    by (simp add: hist_step_def written_once_def) (simp add: hist_start_def)
  show ?thesis using 1 2 3 4 by (meson converse_rtranclp_into_rtranclp r_into_rtranclp)
qed

lemma written_once_fields:
  "hr written_once = HR_Idle" "gen written_once = 2" "mb_first (hb written_once) = 0"
  "stamp written_once 0 = 1" "payload written_once 0 = (Finite 1, Finite (1 / 2))"
  by (simp_all add: written_once_def gen_def stamp_def payload_def on_sample_def hist_start_def mic_buffer_init_def)

text \<open>A read of the one sample at time 0, undisturbed.\<close>

lemma read_one:
  assumes "hr s = HR_Idle" "gen s = 2" "mb_first (hb s) = 0" "stamp s 0 = 1" "payload s 0 = v"
  shows "hist_step\<^sup>*\<^sup>* s (hist_deliver 2 0 [Some v] s)"
proof -
  have 0: "hist_step s (s\<lparr>hr := HR_First 2 0 1\<rparr>)"
    using read_begin [of s 1 0] assms(1,2) by (simp add: hist_step_def)
  have nxt: "hr t \<noteq> HR_Idle \<Longrightarrow> hist_step t (reader_next (hr t) t)" for t by (simp add: hist_step_def read_next)
  have 1: "hist_step (s\<lparr>hr := HR_First 2 0 1\<rparr>) (s\<lparr>hr := HR_Load 2 0 0 1 []\<rparr>)"
    using nxt [of "s\<lparr>hr := HR_First 2 0 1\<rparr>"] assms by simp
  have 2: "hist_step (s\<lparr>hr := HR_Load 2 0 0 1 []\<rparr>) (s\<lparr>hr := HR_Bits 2 0 0 1 [] 1\<rparr>)"
    using nxt [of "s\<lparr>hr := HR_Load 2 0 0 1 []\<rparr>"] assms by simp
  have 3: "hist_step (s\<lparr>hr := HR_Bits 2 0 0 1 [] 1\<rparr>) (s\<lparr>hr := HR_After 2 0 0 1 [] 1 v\<rparr>)"
    using nxt [of "s\<lparr>hr := HR_Bits 2 0 0 1 [] 1\<rparr>"] assms by simp
  have 4: "hist_step (s\<lparr>hr := HR_After 2 0 0 1 [] 1 v\<rparr>) (s\<lparr>hr := HR_Load 2 0 0 1 [Some v]\<rparr>)"
    using nxt [of "s\<lparr>hr := HR_After 2 0 0 1 [] 1 v\<rparr>"] assms by simp
  have 5: "hist_step (s\<lparr>hr := HR_Load 2 0 0 1 [Some v]\<rparr>) (hist_deliver 2 0 [Some v] s)"
    using nxt [of "s\<lparr>hr := HR_Load 2 0 0 1 [Some v]\<rparr>"] assms by (simp add: hist_deliver_def)
  show ?thesis using 0 1 2 3 4 5 by (meson converse_rtranclp_into_rtranclp r_into_rtranclp)
qed

theorem mic_read_delivers_stored_witness:
  "(2, 0, (Finite 1, Finite (1 / 2))) \<in> hg_log (hist_deliver 2 0 [Some (Finite 1, Finite (1 / 2))] written_once)"
proof -
  have "hist_step\<^sup>*\<^sup>* hist_start (hist_deliver 2 0 [Some (Finite 1, Finite (1 / 2))] written_once)"
    by (rule rtranclp_trans [OF written_once_reachable read_one [OF written_once_fields]])
  from mic_read_delivers_stored [OF this, of 2 0 "[Some (Finite 1, Finite (1 / 2))]" 0 "(Finite 1, Finite (1 / 2))"]
  show ?thesis by (simp add: hist_deliver_def)
qed


end
