(* ===== verification/Mic_Driver.thy ===== *)
theory Mic_Driver
  imports Hal_Clients Mic_Buffer
begin

text \<open>
  The virtual microphone of the macOS host, \<^verbatim>\<open>src/apps/host/macos/audio-device/microphone-driver.c\<close>: a Core Audio
  plug-in with one input device and one stream, which plays the sample history of \<^verbatim>\<open>Mic_Buffer\<close> to the clients
  that run IO. The results of \<^verbatim>\<open>get\<close> and the arguments of \<^verbatim>\<open>set\<close> are as in \<^verbatim>\<open>Output_Driver\<close>. Where the samples of an IO
  cycle come from is an argument of \<^verbatim>\<open>performIO\<close>: the buffer itself, or the admission check of \<^verbatim>\<open>Mic_Ipc\<close>.
\<close>

abbreviation MicDevice :: u32 where "MicDevice \<equiv> 2"
abbreviation MicStream :: u32 where "MicStream \<equiv> 3"
abbreviation PLANK_MIC_DEVICE_UID :: string where "PLANK_MIC_DEVICE_UID \<equiv> ''la.instinctual.PLANK.Microphone''"

record mic_state = hal_state +
  mi_buffer :: mic_buffer

definition micFormat :: "hal_codes \<Rightarrow> stream_format" where
  "micFormat k = \<lparr>sf_rate = of_nat PLANKMicRate, sf_id = code_linear_pcm k, sf_flags = code_native_float_packed k,
     sf_bytes_per_packet = 2 * 4, sf_frames_per_packet = 1, sf_bytes_per_frame = 2 * 4, sf_channels = 2, sf_bits = 32\<rparr>"

text \<open>The static buffer is all zeros before it is initialised.\<close>

definition mic_static :: mic_state where
  "mic_static = hal_state.extend hal_static \<lparr>mi_buffer = \<lparr>mb_generation = 0, mb_first = 0,
     mb_samples = replicate PLANKMicFrames \<lparr>ms_frame = 0, ms_bits = silence\<rparr>\<rparr>\<rparr>"

definition mic_objectExists :: "u32 \<Rightarrow> bool" where
  "mic_objectExists object \<longleftrightarrow> object = kAudioObjectPlugInObject \<or> object = MicDevice \<or> object = MicStream"

section \<open>Which properties exist\<close>

definition mic_global_size :: "u32 \<Rightarrow> hal_selector \<Rightarrow> nat option" where
  "mic_global_size object sel =
     (if sel = kAudioObjectPropertyBaseClass \<or> sel = kAudioObjectPropertyClass \<or> sel = kAudioObjectPropertyOwner
      then Some size_U32
      else if sel = kAudioObjectPropertyName \<or> sel = kAudioObjectPropertyManufacturer then Some size_CFStringRef
      else if sel = kAudioObjectPropertyOwnedObjects then Some (if object = MicStream then 0 else size_ObjectID)
      else None)"

definition mic_plugin_size :: "hal_selector \<Rightarrow> nat option" where
  "mic_plugin_size sel =
     (if sel = kAudioPlugInPropertyDeviceList \<or> sel = kAudioPlugInPropertyTranslateUIDToDevice then Some size_ObjectID
      else if sel = kAudioPlugInPropertyResourceBundle then Some size_CFStringRef
      else None)"

definition mic_device_size :: "hal_scope \<Rightarrow> hal_selector \<Rightarrow> nat option" where
  "mic_device_size scope sel =
     (if scope = ScopeGlobal
      then if sel = kAudioDevicePropertyDeviceUID \<or> sel = kAudioDevicePropertyModelUID then Some size_CFStringRef
        else if sel = kAudioDevicePropertyTransportType \<or> sel = kAudioDevicePropertyClockDomain \<or>
          sel = kAudioDevicePropertyDeviceIsAlive \<or> sel = kAudioDevicePropertyDeviceIsRunning \<or>
          sel = kAudioDevicePropertyIsHidden \<or> sel = kAudioDevicePropertyZeroTimeStampPeriod then Some size_U32
        else if sel = kAudioDevicePropertyNominalSampleRate then Some size_Float64
        else if sel = kAudioDevicePropertyAvailableNominalSampleRates then Some size_ValueRange
        else if sel = kAudioObjectPropertyControlList then Some 0
        else if sel = kAudioDevicePropertyRelatedDevices then Some size_ObjectID
        else if sel = kAudioDevicePropertyStreams then Some size_ObjectID
        else None
      else if scope = ScopeInput \<or> scope = ScopeOutput
      then if sel = kAudioDevicePropertyDeviceCanBeDefaultDevice \<or>
          sel = kAudioDevicePropertyDeviceCanBeDefaultSystemDevice \<or>
          sel = kAudioDevicePropertyLatency \<or> sel = kAudioDevicePropertySafetyOffset then Some size_U32
        else if sel = kAudioDevicePropertyPreferredChannelsForStereo
        then (if scope = ScopeInput then Some (size_U32 * 2) else None)
        else if sel = kAudioDevicePropertyStreams \<or> sel = kAudioObjectPropertyOwnedObjects
        then Some (if scope = ScopeInput then size_ObjectID else 0)
        else None
      else None)"

definition mic_stream_size :: "hal_selector \<Rightarrow> nat option" where
  "mic_stream_size sel =
     (if sel = kAudioStreamPropertyIsActive \<or> sel = kAudioStreamPropertyDirection \<or> sel = kAudioStreamPropertyTerminalType \<or>
        sel = kAudioStreamPropertyStartingChannel \<or> sel = kAudioDevicePropertyLatency then Some size_U32
      else if sel = kAudioStreamPropertyVirtualFormat \<or> sel = kAudioStreamPropertyPhysicalFormat then Some size_Format
      else if sel = kAudioStreamPropertyAvailableVirtualFormats \<or> sel = kAudioStreamPropertyAvailablePhysicalFormats
      then Some size_RangedFormat
      else None)"

definition mic_size_answers :: "u32 \<Rightarrow> hal_scope \<Rightarrow> hal_selector \<Rightarrow> nat option list" where
  "mic_size_answers object scope sel =
     [if scope = ScopeGlobal then mic_global_size object sel else None,
      if object = kAudioObjectPlugInObject \<and> scope = ScopeGlobal then mic_plugin_size sel else None,
      if object = MicDevice then mic_device_size scope sel else None,
      if object = MicStream \<and> scope = ScopeGlobal then mic_stream_size sel else None]"

definition mic_propertySize :: "u32 \<Rightarrow> hal_address option \<Rightarrow> bool \<Rightarrow> os_status + nat" where
  "mic_propertySize object address result =
     (case address of
        None \<Rightarrow> Inl BadObject
      | Some a \<Rightarrow>
          if \<not> result \<or> \<not> mic_objectExists object then Inl BadObject
          else if ad_element a \<noteq> kAudioObjectPropertyElementMain then Inl UnknownProperty
          else if ad_scope a \<notin> {ScopeGlobal, ScopeInput, ScopeOutput} then Inl UnknownProperty
          else case first_answer (mic_size_answers object (ad_scope a) (ad_selector a)) of
            None \<Rightarrow> Inl UnknownProperty
          | Some n \<Rightarrow> Inr n)"

definition mic_has :: "bool \<Rightarrow> u32 \<Rightarrow> hal_address option \<Rightarrow> bool" where
  "mic_has driver object address \<longleftrightarrow> driver \<and> (case mic_propertySize object address True of Inl _ \<Rightarrow> False | Inr _ \<Rightarrow> True)"

definition mic_writable :: "u32 \<Rightarrow> hal_selector \<Rightarrow> bool" where
  "mic_writable object sel \<longleftrightarrow>
     object = MicDevice \<and> sel = kAudioDevicePropertyNominalSampleRate \<or>
     object = MicStream \<and> (sel = kAudioStreamPropertyVirtualFormat \<or> sel = kAudioStreamPropertyPhysicalFormat \<or>
                           sel = kAudioStreamPropertyIsActive)"

definition mic_settable :: "bool \<Rightarrow> u32 \<Rightarrow> hal_address option \<Rightarrow> bool \<Rightarrow> os_status \<times> bool option" where
  "mic_settable driver object address result =
     (if \<not> result then (IllegalOperation, None)
      else if \<not> mic_has driver object address then (UnknownProperty, Some False)
      else (NoErr, Some (mic_writable object (ad_selector (the address)))))"

definition mic_sizeOf :: "bool \<Rightarrow> u32 \<Rightarrow> hal_address option \<Rightarrow> bool \<Rightarrow> os_status + nat" where
  "mic_sizeOf driver object address result =
     (if driver then mic_propertySize object address result else Inl BadObject)"

section \<open>Reading and setting a property\<close>

definition mic_translate :: "nat \<Rightarrow> cf_ref option \<Rightarrow> os_status + hal_data" where
  "mic_translate qualifierSize qualifier =
     (if qualifierSize \<noteq> size_CFStringRef \<or> qualifier = None then Inl BadPropertySize
      else Inr (D_U32 (if the qualifier = Cf_String PLANK_MIC_DEVICE_UID then MicDevice else kAudioObjectUnknown)))"

fun mic_value ::
  "hal_codes \<Rightarrow> u32 \<Rightarrow> hal_scope \<Rightarrow> nat \<Rightarrow> cf_ref option \<Rightarrow> 'a mic_state_scheme \<Rightarrow> hal_selector \<Rightarrow> os_status + hal_data" where
  "mic_value k object scope qs q s kAudioObjectPropertyBaseClass = Inr (D_U32 (code_object_class k))"
| "mic_value k object scope qs q s kAudioObjectPropertyClass = Inr (D_U32 (if object = MicDevice then code_device_class k
       else if object = MicStream then code_stream_class k else code_plugin_class k))"
| "mic_value k object scope qs q s kAudioObjectPropertyOwner = Inr (D_U32 (if object = MicDevice then kAudioObjectPlugInObject
       else if object = MicStream then MicDevice else kAudioObjectUnknown))"
| "mic_value k object scope qs q s kAudioObjectPropertyName = Inr (D_String ''PLANK Microphone'')"
| "mic_value k object scope qs q s kAudioObjectPropertyManufacturer = Inr (D_String ''PLANK'')"
| "mic_value k object scope qs q s kAudioObjectPropertyOwnedObjects = Inr (D_U32 (if object = MicDevice then MicStream else MicDevice))"
| "mic_value k object scope qs q s kAudioPlugInPropertyDeviceList = Inr (D_U32 MicDevice)"
| "mic_value k object scope qs q s kAudioDevicePropertyRelatedDevices = Inr (D_U32 MicDevice)"
| "mic_value k object scope qs q s kAudioPlugInPropertyTranslateUIDToDevice = mic_translate qs q"
| "mic_value k object scope qs q s kAudioPlugInPropertyResourceBundle = Inr (D_String '''')"
| "mic_value k object scope qs q s kAudioDevicePropertyDeviceUID = Inr (D_String PLANK_MIC_DEVICE_UID)"
| "mic_value k object scope qs q s kAudioDevicePropertyModelUID = Inr (D_String ''la.instinctual.PLANK.Microphone.Model'')"
| "mic_value k object scope qs q s kAudioDevicePropertyTransportType = Inr (D_U32 (code_transport_virtual k))"
| "mic_value k object scope qs q s kAudioDevicePropertyClockDomain = Inr (D_U32 0)"
| "mic_value k object scope qs q s kAudioDevicePropertyIsHidden = Inr (D_U32 0)"
| "mic_value k object scope qs q s kAudioDevicePropertyLatency = Inr (D_U32 0)"
| "mic_value k object scope qs q s kAudioDevicePropertySafetyOffset = Inr (D_U32 0)"
| "mic_value k object scope qs q s kAudioDevicePropertyDeviceCanBeDefaultSystemDevice = Inr (D_U32 0)"
| "mic_value k object scope qs q s kAudioDevicePropertyDeviceIsAlive = Inr (D_U32 1)"
| "mic_value k object scope qs q s kAudioStreamPropertyIsActive = Inr (D_U32 1)"
| "mic_value k object scope qs q s kAudioStreamPropertyDirection = Inr (D_U32 1)"
| "mic_value k object scope qs q s kAudioStreamPropertyStartingChannel = Inr (D_U32 1)"
| "mic_value k object scope qs q s kAudioDevicePropertyDeviceIsRunning = Inr (D_U32 (if hs_running s \<noteq> 0 then 1 else 0))"
| "mic_value k object scope qs q s kAudioDevicePropertyDeviceCanBeDefaultDevice = Inr (D_U32 (if scope = ScopeInput then 1 else 0))"
| "mic_value k object scope qs q s kAudioDevicePropertyZeroTimeStampPeriod = Inr (D_U32 (of_nat PLANKAudioZeroTimeStampPeriod))"
| "mic_value k object scope qs q s kAudioDevicePropertyNominalSampleRate = Inr (D_F64 (of_nat PLANKMicRate))"
| "mic_value k object scope qs q s kAudioDevicePropertyAvailableNominalSampleRates = Inr (D_Range (of_nat PLANKMicRate) (of_nat PLANKMicRate))"
| "mic_value k object scope qs q s kAudioDevicePropertyStreams = Inr (D_U32 MicStream)"
| "mic_value k object scope qs q s kAudioDevicePropertyPreferredChannelsForStereo = Inr (D_Pair 1 2)"
| "mic_value k object scope qs q s kAudioStreamPropertyTerminalType = Inr (D_U32 (code_terminal_microphone k))"
| "mic_value k object scope qs q s kAudioStreamPropertyVirtualFormat = Inr (D_Format (micFormat k))"
| "mic_value k object scope qs q s kAudioStreamPropertyPhysicalFormat = Inr (D_Format (micFormat k))"
| "mic_value k object scope qs q s kAudioStreamPropertyAvailableVirtualFormats = Inr (D_Ranged (micFormat k) (of_nat PLANKMicRate) (of_nat PLANKMicRate))"
| "mic_value k object scope qs q s kAudioStreamPropertyAvailablePhysicalFormats = Inr (D_Ranged (micFormat k) (of_nat PLANKMicRate) (of_nat PLANKMicRate))"
| "mic_value k object scope qs q s _ = Inl UnknownProperty"

definition mic_get ::
  "hal_codes \<Rightarrow> bool \<Rightarrow> u32 \<Rightarrow> hal_address option \<Rightarrow> nat \<Rightarrow> cf_ref option \<Rightarrow> nat \<Rightarrow> bool \<Rightarrow> bool \<Rightarrow>
     'a mic_state_scheme \<Rightarrow> os_status \<times> nat option \<times> hal_data option" where
  "mic_get k driver object address qualifierSize qualifier capacity actual data s =
     (if \<not> actual then (IllegalOperation, None, None)
      else case mic_sizeOf driver object address True of
        Inl status \<Rightarrow> (status, Some 0, None)
      | Inr needed \<Rightarrow>
          if capacity < needed \<or> needed \<noteq> 0 \<and> \<not> data then (BadPropertySize, Some 0, None)
          else if needed = 0 then (NoErr, Some 0, None)
          else case mic_value k object (ad_scope (the address)) qualifierSize qualifier s (ad_selector (the address)) of
            Inl status \<Rightarrow> (status, Some needed, None)
          | Inr v \<Rightarrow> (NoErr, Some needed, Some v))"

definition mic_set :: "hal_codes \<Rightarrow> bool \<Rightarrow> u32 \<Rightarrow> hal_address option \<Rightarrow> nat \<Rightarrow> bytes option \<Rightarrow> os_status" where
  "mic_set k driver object address size_in data =
     (case mic_settable driver object address True of
        (status, writable) \<Rightarrow>
          if status \<noteq> NoErr then status
          else if writable \<noteq> Some True then UnsupportedOperation
          else if Inr size_in \<noteq> mic_propertySize object address True \<or> data = None then BadPropertySize
          else
            let sel = ad_selector (the address); p = the data in
            if sel = kAudioDevicePropertyNominalSampleRate
            then (if float64 p = Finite (of_nat PLANKMicRate) then NoErr else UnsupportedFormat)
            else if sel = kAudioStreamPropertyIsActive
            then (if from_le32 p = 1 then NoErr else UnsupportedOperation)
            else (if format_matches (micFormat k) p then NoErr else UnsupportedFormat))"

section \<open>The other entry points\<close>

definition mic_query :: "bool \<Rightarrow> bool \<Rightarrow> bool \<Rightarrow> 'a mic_state_scheme \<Rightarrow> (hresult \<times> bool option) \<times> 'a mic_state_scheme" where
  "mic_query = hal_query"

definition mic_retain :: "bool \<Rightarrow> 'a mic_state_scheme \<Rightarrow> u32 \<times> 'a mic_state_scheme" where
  "mic_retain = hal_retain"

definition mic_release :: "bool \<Rightarrow> 'a mic_state_scheme \<Rightarrow> u32 \<times> 'a mic_state_scheme" where
  "mic_release = hal_release"

definition PLANKMicrophoneFactory :: "bool option \<Rightarrow> bool" where
  "PLANKMicrophoneFactory = hal_factory"

text \<open>\<^verbatim>\<open>ipc_init\<close> is \<^verbatim>\<open>micIPCInitialize\<close>, or the identity in a build without the control connection.\<close>

definition mic_initialize ::
  "('a mic_state_scheme \<Rightarrow> 'a mic_state_scheme) \<Rightarrow> (rat \<Rightarrow> rat) \<Rightarrow> bool \<Rightarrow> bool \<Rightarrow> u32 \<Rightarrow> u32 \<Rightarrow> u64 \<Rightarrow>
     'a mic_state_scheme \<Rightarrow> os_status \<times> 'a mic_state_scheme" where
  "mic_initialize ipc_init rd = hal_initialize rd (\<lambda>s. ipc_init (s\<lparr>mi_buffer := mic_buffer_init\<rparr>))"

definition mic_create :: "bool \<Rightarrow> os_status \<times> u32 option" where "mic_create = hal_create"

definition mic_destroy :: os_status where "mic_destroy = hal_destroy"

definition mic_configuration :: "bool \<Rightarrow> u32 \<Rightarrow> os_status" where
  "mic_configuration = hal_configuration MicDevice"

definition mic_addClient :: "bool \<Rightarrow> u32 \<Rightarrow> u32 option \<Rightarrow> 'a mic_state_scheme \<Rightarrow> os_status \<times> 'a mic_state_scheme" where
  "mic_addClient = hal_add_client MicDevice"

definition mic_removeClient :: "bool \<Rightarrow> u32 \<Rightarrow> u32 option \<Rightarrow> 'a mic_state_scheme \<Rightarrow> os_status \<times> 'a mic_state_scheme" where
  "mic_removeClient = hal_remove_client MicDevice"

definition mic_reset :: "'a mic_state_scheme \<Rightarrow> 'a mic_state_scheme" where
  "mic_reset s = s\<lparr>mi_buffer := mic_buffer_reset 0 (mi_buffer s)\<rparr>"

definition mic_changeIO ::
  "bool \<Rightarrow> u32 \<Rightarrow> u32 \<Rightarrow> bool \<Rightarrow> u64 \<Rightarrow> 'a mic_state_scheme \<Rightarrow> os_status \<times> 'a mic_state_scheme" where
  "mic_changeIO = hal_change_io MicDevice mic_reset"

definition mic_startIO :: "bool \<Rightarrow> u32 \<Rightarrow> u32 \<Rightarrow> u64 \<Rightarrow> 'a mic_state_scheme \<Rightarrow> os_status \<times> 'a mic_state_scheme" where
  "mic_startIO driver device client = mic_changeIO driver device client True"

definition mic_stopIO :: "bool \<Rightarrow> u32 \<Rightarrow> u32 \<Rightarrow> u64 \<Rightarrow> 'a mic_state_scheme \<Rightarrow> os_status \<times> 'a mic_state_scheme" where
  "mic_stopIO driver device client = mic_changeIO driver device client False"

definition mic_timestamp ::
  "(rat \<Rightarrow> rat) \<Rightarrow> bool \<Rightarrow> u32 \<Rightarrow> bool \<Rightarrow> u64 \<Rightarrow> 'a mic_state_scheme \<Rightarrow> os_status \<times> (rat \<times> u64 \<times> u64) option" where
  "mic_timestamp = hal_timestamp MicDevice"

definition mic_willIO :: "bool \<Rightarrow> u32 \<Rightarrow> io_operation \<Rightarrow> bool \<Rightarrow> bool \<Rightarrow> os_status \<times> (bool \<times> bool) option" where
  "mic_willIO = hal_will_io MicDevice IO_ReadInput"

definition mic_boundaryIO :: "bool \<Rightarrow> u32 \<Rightarrow> u32 \<Rightarrow> os_status" where
  "mic_boundaryIO = hal_boundary_io MicDevice PLANKMicMaxIO"

text \<open>The input time of an IO cycle: whether its sample time is valid, and the sample time.\<close>

record io_cycle =
  ic_valid :: bool
  ic_sample_time :: float_value

text \<open>An IO cycle. \<^verbatim>\<open>read\<close> gives the frames from a position on; the first component of a frame is the left channel.
  \<^verbatim>\<open>(double)(UINT64_MAX / 2)\<close> is 2 to the 63. The caller's buffer is \<^verbatim>\<open>None\<close> when it is not touched.\<close>

definition mic_performIO ::
  "(u64 \<Rightarrow> u32 \<Rightarrow> stereo list) \<Rightarrow> bool \<Rightarrow> u32 \<Rightarrow> u32 \<Rightarrow> io_operation \<Rightarrow> u32 \<Rightarrow> bool \<Rightarrow> io_cycle option \<Rightarrow>
     'a mic_state_scheme \<Rightarrow> os_status \<times> stereo list option" where
  "mic_performIO read driver device stream operation frames main cycle s =
     (if \<not> driver \<or> device \<noteq> MicDevice \<or> stream \<noteq> MicStream \<or> operation \<noteq> IO_ReadInput \<or>
        PLANKMicMaxIO < unat frames \<or> \<not> main \<or> cycle = None
      then (IllegalOperation, None)
      else case ic_sample_time (the cycle) of
        Finite x \<Rightarrow>
          if \<not> ic_valid (the cycle) \<or> x < 0 \<or> 2 ^ 63 < x \<or> hs_running s = 0
          then (NoErr, Some (replicate (unat frames) silence))
          else (NoErr, Some (read (of_int \<lfloor>x\<rfloor>) frames))
      | _ \<Rightarrow> (NoErr, Some (replicate (unat frames) silence)))"

text \<open>The build without the control connection reads the buffer directly.\<close>

definition mic_read_buffer :: "'a mic_state_scheme \<Rightarrow> u64 \<Rightarrow> u32 \<Rightarrow> stereo list" where
  "mic_read_buffer s position frames =
     (case snd (mic_buffer_read position True frames (mi_buffer s)) of
        None \<Rightarrow> replicate (unat frames) silence
      | Some out \<Rightarrow> out)"

end
