(* ===== verification/Mic_Ipc.thy ===== *)
theory Mic_Ipc
  imports Mic_Driver
begin

text \<open>
  The control connection of the virtual microphone, \<^verbatim>\<open>src/apps/host/macos/audio-device/microphone-driver-ipc.h\<close>
  with \<^verbatim>\<open>microphone-link.h\<close>: a root broker lends the driver a shared mapping in which an unprivileged producer
  writes samples; a timer copies them into the driver's private history, and an IO cycle hears them only while the
  lease and its deadlines hold.

  A message is its kind and its dictionary, a mapping the size and the contents that \<^verbatim>\<open>xpc_shmem_map\<close> gives. The
  contents of an attached mapping may change in any way between two steps of the control queue. Clock readings are
  arguments; \<^verbatim>\<open>rd\<close> rounds to the nearest \<^verbatim>\<open>double\<close>, and a conversion to \<^verbatim>\<open>uint64_t\<close> truncates.
\<close>

abbreviation PLANKMicLinkVersion :: u64 where "PLANKMicLinkVersion \<equiv> 2"

record mic_link =
  ml_version :: u64
  ml_clock_sequence :: u64
  ml_anchor :: u64
  ml_seed :: u64
  ml_running :: u32
  ml_producer_seed :: u64
  ml_deadline :: u64
  ml_ticks :: rat
  ml_samples :: mic_buffer

text \<open>The size of the structure: four words, a 32-bit word padded to eight bytes, three words, and the buffer.\<close>

definition mic_link_struct_bytes :: nat where
  "mic_link_struct_bytes = 8 * 4 + 8 + 8 * 3 + (8 * 2 + PLANKMicFrames * 16)"

definition PLANKMicLinkBytes :: "nat \<Rightarrow> nat" where
  "PLANKMicLinkBytes page =
     (if page \<noteq> 0 then (mic_link_struct_bytes + page - 1) mod size_max div page * page else 0)"

definition PLANKMicLinkInit :: mic_link where
  "PLANKMicLinkInit = \<lparr>ml_version = PLANKMicLinkVersion, ml_clock_sequence = 0, ml_anchor = 0, ml_seed = 0, ml_running = 0,
     ml_producer_seed = 0, ml_deadline = 0, ml_ticks = 0, ml_samples = mic_buffer_init\<rparr>"

record mic_ipc = mic_state +
  mp_queue :: bool
  mp_peer :: "nat option"
  mp_link :: "mic_link option"
  mp_link_bytes :: nat
  mp_lease :: u64
  mp_broker_deadline :: u64
  mp_connect_at :: u64
  mp_copied_seed :: u64
  mp_copied_generation :: u64
  mp_input_deadline :: u64
  mp_input_lease :: u64

definition mic_ipc_static :: mic_ipc where
  "mic_ipc_static = mic_state.extend mic_static \<lparr>mp_queue = False, mp_peer = None, mp_link = None, mp_link_bytes = 0,
     mp_lease = 0, mp_broker_deadline = 0, mp_connect_at = 0, mp_copied_seed = 0, mp_copied_generation = 0,
     mp_input_deadline = 0, mp_input_lease = 0\<rparr>"

definition micIPCInitialize :: "int \<Rightarrow> mic_ipc \<Rightarrow> mic_ipc" where
  "micIPCInitialize page s =
     (if mp_queue s then s
      else if page \<le> 0 then s
      else s\<lparr>mp_link_bytes := PLANKMicLinkBytes (nat page), mp_queue := True\<rparr>)"

definition micDropLink :: "mic_ipc \<Rightarrow> mic_ipc" where
  "micDropLink s =
     (let s1 = s\<lparr>mp_input_deadline := 0\<rparr>; s2 = s1\<lparr>mp_input_lease := 0\<rparr>; s3 = mic_reset s2
      in s3\<lparr>mp_link := None, mp_lease := 0, mp_broker_deadline := 0, mp_copied_seed := 0, mp_copied_generation := 0\<rparr>)"

section \<open>Messages of the broker\<close>

datatype xpc_item = X_UInt u64 | X_Shmem "(nat \<times> mic_link) option" | X_Other

datatype xpc_message = X_Error | X_Dictionary "(string \<times> xpc_item) list" | X_Unknown

definition micWord :: "(string \<times> xpc_item) list \<Rightarrow> string \<Rightarrow> u64 option" where
  "micWord d key = (case map_of d key of Some (X_UInt v) \<Rightarrow> Some v | _ \<Rightarrow> None)"

definition mic_seconds :: "(rat \<Rightarrow> rat) \<Rightarrow> rat \<Rightarrow> rat \<Rightarrow> u64" where
  "mic_seconds rd ticks n = of_int \<lfloor>rd (rd (ticks * of_nat PLANKMicRate) * n)\<rfloor>"

text \<open>The operation and the lease of a message that root sent in the right form.\<close>

definition mic_request :: "nat \<Rightarrow> xpc_message \<Rightarrow> ((string \<times> xpc_item) list \<times> u64 \<times> u64) option" where
  "mic_request euid message =
     (case message of
        X_Dictionary d \<Rightarrow>
          (case (micWord d ''version'', micWord d ''operation'', micWord d ''lease'') of
             (Some version, Some operation, Some lease) \<Rightarrow>
               if euid = 0 \<and> version = PLANKMicLinkVersion \<and> lease \<noteq> 0 then Some (d, operation, lease) else None
           | _ \<Rightarrow> None)
      | _ \<Rightarrow> None)"

definition mic_attach :: "(rat \<Rightarrow> rat) \<Rightarrow> u64 \<Rightarrow> u64 \<Rightarrow> mic_link \<Rightarrow> mic_ipc \<Rightarrow> mic_ipc" where
  "mic_attach rd now lease mapping s =
     (let s1 = micDropLink s in
      s1\<lparr>mp_lease := lease, mp_link := Some (mapping\<lparr>ml_ticks := hs_ticks s1\<rparr>),
         mp_broker_deadline := now + mic_seconds rd (hs_ticks s1) 2, mp_input_lease := lease\<rparr>)"

definition mic_operate ::
  "(rat \<Rightarrow> rat) \<Rightarrow> u64 \<Rightarrow> (string \<times> xpc_item) list \<Rightarrow> u64 \<Rightarrow> u64 \<Rightarrow> mic_ipc \<Rightarrow> bool \<times> mic_ipc" where
  "mic_operate rd now d operation lease s =
     (if operation = 1 \<and> length d = 4
      then (case map_of d ''memory'' of
              Some (X_Shmem (Some (bytes, mapping))) \<Rightarrow>
                if bytes = mp_link_bytes s \<and> ml_version mapping = PLANKMicLinkVersion
                then (True, mic_attach rd now lease mapping s) else (False, s)
            | _ \<Rightarrow> (False, s))
      else if operation = 2 \<and> length d = 3 \<and> lease = mp_lease s
      then (True, s\<lparr>mp_broker_deadline := now + mic_seconds rd (hs_ticks s) 2\<rparr>)
      else if operation = 3 \<and> length d = 3
      then (True, if lease = mp_lease s then micDropLink s else s)
      else (False, s))"

text \<open>The event handler of a connection: the reply that is sent, and the state. \<^verbatim>\<open>reply\<close> says whether a reply could
  be created. A connection that is no longer the current one is ignored.\<close>

definition mic_handler ::
  "(rat \<Rightarrow> rat) \<Rightarrow> nat \<Rightarrow> nat \<Rightarrow> bool \<Rightarrow> u64 \<Rightarrow> xpc_message \<Rightarrow> mic_ipc \<Rightarrow> bool option \<times> mic_ipc" where
  "mic_handler rd peer euid reply now message s =
     (if Some peer \<noteq> mp_peer s then (None, s)
      else if message = X_Error then (None, (micDropLink s)\<lparr>mp_peer := None\<rparr>)
      else case mic_request euid message of
        None \<Rightarrow> (None, micDropLink s)
      | Some (d, operation, lease) \<Rightarrow>
          if \<not> reply then (None, micDropLink s)
          else case mic_operate rd now d operation lease s of (accepted, t) \<Rightarrow> (Some accepted, t))"

definition micConnect :: "nat \<Rightarrow> mic_ipc \<Rightarrow> mic_ipc" where
  "micConnect peer s = s\<lparr>mp_peer := Some peer\<rparr>"

section \<open>The timer\<close>

definition mic_sanitize :: "float_value \<Rightarrow> float_value" where
  "mic_sanitize x = (if isfinite x then fminf (Finite 1) (fmaxf (Finite (- 1)) x) else Finite 0)"

definition mic_copy_block :: "mic_buffer \<Rightarrow> u64 \<Rightarrow> mic_buffer \<Rightarrow> mic_buffer" where
  "mic_copy_block link frame b =
     (case snd (mic_buffer_read frame True (of_nat PLANKMicPacketFrames) link) of
        None \<Rightarrow> b
      | Some frames \<Rightarrow>
          snd (mic_buffer_write frame (Some (concat (map (\<lambda>(x, y). [mic_sanitize x, mic_sanitize y]) frames)))
                 (of_nat PLANKMicPacketFrames) b))"

definition mic_first_block :: "(rat \<Rightarrow> rat) \<Rightarrow> u64 \<Rightarrow> u64 \<Rightarrow> rat \<Rightarrow> u64" where
  "mic_first_block rd now base ticks =
     (let frame = of_int \<lfloor>rd (rd (of_nat (unat (now - base))) / ticks)\<rfloor>;
          frame = frame div of_nat PLANKMicPacketFrames * of_nat PLANKMicPacketFrames
      in if of_nat PLANKMicPacketFrames \<le> frame then frame - of_nat PLANKMicPacketFrames else frame)"

definition mic_publish_clock :: "mic_ipc \<Rightarrow> mic_link \<Rightarrow> mic_link" where
  "mic_publish_clock s link =
     link\<lparr>ml_clock_sequence := ml_clock_sequence link + 2, ml_anchor := hs_anchor s, ml_seed := hs_seed s,
          ml_running := hs_running s\<rparr>"

definition mic_follow :: "mic_link \<Rightarrow> mic_ipc \<Rightarrow> mic_ipc" where
  "mic_follow link s =
     (if hs_seed s \<noteq> mp_copied_seed s \<or> mb_generation (ml_samples link) \<noteq> mp_copied_generation s
      then (mic_reset (s\<lparr>mp_input_deadline := 0\<rparr>))
             \<lparr>mp_copied_seed := hs_seed s, mp_copied_generation := mb_generation (ml_samples link)\<rparr>
      else s)"

definition mic_copy :: "(rat \<Rightarrow> rat) \<Rightarrow> u64 \<Rightarrow> mic_link \<Rightarrow> mic_ipc \<Rightarrow> mic_ipc" where
  "mic_copy rd now link s =
     (let frame = mic_first_block rd now (hs_anchor s) (hs_ticks s);
          buffer = fold (\<lambda>block. mic_copy_block (ml_samples link) (frame + of_nat (block * PLANKMicPacketFrames))) [0..<5] (mi_buffer s);
          cap = now + mic_seconds rd (hs_ticks s) (1 / 2);
          deadline = (if cap < ml_deadline link then cap else ml_deadline link);
          deadline = (if mp_broker_deadline s < deadline then mp_broker_deadline s else deadline)
      in s\<lparr>mi_buffer := buffer, mp_input_deadline := deadline\<rparr>)"

definition micIPCTick :: "(rat \<Rightarrow> rat) \<Rightarrow> nat \<Rightarrow> u64 \<Rightarrow> mic_ipc \<Rightarrow> mic_ipc" where
  "micIPCTick rd peer now s =
     (let s1 = (if mp_peer s = None \<and> mp_connect_at s \<le> now
                then micConnect peer (s\<lparr>mp_connect_at := now + of_int \<lfloor>rd (hs_ticks s * of_nat PLANKMicRate)\<rfloor>\<rparr>) else s) in
      case mp_link s1 of
        None \<Rightarrow> s1
      | Some link0 \<Rightarrow>
          if mp_broker_deadline s1 \<le> now then micDropLink s1
          else
            let link = mic_publish_clock s1 link0;
                s2 = mic_follow link (s1\<lparr>mp_link := Some link\<rparr>)
            in if hs_running s2 = 0 \<or> now < hs_anchor s2 \<or> ml_deadline link \<le> now \<or> ml_producer_seed link \<noteq> hs_seed s2
               then s2\<lparr>mp_input_deadline := 0\<rparr>
               else mic_copy rd now link s2)"

section \<open>The IO thread\<close>

text \<open>\<^verbatim>\<open>s1\<close>, \<^verbatim>\<open>s2\<close> and \<^verbatim>\<open>s3\<close> are the states at the first check, at the read and at the second check: the control queue
  may run in between.\<close>

definition micIPCRead :: "mic_ipc \<Rightarrow> u64 \<Rightarrow> mic_ipc \<Rightarrow> mic_ipc \<Rightarrow> u64 \<Rightarrow> u64 \<Rightarrow> u32 \<Rightarrow> stereo list" where
  "micIPCRead s1 now1 s2 s3 now2 frame count =
     (let lease = mp_input_lease s1 in
      if lease = 0 \<or> mp_input_deadline s1 \<le> now1 then replicate (unat count) silence
      else
        let out = mic_read_buffer s2 frame count in
        if lease \<noteq> mp_input_lease s3 \<or> mp_input_deadline s3 \<le> now2 then replicate (unat count) silence else out)"

end
