(* ===== verification/Mic_Proofs.thy ===== *)
theory Mic_Proofs
  imports Mic_Ipc
begin

text \<open>
  The correctness of the virtual microphone: its property table and its clients, the range of what an IO cycle
  hears whatever the producer puts into the shared mapping, and the admission of the producer, which ends
  at the latest two seconds after the last message of the root broker.
\<close>

section \<open>The tables agree\<close>

lemma mic_size_cases:
  assumes "Some n \<in> set (mic_size_answers object scope sel)"
  obtains (global) "scope = ScopeGlobal" "mic_global_size object sel = Some n"
  | (plugin) "object = kAudioObjectPlugInObject" "scope = ScopeGlobal" "mic_plugin_size sel = Some n"
  | (device) "object = MicDevice" "mic_device_size scope sel = Some n"
  | (stream) "object = MicStream" "scope = ScopeGlobal" "mic_stream_size sel = Some n"
  using assms unfolding mic_size_answers_def set_simps
  by (elim insertE emptyE) (auto split: if_split_asm)

lemma mic_propertySize_answer:
  "mic_propertySize object (Some a) True = Inr n \<Longrightarrow>
     Some n \<in> set (mic_size_answers object (ad_scope a) (ad_selector a))"
  by (auto simp: mic_propertySize_def split: if_split_asm option.split_asm intro: first_answer_Some)

lemma mic_global_answers:
  "mic_global_size object sel = Some n \<Longrightarrow> n \<noteq> 0 \<Longrightarrow> answers (mic_value k object scope qs q s sel) n"
  by (cases sel) (auto simp: mic_global_size_def answers_def split: if_split_asm)

lemma mic_plugin_answers: "mic_plugin_size sel = Some n \<Longrightarrow> answers (mic_value k object scope qs q s sel) n"
  by (cases sel) (auto simp: mic_plugin_size_def answers_def mic_translate_def)

lemma mic_device_answers:
  "mic_device_size scope sel = Some n \<Longrightarrow> n \<noteq> 0 \<Longrightarrow> answers (mic_value k MicDevice scope qs q s sel) n"
  by (cases sel) (auto simp: mic_device_size_def answers_def split: if_split_asm)

lemma mic_stream_answers: "mic_stream_size sel = Some n \<Longrightarrow> answers (mic_value k object scope qs q s sel) n"
  by (cases sel) (auto simp: mic_stream_size_def answers_def)

lemma mic_value_answers:
  assumes "mic_propertySize object (Some a) True = Inr n" "n \<noteq> 0"
  shows "answers (mic_value k object (ad_scope a) qs q s (ad_selector a)) n"
  using mic_propertySize_answer [OF assms(1)]
proof (cases rule: mic_size_cases)
  case global then show ?thesis using assms(2) by (intro mic_global_answers)
next
  case plugin then show ?thesis by (intro mic_plugin_answers)
next
  case device then show ?thesis using assms(2) by (simp add: mic_device_answers)
next
  case stream then show ?thesis by (intro mic_stream_answers)
qed

lemma mic_propertySize_status: "mic_propertySize object address True = Inl st \<Longrightarrow> st = BadObject \<or> st = UnknownProperty"
  by (auto simp: mic_propertySize_def split: option.splits if_splits)

theorem mic_get_agrees:
  "get_agrees (mic_has driver object address) (mic_sizeOf driver object address True) capacity
     (mic_get k driver object address qs q capacity True data s)"
proof (cases "mic_sizeOf driver object address True")
  case (Inl st)
  then show ?thesis
    using mic_propertySize_status [of object address st]
    by (auto simp: get_agrees_def mic_get_def mic_has_def mic_sizeOf_def split: if_splits)
next
  case (Inr n)
  then obtain a where a: "driver" "address = Some a" "mic_propertySize object (Some a) True = Inr n"
    by (cases address) (auto simp: mic_sizeOf_def mic_propertySize_def split: if_splits)
  have "n \<noteq> 0 \<Longrightarrow> answers (mic_value k object (ad_scope a) qs q s (ad_selector a)) n"
    by (rule mic_value_answers [OF a(3)])
  then show ?thesis
    using a by (auto simp: get_agrees_def mic_get_def mic_has_def mic_sizeOf_def answers_def split: sum.splits)
qed

section \<open>The clients\<close>

lemma keeps_hal_mic_reset [simp]: "keeps_hal mic_reset"
  by (simp add: keeps_hal_def mic_reset_def)

interpretation mic_clients: client_table "hal_request MicDevice mic_reset" "hal_view :: mic_ipc \<Rightarrow> client_view" hal_ok hs_running
  by (rule hal_client_table) simp

fun mic_client_request :: "client_request \<Rightarrow> mic_ipc \<Rightarrow> os_status \<times> mic_ipc" where
  "mic_client_request (Add_Client c) s = mic_addClient True MicDevice (Some c) s"
| "mic_client_request (Remove_Client c) s = mic_removeClient True MicDevice (Some c) s"
| "mic_client_request (Start_IO c now) s = mic_startIO True MicDevice c now s"
| "mic_client_request (Stop_IO c) s = mic_stopIO True MicDevice c 0 s"

lemma mic_client_request_hal: "mic_client_request = hal_request MicDevice mic_reset"
proof (intro ext)
  show "mic_client_request r s = hal_request MicDevice mic_reset r s" for r s
    by (cases r) (simp_all add: mic_addClient_def mic_removeClient_def mic_startIO_def mic_stopIO_def mic_changeIO_def)
qed

text \<open>The driver after its first initialisation.\<close>

definition mic_device_ready :: "(rat \<Rightarrow> rat) \<Rightarrow> u32 \<Rightarrow> u32 \<Rightarrow> int \<Rightarrow> u64 \<Rightarrow> mic_ipc" where
  "mic_device_ready rd numer denom page now = snd (mic_initialize (micIPCInitialize page) rd True True numer denom now mic_ipc_static)"

lemma mic_device_ready_fields:
  "hs_host (mic_device_ready rd numer denom page now)" "hs_clients (mic_device_ready rd numer denom page now) = hs_clients hal_static"
  "hs_running (mic_device_ready rd numer denom page now) = 0" "hs_seed (mic_device_ready rd numer denom page now) = 1"
  "hs_anchor (mic_device_ready rd numer denom page now) = now" "mi_buffer (mic_device_ready rd numer denom page now) = mic_buffer_init"
  "mp_link (mic_device_ready rd numer denom page now) = None" "mp_lease (mic_device_ready rd numer denom page now) = 0"
  "mp_broker_deadline (mic_device_ready rd numer denom page now) = 0" "mp_input_deadline (mic_device_ready rd numer denom page now) = 0"
  "mp_input_lease (mic_device_ready rd numer denom page now) = 0"
  by (simp_all add: mic_device_ready_def mic_initialize_def hal_initialize_def micIPCInitialize_def mic_ipc_static_def mic_static_def
      hal_static_def hal_state.extend_def mic_state.extend_def)

lemma mic_device_ready_ok: "hal_ok (mic_device_ready rd numer denom page now)"
  using hal_static_table by (simp add: hal_ok_def mic_device_ready_fields hal_table_ok_def) (simp add: hal_static_def)

theorem mic_clients_refine:
  assumes "run_requests mic_client_request rs (mic_device_ready rd numer denom page now) = (as, s)"
  shows "run_requests client_spec rs \<lparr>cv_table = Map.empty, cv_epoch = 1, cv_start = now\<rparr> = (as, hal_view s) \<and>
    unat (hs_running s) = card (running_clients (slot_map (hs_clients s)))"
proof -
  have "hal_view (mic_device_ready rd numer denom page now) = \<lparr>cv_table = Map.empty, cv_epoch = 1, cv_start = now\<rparr>"
    by (simp add: hal_view_def mic_device_ready_fields) (simp add: hal_static_def slot_map_def filter_replicate)
  then show ?thesis
    using mic_clients.run_refines [OF mic_device_ready_ok assms [unfolded mic_client_request_hal]] by (simp add: hal_view_def)
qed

section \<open>The range of what is heard\<close>

fun audible :: "float_value \<Rightarrow> bool" where
  "audible (Finite x) = (- 1 \<le> x \<and> x \<le> 1)"
| "audible _ = False"

definition audible_frame :: "stereo \<Rightarrow> bool" where
  "audible_frame v \<longleftrightarrow> audible (fst v) \<and> audible (snd v)"

definition clamped :: "mic_buffer \<Rightarrow> bool" where
  "clamped b \<longleftrightarrow> length (mb_samples b) = PLANKMicFrames \<and> (\<forall>x \<in> set (mb_samples b). audible_frame (ms_bits x))"

lemma audible_silence [simp]: "audible_frame silence"
  by (simp add: audible_frame_def silence_def)

lemma audible_clamp: "isfinite x \<Longrightarrow> audible (mic_clamp x)"
  by (cases x) (auto simp: mic_clamp_def fminf_def fmaxf_def)

lemma clamped_init [simp]: "clamped mic_buffer_init"
  by (simp add: clamped_def mic_buffer_init_def)

lemma clamped_reset [simp]: "clamped b \<Longrightarrow> clamped (mic_buffer_reset f b)"
  by (auto simp: clamped_def mic_buffer_reset_def Let_def)

lemma clamped_store: "clamped b \<Longrightarrow> audible_frame v \<Longrightarrow> clamped (mic_store p v b)"
  by (auto simp: clamped_def mic_store_def Let_def dest!: set_update_subset_insert [THEN subsetD])

lemma clamped_fold: "clamped b \<Longrightarrow> \<forall>i \<in> set is. audible_frame (g i) \<Longrightarrow> clamped (fold (\<lambda>i. mic_store (f + of_nat i) (g i)) is b)"
  by (induction "is" arbitrary: b) (simp_all add: clamped_store)

lemma clamped_write [simp]:
  assumes "clamped b"
  shows "clamped (snd (mic_buffer_write f samples count b))"
proof (cases "mic_write_ok (mb_first b) f samples count")
  case True
  then have "\<forall>i \<in> set [0..<unat count]. audible_frame (mic_pair (the samples) i)"
    by (auto simp: mic_write_ok_def audible_frame_def mic_pair_def intro!: audible_clamp)
  then show ?thesis using clamped_fold [OF assms, of "[0..<unat count]"] True by (simp add: mic_buffer_write_def)
qed (use assms in \<open>simp add: mic_buffer_write_def\<close>)

lemma clamped_copy_block [simp]: "clamped b \<Longrightarrow> clamped (mic_copy_block link f b)"
  by (simp add: mic_copy_block_def split: option.split)

lemma clamped_copy_blocks [simp]: "clamped b \<Longrightarrow> clamped (fold (\<lambda>i. mic_copy_block link (g i)) is b)"
  by (induction "is" arbitrary: b) simp_all

lemma audible_load: "clamped b \<Longrightarrow> audible_frame (mic_load b first p)"
  using mic_slot_less [of "mb_samples b" p] by (simp add: clamped_def mic_load_def Let_def)

lemma read_buffer_range:
  assumes "clamped (mi_buffer s)"
  shows "length (mic_read_buffer s f n) = unat n \<and> (\<forall>v \<in> set (mic_read_buffer s f n). audible_frame v)"
  using audible_load [OF assms] by (auto simp: mic_read_buffer_def mic_buffer_read_def)

section \<open>The control queue\<close>

text \<open>What can happen between two IO cycles: a message on a connection, a tick of the timer, new contents of the
  shared mapping by the producer, a request of the audio server.\<close>

datatype mic_event =
    Ev_Message nat nat bool u64 xpc_message
  | Ev_Tick nat u64
  | Ev_Producer mic_link
  | Ev_Request client_request

fun mic_happens :: "(rat \<Rightarrow> rat) \<Rightarrow> mic_event \<Rightarrow> mic_ipc \<Rightarrow> mic_ipc" where
  "mic_happens rd (Ev_Message peer euid reply now m) s = snd (mic_handler rd peer euid reply now m s)"
| "mic_happens rd (Ev_Tick peer now) s = micIPCTick rd peer now s"
| "mic_happens rd (Ev_Producer l) s = s\<lparr>mp_link := map_option (\<lambda>_. l) (mp_link s)\<rparr>"
| "mic_happens rd (Ev_Request r) s = snd (mic_client_request r s)"

fun mic_events :: "(rat \<Rightarrow> rat) \<Rightarrow> mic_event list \<Rightarrow> mic_ipc \<Rightarrow> mic_ipc" where
  "mic_events rd [] s = s"
| "mic_events rd (e # es) s = mic_events rd es (mic_happens rd e s)"

text \<open>The times at which a message of root lent or renewed the lease.\<close>

fun mic_renewal :: "(rat \<Rightarrow> rat) \<Rightarrow> mic_event \<Rightarrow> mic_ipc \<Rightarrow> u64 set" where
  "mic_renewal rd (Ev_Message peer euid reply now m) s =
     (case mic_request euid m of
        Some (d, operation, lease) \<Rightarrow>
          if operation \<in> {1, 2} \<and> fst (mic_handler rd peer euid reply now m s) = Some True then {now} else {}
      | None \<Rightarrow> {})"
| "mic_renewal rd _ s = {}"

fun mic_renewals :: "(rat \<Rightarrow> rat) \<Rightarrow> mic_event list \<Rightarrow> mic_ipc \<Rightarrow> u64 set" where
  "mic_renewals rd [] s = {}"
| "mic_renewals rd (e # es) s = mic_renewal rd e s \<union> mic_renewals rd es (mic_happens rd e s)"

definition within_lease :: "u64 set \<Rightarrow> u64 \<Rightarrow> u64 \<Rightarrow> bool" where
  "within_lease A w t \<longleftrightarrow> t = 0 \<or> (\<exists>T \<in> A. t \<le> T + w)"

definition ipc_inv :: "(rat \<Rightarrow> rat) \<Rightarrow> rat \<Rightarrow> u64 set \<Rightarrow> mic_ipc \<Rightarrow> bool" where
  "ipc_inv rd ticks A s \<longleftrightarrow> hs_ticks s = ticks \<and> clamped (mi_buffer s) \<and>
     (mp_link s = None \<longrightarrow> mp_lease s = 0 \<and> mp_input_lease s = 0) \<and>
     (mp_link s \<noteq> None \<longrightarrow> mp_lease s \<noteq> 0 \<and> mp_input_lease s = mp_lease s) \<and>
     within_lease A (mic_seconds rd ticks 2) (mp_broker_deadline s) \<and>
     within_lease A (mic_seconds rd ticks 2) (mp_input_deadline s)"

lemma within_lease_0 [simp]: "within_lease A w 0"
  by (simp add: within_lease_def)

lemma within_lease_new [simp]: "T \<in> A \<Longrightarrow> within_lease A w (T + w)"
  by (auto simp: within_lease_def)

lemma within_lease_le: "within_lease A w t \<Longrightarrow> u \<le> t \<Longrightarrow> within_lease A w u"
  by (auto simp: within_lease_def intro: order_trans)

lemma ipc_inv_mono: "ipc_inv rd ticks A s \<Longrightarrow> A \<subseteq> B \<Longrightarrow> ipc_inv rd ticks B s"
  by (auto simp: ipc_inv_def within_lease_def)

lemma ipc_inv_drop: "ipc_inv rd ticks A s \<Longrightarrow> ipc_inv rd ticks A (micDropLink s)"
  by (simp add: ipc_inv_def micDropLink_def mic_reset_def Let_def)

lemma mic_operate_cases:
  assumes "mic_operate rd now d operation lease s = (accepted, t)"
  obtains (kept) "t = s" | (dropped) "t = micDropLink s"
  | (lent) mapping where "accepted" "operation = 1" "t = mic_attach rd now lease mapping s"
  | (renewed) "accepted" "operation = 2" "t = s\<lparr>mp_broker_deadline := now + mic_seconds rd (hs_ticks s) 2\<rparr>"
proof -
  consider (one) "operation = 1 \<and> length d = 4" | (two) "\<not> (operation = 1 \<and> length d = 4)" "operation = 2 \<and> length d = 3 \<and> lease = mp_lease s"
    | (other) "\<not> (operation = 1 \<and> length d = 4)" "\<not> (operation = 2 \<and> length d = 3 \<and> lease = mp_lease s)" by blast
  then show thesis
  proof cases
    case one
    let ?memory = "map_of d ''memory''"
    show thesis
    proof (cases "\<exists>mapping. ?memory = Some (X_Shmem (Some (mp_link_bytes s, mapping))) \<and> ml_version mapping = PLANKMicLinkVersion")
      case True
      then obtain mapping where "?memory = Some (X_Shmem (Some (mp_link_bytes s, mapping)))" "ml_version mapping = PLANKMicLinkVersion"
        by blast
      then show thesis using assms one lent [of mapping] by (simp add: mic_operate_def)
    next
      case False
      then have "t = s" using assms one
        by (simp add: mic_operate_def split: option.split_asm xpc_item.split_asm prod.split_asm if_split_asm)
      then show thesis by (rule kept)
    qed
  next
    case two
    then show thesis using assms renewed unfolding mic_operate_def by (simp only: if_False if_True prod.inject simp_thms)
  next
    case other
    then have "t = s \<or> t = micDropLink s"
      using assms unfolding mic_operate_def by (simp only: if_False prod.inject split: if_split_asm) auto
    then show thesis using kept dropped by blast
  qed
qed

lemma ipc_inv_operate:
  assumes "ipc_inv rd ticks A s" "lease \<noteq> 0" "mic_operate rd now d operation lease s = (accepted, t)"
    and "A \<subseteq> B" "accepted \<Longrightarrow> operation \<in> {1, 2} \<Longrightarrow> now \<in> B"
  shows "ipc_inv rd ticks B t"
proof -
  have old: "ipc_inv rd ticks B s" by (rule ipc_inv_mono [OF assms(1,4)])
  from assms(3) show ?thesis
  proof (cases rule: mic_operate_cases)
    case kept then show ?thesis using old by simp
  next
    case dropped then show ?thesis using ipc_inv_drop [OF old] by simp
  next
    case (lent mapping)
    then have "now \<in> B" using assms(5) by simp
    then show ?thesis using old assms(2) lent(3)
      by (simp add: ipc_inv_def mic_attach_def micDropLink_def mic_reset_def Let_def)
  next
    case renewed
    then have "now \<in> B" using assms(5) by simp
    then show ?thesis using old renewed(3) by (simp add: ipc_inv_def)
  qed
qed

lemma ipc_inv_message:
  assumes "ipc_inv rd ticks A s"
  shows "ipc_inv rd ticks (A \<union> mic_renewal rd (Ev_Message peer euid reply now m) s) (snd (mic_handler rd peer euid reply now m s))"
proof (cases "Some peer = mp_peer s \<and> m \<noteq> X_Error \<and> reply")
  case False
  have "ipc_inv rd ticks A (snd (mic_handler rd peer euid reply now m s))"
    using False assms ipc_inv_drop [OF assms]
    by (auto simp: mic_handler_def ipc_inv_def split: option.split)
  then show ?thesis by (rule ipc_inv_mono) simp
next
  case True
  show ?thesis
  proof (cases "mic_request euid m")
    case None
    then show ?thesis using True ipc_inv_drop [OF assms] by (simp add: mic_handler_def)
  next
    case (Some r)
    obtain d operation lease where r: "r = (d, operation, lease)" by (cases r)
    have "lease \<noteq> 0" using Some r
      by (auto simp: mic_request_def split: xpc_message.split_asm option.split_asm if_split_asm)
    obtain accepted t where op: "mic_operate rd now d operation lease s = (accepted, t)"
      by (cases "mic_operate rd now d operation lease s")
    have h: "mic_handler rd peer euid reply now m s = (Some accepted, t)"
      using True Some r op by (simp add: mic_handler_def)
    have "ipc_inv rd ticks (A \<union> mic_renewal rd (Ev_Message peer euid reply now m) s) t"
      by (rule ipc_inv_operate [OF assms \<open>lease \<noteq> 0\<close> op]) (simp_all add: Some r h)
    then show ?thesis by (simp add: h)
  qed
qed

text \<open>A step of the timer.\<close>

lemma ipc_inv_connect [simp]:
  "ipc_inv rd ticks A (s\<lparr>mp_peer := p\<rparr>) = ipc_inv rd ticks A s"
  "ipc_inv rd ticks A (s\<lparr>mp_connect_at := c\<rparr>) = ipc_inv rd ticks A s"
  by (simp_all add: ipc_inv_def)

lemma ipc_inv_link: "ipc_inv rd ticks A s \<Longrightarrow> mp_link s \<noteq> None \<Longrightarrow> ipc_inv rd ticks A (s\<lparr>mp_link := Some l\<rparr>)"
  by (auto simp: ipc_inv_def)

lemma ipc_inv_silent: "ipc_inv rd ticks A s \<Longrightarrow> ipc_inv rd ticks A (s\<lparr>mp_input_deadline := 0\<rparr>)"
  by (simp add: ipc_inv_def)

lemma ipc_inv_follow: "ipc_inv rd ticks A s \<Longrightarrow> ipc_inv rd ticks A (mic_follow l s)"
  by (simp add: ipc_inv_def mic_follow_def mic_reset_def)

lemma ipc_inv_copy:
  assumes "ipc_inv rd ticks A s"
  shows "ipc_inv rd ticks A (mic_copy rd now l s)"
proof -
  let ?t = "mic_copy rd now l s"
  have t: "hs_ticks ?t = hs_ticks s" "mp_link ?t = mp_link s" "mp_lease ?t = mp_lease s" "mp_input_lease ?t = mp_input_lease s"
    "mp_broker_deadline ?t = mp_broker_deadline s"
    by (simp_all add: mic_copy_def Let_def)
  have "clamped (mi_buffer ?t)" using assms by (simp add: mic_copy_def Let_def ipc_inv_def)
  moreover have "mp_input_deadline ?t \<le> mp_broker_deadline s" by (auto simp: mic_copy_def Let_def not_less)
  ultimately show ?thesis using assms within_lease_le unfolding ipc_inv_def t by blast
qed

lemma ipc_inv_tick:
  assumes "ipc_inv rd ticks A s"
  shows "ipc_inv rd ticks A (micIPCTick rd peer now s)"
proof -
  define s1 where "s1 = (if mp_peer s = None \<and> mp_connect_at s \<le> now
    then micConnect peer (s\<lparr>mp_connect_at := now + of_int \<lfloor>rd (hs_ticks s * of_nat PLANKMicRate)\<rfloor>\<rparr>) else s)"
  have s1: "ipc_inv rd ticks A s1" using assms by (simp add: s1_def micConnect_def)
  show ?thesis
  proof (cases "mp_link s1")
    case None
    then show ?thesis using s1 by (simp add: micIPCTick_def flip: s1_def)
  next
    case (Some l)
    define s2 where "s2 = mic_follow (mic_publish_clock s1 l) (s1\<lparr>mp_link := Some (mic_publish_clock s1 l)\<rparr>)"
    have s2: "ipc_inv rd ticks A s2" unfolding s2_def using ipc_inv_follow ipc_inv_link [OF s1] Some by simp
    have "micIPCTick rd peer now s =
      (if mp_broker_deadline s1 \<le> now then micDropLink s1
       else if hs_running s2 = 0 \<or> now < hs_anchor s2 \<or> ml_deadline (mic_publish_clock s1 l) \<le> now \<or>
         ml_producer_seed (mic_publish_clock s1 l) \<noteq> hs_seed s2
       then s2\<lparr>mp_input_deadline := 0\<rparr> else mic_copy rd now (mic_publish_clock s1 l) s2)"
      unfolding micIPCTick_def s1_def [symmetric] Let_def Some option.case s2_def ..
    then show ?thesis using ipc_inv_drop [OF s1] ipc_inv_silent [OF s2] ipc_inv_copy [OF s2] by simp
  qed
qed

text \<open>The requests of the audio server reset the private history at most.\<close>

lemma ipc_inv_hal [simp]:
  "ipc_inv rd ticks A (s\<lparr>hs_clients := c\<rparr>) = ipc_inv rd ticks A s" "ipc_inv rd ticks A (s\<lparr>hs_running := n\<rparr>) = ipc_inv rd ticks A s"
  "ipc_inv rd ticks A (s\<lparr>hs_anchor := a\<rparr>) = ipc_inv rd ticks A s" "ipc_inv rd ticks A (s\<lparr>hs_seed := e\<rparr>) = ipc_inv rd ticks A s"
  by (simp_all add: ipc_inv_def)

lemma ipc_inv_reset: "ipc_inv rd ticks A s \<Longrightarrow> ipc_inv rd ticks A (mic_reset s)"
  by (simp add: ipc_inv_def mic_reset_def)

lemma ipc_inv_add: "ipc_inv rd ticks A s \<Longrightarrow> ipc_inv rd ticks A (snd (hal_add_client dev driver device info s))"
  by (simp add: hal_add_client_def split: option.split)

lemma ipc_inv_remove: "ipc_inv rd ticks A s \<Longrightarrow> ipc_inv rd ticks A (snd (hal_remove_client dev driver device info s))"
  by (simp add: hal_remove_client_def Let_def split: option.split)

lemma ipc_inv_change:
  "ipc_inv rd ticks A s \<Longrightarrow> ipc_inv rd ticks A (snd (hal_change_io dev mic_reset driver device client start now s))"
  by (simp add: hal_change_io_def hal_restart_clock_def ipc_inv_reset Let_def split: option.split)

lemma ipc_inv_happens:
  assumes "ipc_inv rd ticks A s"
  shows "ipc_inv rd ticks (A \<union> mic_renewal rd e s) (mic_happens rd e s)"
proof (cases e)
  case (Ev_Message peer euid reply now m)
  then show ?thesis using ipc_inv_message [OF assms] by simp
next
  case (Ev_Tick peer now)
  then show ?thesis using ipc_inv_tick [OF assms] by simp
next
  case (Ev_Producer l)
  then show ?thesis using assms by (cases "mp_link s") (simp_all add: ipc_inv_def)
next
  case (Ev_Request r)
  then show ?thesis using assms
    by (cases r) (simp_all add: mic_addClient_def mic_removeClient_def mic_startIO_def mic_stopIO_def mic_changeIO_def
        ipc_inv_add ipc_inv_remove ipc_inv_change)
qed

lemma ipc_inv_events: "ipc_inv rd ticks A s \<Longrightarrow> ipc_inv rd ticks (A \<union> mic_renewals rd es s) (mic_events rd es s)"
proof (induction es arbitrary: A s)
  case (Cons e es)
  then show ?case using Cons.IH [OF ipc_inv_happens [OF Cons.prems, of e]] by (simp add: Un_assoc)
qed simp

lemma ipc_inv_ready: "ipc_inv rd (hs_ticks (mic_device_ready rd numer denom page now)) {} (mic_device_ready rd numer denom page now)"
  by (simp add: ipc_inv_def mic_device_ready_fields)

section \<open>What an IO cycle hears\<close>

lemma micIPCRead_range:
  assumes "clamped (mi_buffer s2)"
  shows "length (micIPCRead s1 now1 s2 s3 now2 p n) = unat n \<and> (\<forall>v \<in> set (micIPCRead s1 now1 s2 s3 now2 p n). audible_frame v)"
  using read_buffer_range [OF assms, of p n] by (simp add: micIPCRead_def Let_def)

text \<open>C13: whatever root, the producer and the audio server do, and whatever the producer writes into the shared mapping,
  an IO cycle that touches its caller's buffer fills exactly the frames asked for, at most 8192, with finite samples
  between minus one and one.\<close>

theorem mic_output_range:
  assumes "s2 = mic_events rd es (mic_device_ready rd numer denom page now)"
    and "mic_performIO (micIPCRead s1 now1 s2 s3 now2) driver device stream operation frames main cycle s = (st, Some out)"
  shows "length out = unat frames \<and> unat frames \<le> PLANKMicMaxIO \<and> (\<forall>v \<in> set out. audible_frame v)"
proof -
  have "clamped (mi_buffer s2)" using ipc_inv_events [OF ipc_inv_ready] assms(1) by (simp add: ipc_inv_def)
  then show ?thesis using assms(2) micIPCRead_range
    by (auto simp: mic_performIO_def split: if_split_asm float_value.split_asm)
qed

text \<open>C11: an IO cycle hears anything but silence only under a lease that is still the driver's at the second check, and
  only within two seconds of a message in which root lent or renewed a lease: neither the producer nor the audio
  server can extend it.\<close>

theorem mic_input_admitted:
  assumes "s3 = mic_events rd es (mic_device_ready rd numer denom page now)" "ticks = hs_ticks (mic_device_ready rd numer denom page now)"
    and "micIPCRead s1 now1 s2 s3 now2 p n \<noteq> replicate (unat n) silence"
  shows "mp_link s3 \<noteq> None \<and> mp_lease s3 = mp_input_lease s1 \<and>
    (\<exists>T \<in> mic_renewals rd es (mic_device_ready rd numer denom page now). now2 < T + mic_seconds rd ticks 2)"
proof -
  have inv: "ipc_inv rd ticks (mic_renewals rd es (mic_device_ready rd numer denom page now)) s3"
    using ipc_inv_events [OF ipc_inv_ready] assms(1,2) by simp
  have r: "mp_input_lease s1 \<noteq> 0" "mp_input_lease s3 = mp_input_lease s1" "now2 < mp_input_deadline s3"
    using assms(3) by (auto simp: micIPCRead_def Let_def not_le split: if_split_asm)
  then have "mp_input_deadline s3 \<noteq> 0" by auto
  then obtain T where "T \<in> mic_renewals rd es (mic_device_ready rd numer denom page now)"
      "mp_input_deadline s3 \<le> T + mic_seconds rd ticks 2"
    using inv by (auto simp: ipc_inv_def within_lease_def)
  moreover have "mp_link s3 \<noteq> None" using inv r(1,2) by (auto simp: ipc_inv_def)
  ultimately show ?thesis using inv r by (auto simp: ipc_inv_def intro: order.strict_trans2)
qed

section \<open>Witnesses\<close>

definition lent_link :: mic_link where
  "lent_link = PLANKMicLinkInit\<lparr>ml_producer_seed := 2, ml_deadline := 1000\<rparr>"

definition lend_message :: xpc_message where
  "lend_message = X_Dictionary [(''version'', X_UInt 2), (''operation'', X_UInt 1), (''lease'', X_UInt 5),
     (''memory'', X_Shmem (Some (147456, PLANKMicLinkInit)))]"

definition witness_events :: "mic_event list" where
  "witness_events = [Ev_Request (Add_Client 7), Ev_Request (Start_IO 7 0), Ev_Tick 0 1, Ev_Message 0 0 True 2 lend_message,
     Ev_Producer lent_link, Ev_Tick 0 3]"

abbreviation witness_ready :: mic_ipc where "witness_ready \<equiv> mic_device_ready (\<lambda>x. x) 1 1 16384 0"

lemma mic_device_ready_more:
  "hs_ticks witness_ready = 62500 / 3" "mp_peer witness_ready = None" "mp_connect_at witness_ready = 0"
  "mp_link_bytes witness_ready = 147456"
  by (simp_all add: mic_device_ready_def mic_initialize_def hal_initialize_def micIPCInitialize_def mic_ipc_static_def mic_static_def
      hal_static_def hal_state.extend_def mic_state.extend_def PLANKMicLinkBytes_def mic_link_struct_bytes_def)

definition unused_slot :: hal_slot where "unused_slot = \<lparr>hc_id = 0, hc_used = False, hc_running = False\<rparr>"

lemma find_unused [simp]: "find_client c (replicate n unused_slot) = None"
  by (induction n) (simp_all add: unused_slot_def)

lemma clients_ready: "hs_clients witness_ready = unused_slot # replicate 63 unused_slot"
  using replicate_Suc [of 63 unused_slot] by (simp add: mic_device_ready_fields hal_static_def unused_slot_def)

text \<open>The client runs, with the clock started at 0 and the epoch 2.\<close>

definition witness_running :: mic_ipc where
  "witness_running = mic_events (\<lambda>x. x) [Ev_Request (Add_Client 7), Ev_Request (Start_IO 7 0)] witness_ready"

lemma witness_added: "snd (mic_addClient True MicDevice (Some 7) witness_ready) =
    witness_ready\<lparr>hs_clients := \<lparr>hc_id = 7, hc_used = True, hc_running = False\<rparr> # replicate 63 unused_slot\<rparr>"
  by (simp add: mic_addClient_def hal_add_client_def clients_ready) (simp add: unused_slot_def)

lemma witness_running_fields:
  "hs_ticks witness_running = 62500 / 3" "mp_peer witness_running = None" "mp_connect_at witness_running = 0"
  "mp_link_bytes witness_running = 147456" "mp_link witness_running = None"
  "hs_running witness_running = 1" "hs_anchor witness_running = 0" "hs_seed witness_running = 2"
  by (simp_all add: witness_running_def witness_added mic_startIO_def mic_changeIO_def hal_change_io_def
      mic_device_ready_fields mic_device_ready_more hal_restart_clock_def mic_reset_def Let_def)

lemma witness_events_split:
  "mic_events (\<lambda>x. x) witness_events witness_ready =
     mic_events (\<lambda>x. x) [Ev_Tick 0 1, Ev_Message 0 0 True 2 lend_message, Ev_Producer lent_link, Ev_Tick 0 3] witness_running"
  by (simp add: witness_events_def witness_running_def)

definition witness_lent :: mic_ipc where
  "witness_lent = mic_events (\<lambda>x. x) [Ev_Tick 0 1, Ev_Message 0 0 True 2 lend_message, Ev_Producer lent_link] witness_running"

lemma lend_request:
  "mic_request 0 lend_message = Some ([(''version'', X_UInt 2), (''operation'', X_UInt 1), (''lease'', X_UInt 5),
     (''memory'', X_Shmem (Some (147456, PLANKMicLinkInit)))], 1, 5)"
  by (simp add: mic_request_def lend_message_def micWord_def)

lemma lend_not_error: "lend_message \<noteq> X_Error"
  by (simp add: lend_message_def)

lemma witness_lent_fields:
  "hs_ticks witness_lent = 62500 / 3" "mp_peer witness_lent = Some 0" "mp_link witness_lent = Some lent_link"
  "hs_running witness_lent = 1" "hs_anchor witness_lent = 0" "hs_seed witness_lent = 2" "mp_input_lease witness_lent = 5"
  "mp_broker_deadline witness_lent = 2000000002"
  by (simp_all add: witness_lent_def micIPCTick_def micConnect_def mic_handler_def lend_request lend_not_error mic_operate_def
      mic_attach_def micDropLink_def mic_reset_def mic_seconds_def witness_running_fields Let_def)
    (simp_all add: PLANKMicLinkInit_def)

text \<open>The deadline of the producer stands after the last tick.\<close>

lemma witness_admitted:
  "mp_input_lease (micIPCTick (\<lambda>x. x) 0 3 witness_lent) = 5" "mp_input_deadline (micIPCTick (\<lambda>x. x) 0 3 witness_lent) = 1000"
  by (simp_all add: micIPCTick_def mic_publish_clock_def mic_follow_def mic_copy_def mic_reset_def mic_seconds_def
      witness_lent_fields Let_def)
    (simp_all add: lent_link_def)

definition witness_heard :: mic_ipc where
  "witness_heard = mic_ipc_static\<lparr>mi_buffer := mic_store 0 (Finite 1, Finite (1 / 2)) mic_buffer_init\<rparr>"

lemma witness_heard_read: "mic_read_buffer witness_heard 0 1 = [(Finite 1, Finite (1 / 2))]"
proof -
  let ?b = "mic_store 0 (Finite 1, Finite (1 / 2)) mic_buffer_init"
  have "mic_history ?b 0 = Some (Finite 1, Finite (1 / 2))"
    using mic_history_store [of mic_buffer_init 0 _ 0] by (simp add: mic_buffer_init_def)
  then have "mic_load ?b (mb_first ?b) 0 = (Finite 1, Finite (1 / 2))"
    using mic_load_history [of ?b 0] by simp
  then show ?thesis by (simp add: mic_read_buffer_def witness_heard_def mic_buffer_read_def) (simp add: mic_buffer_init_def)
qed

lemma witness_events_lent: "mic_events (\<lambda>x. x) witness_events witness_ready = micIPCTick (\<lambda>x. x) 0 3 witness_lent"
  unfolding witness_events_split witness_lent_def by simp

theorem mic_input_admitted_witness:
  "\<exists>T \<in> mic_renewals (\<lambda>x. x) witness_events witness_ready. 11 < T + mic_seconds (\<lambda>x. x) (62500 / 3) 2"
proof -
  let ?s = "micIPCTick (\<lambda>x. x) 0 3 witness_lent"
  have "micIPCRead ?s 10 witness_heard ?s 11 0 1 = [(Finite 1, Finite (1 / 2))]"
    by (simp add: micIPCRead_def witness_admitted witness_heard_read)
  then have "micIPCRead ?s 10 witness_heard ?s 11 0 1 \<noteq> replicate (unat (1 :: u32)) silence"
    by (simp add: silence_def)
  from mic_input_admitted [OF witness_events_lent [symmetric] mic_device_ready_more(1) [symmetric] this] show ?thesis by simp
qed

theorem mic_output_range_witness:
  "length (replicate 2 silence) = unat (2 :: u32) \<and> audible_frame silence"
proof -
  have "mic_performIO (micIPCRead mic_ipc_static 0 (mic_events (\<lambda>x. x) witness_events witness_ready) mic_ipc_static 0) True MicDevice
      MicStream IO_ReadInput 2 True (Some \<lparr>ic_valid = True, ic_sample_time = Finite 0\<rparr>) (witness_ready\<lparr>hs_running := 1\<rparr>) =
    (NoErr, Some (replicate 2 silence))"
    by (simp add: mic_performIO_def micIPCRead_def mic_ipc_static_def mic_state.extend_def)
  note range = mic_output_range [OF refl this]
  have "audible_frame silence"
    by (rule bspec [OF range [THEN conjunct2, THEN conjunct2]]) simp
  with range [THEN conjunct1] show ?thesis by (rule conjI)
qed

end
