(* ===== verification/X264_Options.thy ===== *)
theory X264_Options
  imports Complex_Main Cxx_Parse
begin

text \<open>
  The sequential parts of the x264 benchmark, \<^verbatim>\<open>src/probes/video/plank-benchmark-x264.cpp\<close>: the
  command line, the sizes of a frame and of its planes, the reading of one frame over a descriptor
  whose \<^verbatim>\<open>read\<close> may be interrupted or short, the settings handed to the encoder and the statistics
  of the report. A thrown exception is \<^verbatim>\<open>Inl\<close> with the message as a constructor. \<^verbatim>\<open>unsigned int\<close> values
  are naturals: the parser bounds each of them far below 2^32. The statistics are computed in
  rationals, without the rounding of doubles.
\<close>

datatype pixel_format = kBgr0 | kIdentity8 | kIdentity10

datatype x264_error =
    Outside_Range string | Invalid_Number string | Unsupported_Format string
  | Unknown_Argument string | Preload_Needs_File | Size_Overflow | Cannot_Open string
  | Short_Input nat "nat option" | Preset_Rejected | Profile_Rejected | Open_Failed
  | Encode_Failed nat | Reordered | Flush_Failed

record bench_options =
  bo_input :: string
  bo_format :: pixel_format
  bo_width :: nat
  bo_height :: nat
  bo_frames :: nat
  bo_fps :: nat
  bo_bitrate_kbps :: nat
  bo_vbv_kbits :: nat
  bo_preload :: bool

definition bench_defaults :: bench_options where
  "bench_defaults = \<lparr>bo_input = ''-'', bo_format = kBgr0, bo_width = 3840, bo_height = 2160,
     bo_frames = 600, bo_fps = 60, bo_bitrate_kbps = 100000, bo_vbv_kbits = 2000, bo_preload = False\<rparr>"

section \<open>The command line\<close>

text \<open>The range check throws inside the \<^verbatim>\<open>try\<close> block whose handler replaces every exception.\<close>

definition in_range :: "u64 \<Rightarrow> string \<Rightarrow> nat \<Rightarrow> x264_error + nat" where
  "in_range parsed name maximum =
     (if parsed = 0 \<or> maximum < unat parsed then Inl (Outside_Range name) else Inr (unat parsed))"

definition parse_unsigned :: "string \<Rightarrow> string \<Rightarrow> nat \<Rightarrow> x264_error + nat" where
  "parse_unsigned value name maximum =
     (case (case stoul value of Inl _ \<Rightarrow> Inl (Invalid_Number name) | Inr parsed \<Rightarrow> in_range parsed name maximum) of
        Inl _ \<Rightarrow> Inl (Invalid_Number name)
      | Inr n \<Rightarrow> Inr n)"

definition bench_format :: "string \<Rightarrow> x264_error + pixel_format" where
  "bench_format format =
     (if format = ''bgr0'' then Inr kBgr0
      else if format = ''identity8'' then Inr kIdentity8
      else if format = ''identity10'' then Inr kIdentity10
      else Inl (Unsupported_Format format))"

text \<open>An option with a value; \<^verbatim>\<open>None\<close> for a name that is not one.\<close>

definition bench_value :: "string \<Rightarrow> string \<Rightarrow> bench_options \<Rightarrow> (x264_error + bench_options) option" where
  "bench_value argument v b =
     (if argument = ''--input'' then Some (Inr (b\<lparr>bo_input := v\<rparr>))
      else if argument = ''--format''
      then Some (map_sum id (\<lambda>x. b\<lparr>bo_format := x\<rparr>) (bench_format v))
      else if argument = ''--width''
      then Some (map_sum id (\<lambda>x. b\<lparr>bo_width := x\<rparr>) (parse_unsigned v ''width'' 16384))
      else if argument = ''--height''
      then Some (map_sum id (\<lambda>x. b\<lparr>bo_height := x\<rparr>) (parse_unsigned v ''height'' 16384))
      else if argument = ''--frames''
      then Some (map_sum id (\<lambda>x. b\<lparr>bo_frames := x\<rparr>) (parse_unsigned v ''frame count'' 36000))
      else if argument = ''--fps''
      then Some (map_sum id (\<lambda>x. b\<lparr>bo_fps := x\<rparr>) (parse_unsigned v ''frame rate'' 240))
      else if argument = ''--bitrate-kbps''
      then Some (map_sum id (\<lambda>x. b\<lparr>bo_bitrate_kbps := x\<rparr>) (parse_unsigned v ''bitrate'' 1000000))
      else if argument = ''--vbv-kbits''
      then Some (map_sum id (\<lambda>x. b\<lparr>bo_vbv_kbits := x\<rparr>) (parse_unsigned v ''VBV size'' 1000000))
      else None)"

text \<open>\<^verbatim>\<open>Inl None\<close> is the exit of \<^verbatim>\<open>--help\<close>.\<close>

fun bench_option_loop :: "string list \<Rightarrow> bench_options \<Rightarrow> x264_error option + bench_options" where
  "bench_option_loop [] b = Inr b"
| "bench_option_loop (argument # rest) b =
     (case (case rest of [] \<Rightarrow> None | v # _ \<Rightarrow> bench_value argument v b) of
        Some (Inl e) \<Rightarrow> Inl (Some e)
      | Some (Inr b') \<Rightarrow> bench_option_loop (drop 1 rest) b'
      | None \<Rightarrow>
          if argument = ''--preload'' then bench_option_loop rest (b\<lparr>bo_preload := True\<rparr>)
          else if argument = ''--help'' then Inl None
          else Inl (Some (Unknown_Argument argument)))"

definition bench_parse_options :: "string list \<Rightarrow> x264_error option + bench_options" where
  "bench_parse_options args = (case bench_option_loop args bench_defaults of
     Inl e \<Rightarrow> Inl e
   | Inr b \<Rightarrow> if bo_preload b \<and> bo_input b = ''-'' then Inl (Some Preload_Needs_File) else Inr b)"

section \<open>Sizes\<close>

definition checked_multiply :: "nat \<Rightarrow> nat \<Rightarrow> x264_error + nat" where
  "checked_multiply l r = (if l \<noteq> 0 \<and> (size_max - 1) div l < r then Inl Size_Overflow else Inr (l * r))"

fun format_bytes :: "pixel_format \<Rightarrow> nat" where
  "format_bytes kBgr0 = 4"
| "format_bytes kIdentity8 = 3"
| "format_bytes kIdentity10 = 6"

definition bytes_per_frame :: "bench_options \<Rightarrow> x264_error + nat" where
  "bytes_per_frame b = (case checked_multiply (bo_width b) (bo_height b) of
     Inl e \<Rightarrow> Inl e
   | Inr pixels \<Rightarrow> checked_multiply pixels (format_bytes (bo_format b)))"

text \<open>The planes of a picture: offset of the plane in the frame, and the stride.\<close>

datatype csp = X264_CSP_BGRA | X264_CSP_I444 bool

record bench_picture =
  bp_csp :: csp
  bp_strides :: "nat list"
  bp_planes :: "nat list"

definition bench_csp :: "bench_options \<Rightarrow> csp" where
  "bench_csp b = (if bo_format b = kBgr0 then X264_CSP_BGRA else X264_CSP_I444 (bo_format b = kIdentity10))"

definition configure_picture :: "bench_options \<Rightarrow> x264_error + bench_picture" where
  "configure_picture b =
     (if bo_format b = kBgr0 then
        Inr \<lparr>bp_csp = bench_csp b, bp_strides = [bo_width b * 4], bp_planes = [0]\<rparr>
      else
        let sample = (if bo_format b = kIdentity10 then 2 else 1) in
        (case checked_multiply (bo_width b) (bo_height b) of
           Inl e \<Rightarrow> Inl e
         | Inr pixels \<Rightarrow>
             (case checked_multiply pixels sample of
                Inl e \<Rightarrow> Inl e
              | Inr plane_bytes \<Rightarrow>
                  Inr \<lparr>bp_csp = bench_csp b,
                    bp_strides = map (\<lambda>plane. bo_width b * sample) [0..<3],
                    bp_planes = map (\<lambda>plane. plane_bytes * plane) [0..<3]\<rparr>)))"

section \<open>Reading a frame\<close>

text \<open>The replies of \<^verbatim>\<open>read\<close> are a list consumed from the front; the result \<^verbatim>\<open>None\<close> means that the loop
  still waits when it is exhausted. A read delivers at most what is asked for and at most what the
  stream holds; no byte is the end of the file.\<close>

datatype read_reply = Interrupted | Read_Error nat | Received nat

fun read_exact :: "nat \<Rightarrow> read_reply list \<Rightarrow> nat \<Rightarrow> bytes \<Rightarrow>
    (x264_error + bytes) option \<times> read_reply list \<times> bytes" where
  "read_exact index rs 0 stream = (Some (Inr []), rs, stream)"
| "read_exact index [] (Suc n) stream = (None, [], stream)"
| "read_exact index (Interrupted # rs) (Suc n) stream = read_exact index rs (Suc n) stream"
| "read_exact index (Read_Error errno # rs) (Suc n) stream =
     (Some (Inl (Short_Input index (Some errno))), rs, stream)"
| "read_exact index (Received k # rs) (Suc n) stream =
     (let m = min k (min (Suc n) (length stream)) in
      if m = 0 then (Some (Inl (Short_Input index None)), rs, stream)
      else case read_exact index rs (Suc n - m) (drop m stream) of
        (r, rs', stream') \<Rightarrow> (map_option (map_sum id (\<lambda>got. take m stream @ got)) r, rs', stream'))"

section \<open>Encoder settings\<close>

record x264_params =
  xp_size :: "nat \<times> nat"
  xp_csp :: csp
  xp_bitdepth :: nat
  xp_fps :: "nat \<times> nat"
  xp_timebase :: "nat \<times> nat"
  xp_vfr :: bool
  xp_frame_total :: nat
  xp_keyint :: "nat \<times> nat"
  xp_scenecut :: nat
  xp_bframe :: nat
  xp_rc_abr :: bool
  xp_bitrate :: nat
  xp_vbv_max_bitrate :: nat
  xp_vbv_buffer :: nat
  xp_filler :: bool
  xp_hrd_cbr :: bool
  xp_repeat_headers :: bool
  xp_annexb :: bool
  xp_fullrange :: bool
  xp_color :: "nat \<times> nat \<times> nat"
  xp_log_warning :: bool

definition bench_params :: "bench_options \<Rightarrow> x264_params" where
  "bench_params b = \<lparr>xp_size = (bo_width b, bo_height b), xp_csp = bench_csp b,
     xp_bitdepth = (if bo_format b = kIdentity10 then 10 else 8), xp_fps = (bo_fps b, 1),
     xp_timebase = (1, bo_fps b), xp_vfr = False, xp_frame_total = bo_frames b,
     xp_keyint = (bo_fps b, bo_fps b), xp_scenecut = 0, xp_bframe = 0,
     xp_rc_abr = True, xp_bitrate = bo_bitrate_kbps b, xp_vbv_max_bitrate = bo_bitrate_kbps b,
     xp_vbv_buffer = bo_vbv_kbits b, xp_filler = True, xp_hrd_cbr = True, xp_repeat_headers = True,
     xp_annexb = True, xp_fullrange = True, xp_color = (0, 1, 13),
     xp_log_warning = True\<rparr>"

section \<open>Statistics of the report\<close>

definition bench_percentile :: "rat list \<Rightarrow> rat \<Rightarrow> rat" where
  "bench_percentile xs fraction =
     (if xs = [] then 0
      else let position = fraction * of_nat (length xs - 1);
               lower = nat \<lfloor>position\<rfloor>; upper = nat \<lceil>position\<rceil>;
               blend = position - of_nat lower
           in xs ! lower + (xs ! upper - xs ! lower) * blend)"

text \<open>\<^verbatim>\<open>std::max_element\<close> returns the first of the greatest elements.\<close>

definition maximum_index :: "rat list \<Rightarrow> nat" where
  "maximum_index xs = length (takeWhile (\<lambda>x. x < Max (set xs)) xs)"

definition steady_start :: "nat \<Rightarrow> rat list \<Rightarrow> nat" where
  "steady_start fps xs = min fps (if 1 < length xs then length xs - 1 else 0)"

definition budget_us :: "nat \<Rightarrow> rat" where
  "budget_us fps = 1000000 / of_nat fps"

definition over_budget :: "nat \<Rightarrow> rat list \<Rightarrow> nat" where
  "over_budget fps xs = length (filter (\<lambda>duration. budget_us fps < duration) xs)"

record bench_report =
  br_mean :: rat
  br_percentiles :: "rat list"
  br_max :: rat
  br_max_frame :: nat
  br_steady_after :: nat
  br_steady_percentiles :: "rat list"
  br_steady_max :: rat
  br_budget_ms :: rat
  br_misses :: nat
  br_miss_percent :: rat
  br_steady_misses :: nat
  br_sustainable_fps :: rat

definition bench_statistics :: "bench_options \<Rightarrow> rat list \<Rightarrow> bench_report" where
  "bench_statistics b encode_us =
     (let ascending = sort encode_us;
          start = steady_start (bo_fps b) encode_us;
          steady = sort (drop start encode_us);
          mean = sum_list encode_us / of_nat (length encode_us)
      in \<lparr>br_mean = mean / 1000,
          br_percentiles = map (\<lambda>f. bench_percentile ascending f / 1000) [50 / 100, 95 / 100, 99 / 100],
          br_max = last ascending / 1000, br_max_frame = maximum_index encode_us, br_steady_after = start,
          br_steady_percentiles = map (\<lambda>f. bench_percentile steady f / 1000) [95 / 100, 99 / 100],
          br_steady_max = last steady / 1000, br_budget_ms = budget_us (bo_fps b) / 1000,
          br_misses = over_budget (bo_fps b) encode_us,
          br_miss_percent = 100 * of_nat (over_budget (bo_fps b) encode_us) / of_nat (bo_frames b),
          br_steady_misses = over_budget (bo_fps b) steady, br_sustainable_fps = 1000000 / mean\<rparr>)"

section \<open>Facts\<close>

lemma parse_unsigned_range:
  "parse_unsigned v name maximum = Inr n \<Longrightarrow> 0 < n \<and> n \<le> maximum"
  by (auto simp: parse_unsigned_def in_range_def unat_gt_0 split: sum.splits if_splits)

text \<open>The handler hides which check failed: the message about the range is never shown.\<close>

lemma parse_unsigned_message:
  "parse_unsigned v name maximum = Inl e \<Longrightarrow> e = Invalid_Number name"
  by (auto simp: parse_unsigned_def split: sum.splits)

definition bench_options_ok :: "bench_options \<Rightarrow> bool" where
  "bench_options_ok b \<longleftrightarrow> 0 < bo_width b \<and> bo_width b \<le> 16384 \<and> 0 < bo_height b \<and> bo_height b \<le> 16384 \<and>
     0 < bo_frames b \<and> bo_frames b \<le> 36000 \<and> 0 < bo_fps b \<and> bo_fps b \<le> 240 \<and>
     0 < bo_bitrate_kbps b \<and> bo_bitrate_kbps b \<le> 1000000 \<and> 0 < bo_vbv_kbits b \<and> bo_vbv_kbits b \<le> 1000000"

lemma bench_defaults_ok: "bench_options_ok bench_defaults"
  by (simp add: bench_options_ok_def bench_defaults_def)

lemma bench_value_ok:
  "bench_value argument v b = Some (Inr b') \<Longrightarrow> bench_options_ok b \<Longrightarrow> bench_options_ok b'"
  unfolding bench_value_def
  by (auto simp: bench_options_ok_def map_sum_def split: if_split_asm sum.split_asm
      dest!: parse_unsigned_range)

lemma bench_option_loop_ok:
  "bench_option_loop args b = Inr b' \<Longrightarrow> bench_options_ok b \<Longrightarrow> bench_options_ok b'"
proof (induction args b rule: bench_option_loop.induct)
  case (2 argument rest b)
  then show ?case
    by (auto split: option.split_asm list.split_asm sum.split_asm if_split_asm
        dest: bench_value_ok simp: bench_options_ok_def)
qed simp

lemma bench_parse_options_ok:
  "bench_parse_options args = Inr b \<Longrightarrow> bench_options_ok b"
  using bench_option_loop_ok [OF _ bench_defaults_ok]
  by (auto simp: bench_parse_options_def split: sum.split_asm if_split_asm)

lemma checked_multiply_iff:
  "checked_multiply l r = (if l * r < size_max then Inr (l * r) else Inl Size_Overflow)"
  by (cases "l = 0") (simp_all add: checked_multiply_def div_less_iff_less_mult mult.commute [of r l])

lemma bytes_per_frame_ok:
  assumes "bench_options_ok b"
  shows "bytes_per_frame b = Inr (bo_width b * bo_height b * format_bytes (bo_format b))"
    "0 < bo_width b * bo_height b * format_bytes (bo_format b)"
    "bo_width b * bo_height b * format_bytes (bo_format b) * bo_frames b < size_max"
proof -
  have w: "bo_width b * bo_height b \<le> 16384 * 16384"
    using assms by (intro mult_le_mono) (simp_all add: bench_options_ok_def)
  have "format_bytes (bo_format b) \<le> 6" by (cases "bo_format b") simp_all
  with w have fb: "bo_width b * bo_height b * format_bytes (bo_format b) \<le> 16384 * 16384 * 6"
    by (rule mult_le_mono)
  moreover have "bo_frames b \<le> 36000" using assms by (simp add: bench_options_ok_def)
  ultimately have "bo_width b * bo_height b * format_bytes (bo_format b) * bo_frames b \<le> 16384 * 16384 * 6 * 36000"
    by (rule mult_le_mono)
  then show "bo_width b * bo_height b * format_bytes (bo_format b) * bo_frames b < size_max"
    by (rule order.strict_trans1) simp
  show "bytes_per_frame b = Inr (bo_width b * bo_height b * format_bytes (bo_format b))"
    using fb w
    by (simp add: bytes_per_frame_def checked_multiply_iff)
  show "0 < bo_width b * bo_height b * format_bytes (bo_format b)"
    using assms by (cases "bo_format b") (auto simp: bench_options_ok_def)
qed

text \<open>The planes of a picture are rows of the stride, one after another, and fill the frame.\<close>

lemma picture_fills_frame:
  assumes "bench_options_ok b"
  shows "\<exists>p. configure_picture b = Inr p \<and>
    bytes_per_frame b = Inr (sum_list (map (\<lambda>stride. stride * bo_height b) (bp_strides p))) \<and>
    bp_planes p = map (\<lambda>i. sum_list (map (\<lambda>stride. stride * bo_height b) (take i (bp_strides p))))
      [0..<length (bp_strides p)] \<and>
    list_all (\<lambda>stride. stride < 2 ^ 31) (bp_strides p)"
proof -
  have "bo_width b \<le> 16384" "bo_height b \<le> 16384" using assms by (simp_all add: bench_options_ok_def)
  moreover from this have "bo_width b * bo_height b \<le> 16384 * 16384" by (intro mult_le_mono) simp_all
  ultimately show ?thesis
    using bytes_per_frame_ok(1) [OF assms]
    by (cases "bo_format b")
      (simp_all add: configure_picture_def checked_multiply_iff upt_rec Let_def algebra_simps)
qed

section \<open>Reading\<close>

lemma read_exact_reads:
  "read_exact index rs n stream = (Some (Inr got), rs', stream') \<Longrightarrow>
    stream = got @ stream' \<and> length got = n"
proof (induction index rs n stream arbitrary: got rs' stream' rule: read_exact.induct)
  case (5 index k rs n stream)
  define m where "m = min k (min (Suc n) (length stream))"
  show ?case
  proof (cases "m = 0")
    case False
    obtain r q s where w: "read_exact index rs (Suc n - m) (drop m stream) = (r, q, s)"
      by (cases "read_exact index rs (Suc n - m) (drop m stream)")
    with "5.prems" False obtain g where g: "r = Some (Inr g)" "got = take m stream @ g" "stream' = s"
      by (cases r; cases "the r") (auto simp: m_def [symmetric] Let_def)
    have "m \<le> length stream" "m \<le> Suc n" by (simp_all add: m_def)
    with "5.IH" [OF m_def False w [unfolded g(1)]] g show ?thesis
      by (metis append.assoc append_take_drop_id length_append length_take le_add_diff_inverse min_absorb2)
  qed (use 5 in \<open>auto simp: m_def [symmetric] Let_def\<close>)
qed auto

lemma read_exact_index:
  "read_exact index rs n stream = (Some (Inl e), rs', stream') \<Longrightarrow> \<exists>d. e = Short_Input index d"
proof (induction index rs n stream arbitrary: e rs' stream' rule: read_exact.induct)
  case (5 index k rs n stream)
  define m where "m = min k (min (Suc n) (length stream))"
  obtain r q s where w: "read_exact index rs (Suc n - m) (drop m stream) = (r, q, s)"
    by (cases "read_exact index rs (Suc n - m) (drop m stream)")
  show ?case
  proof (cases "m = 0")
    case False
    with "5.prems" w have "r = Some (Inl e)"
      by (cases r; cases "the r") (auto simp: m_def [symmetric] Let_def)
    with "5.IH" [OF m_def False w [unfolded this]] show ?thesis by simp
  qed (use 5 in \<open>auto simp: m_def [symmetric] Let_def\<close>)
qed auto

section \<open>Statistics\<close>

lemma bench_percentile_bounds:
  assumes "sorted xs" "xs \<noteq> []" "0 \<le> f" "f \<le> 1"
  shows "hd xs \<le> bench_percentile xs f \<and> bench_percentile xs f \<le> last xs"
proof -
  define q where "q = f * of_nat (length xs - 1)"
  have q: "0 \<le> q" "q \<le> of_nat (length xs - 1)"
    using assms(3,4) mult_right_mono [OF assms(4), of "of_nat (length xs - 1)"] by (simp_all add: q_def)
  define lo hi t where "lo = nat \<lfloor>q\<rfloor>" and "hi = nat \<lceil>q\<rceil>" and "t = q - of_nat lo"
  have fl: "of_nat lo = of_int \<lfloor>q\<rfloor>" using q(1) by (simp add: lo_def)
  have t: "0 \<le> t" "t \<le> 1" unfolding t_def fl by linarith+
  have "lo \<le> hi" by (simp add: lo_def hi_def floor_le_ceiling nat_mono)
  moreover have "hi \<le> length xs - 1"
    using q(2) by (simp add: hi_def ceiling_le_iff nat_le_iff)
  then have h: "hi < length xs" using assms(2) by (cases xs) auto
  ultimately have o: "xs ! 0 \<le> xs ! lo" "xs ! lo \<le> xs ! hi" "xs ! hi \<le> xs ! (length xs - 1)"
    using assms(1,2) by (auto intro!: sorted_nth_mono)
  have "xs ! lo \<le> xs ! lo + (xs ! hi - xs ! lo) * t" "xs ! lo + (xs ! hi - xs ! lo) * t \<le> xs ! hi"
    using t o(2) mult_right_le_one_le [of "xs ! hi - xs ! lo" t] by auto
  moreover have "bench_percentile xs f = xs ! lo + (xs ! hi - xs ! lo) * t"
    using assms(2) by (simp add: bench_percentile_def Let_def q_def lo_def hi_def t_def)
  ultimately show ?thesis using o assms(2) by (simp add: hd_conv_nth last_conv_nth)
qed

lemma steady_not_empty: "xs \<noteq> [] \<Longrightarrow> drop (steady_start fps xs) xs \<noteq> []"
  by (cases xs) (auto simp: steady_start_def)

end
