(* ===== verification/X264_Threads.thy ===== *)
theory X264_Threads
  imports X264_Options Step_System
begin

text \<open>
  The run of the x264 benchmark, \<^verbatim>\<open>main\<close> of \<^verbatim>\<open>src/probes/video/plank-benchmark-x264.cpp\<close>: the three
  input slots filled by the reader thread while the main thread encodes, as a step relation, and the
  same run with the frames preloaded, as a function.

  A step of a thread is a critical section of \<^verbatim>\<open>input_mutex\<close> (a wait on the condition variable is
  enabled when its predicate holds), one reply of the \<^verbatim>\<open>read\<close> system call, which stores its bytes in
  the slot at once, or one call of the encoder on the slot. A slot is read and written outside the
  lock; that this is safe is a theorem, not part of the model.

  The encoder is the function \<^verbatim>\<open>bn_encode\<close>: from its state, the time stamp and the bytes of the frame
  it gives the new state, the number of bytes returned, the time stamp of the output picture and the
  time the call took.
\<close>

definition kInputSlots :: nat where
  "kInputSlots = 3"

record 'e bench_run =
  bn_frames :: nat
  bn_bytes :: nat
  bn_encode :: "'e \<Rightarrow> nat \<Rightarrow> bytes \<Rightarrow> 'e \<times> int \<times> int \<times> rat"
  bn_encoder :: 'e
  bn_replies :: "read_reply list"
  bn_input :: bytes

section \<open>One encoded frame\<close>

record 'e bench_counts =
  bc_encoder :: 'e
  bc_output_bytes :: u64
  bc_output_frames :: u32
  bc_delayed_calls :: u32
  bc_encode_us :: "rat list"

definition bench_counts_start :: "'e bench_run \<Rightarrow> 'e bench_counts" where
  "bench_counts_start c = \<lparr>bc_encoder = bn_encoder c, bc_output_bytes = 0, bc_output_frames = 0,
     bc_delayed_calls = 0, bc_encode_us = []\<rparr>"

definition encode_frame :: "'e bench_run \<Rightarrow> nat \<Rightarrow> bytes \<Rightarrow> 'e bench_counts \<Rightarrow> x264_error + 'e bench_counts" where
  "encode_frame c index frame_data counts =
     (case bn_encode c (bc_encoder counts) index frame_data of (e, bytes, pts, us) \<Rightarrow>
        if bytes < 0 then Inl (Encode_Failed index)
        else
          let counts' = counts\<lparr>bc_encoder := e, bc_encode_us := bc_encode_us counts @ [us],
                bc_output_bytes := bc_output_bytes counts + of_int bytes\<rparr> in
          if bytes = 0 then Inr (counts'\<lparr>bc_delayed_calls := bc_delayed_calls counts + 1\<rparr>)
          else if pts \<noteq> int index then Inl Reordered
          else Inr (counts'\<lparr>bc_output_frames := bc_output_frames counts + 1\<rparr>))"

primrec encode_frames :: "'e bench_run \<Rightarrow> (nat \<Rightarrow> bytes) \<Rightarrow> nat \<Rightarrow> x264_error + 'e bench_counts" where
  "encode_frames c frame_data 0 = Inr (bench_counts_start c)"
| "encode_frames c frame_data (Suc index) = (case encode_frames c frame_data index of
     Inl e \<Rightarrow> Inl e
   | Inr counts \<Rightarrow> encode_frame c index (frame_data index) counts)"

section \<open>The preloaded run\<close>

text \<open>\<^verbatim>\<open>preload_frames frame_bytes k index rs stream\<close> reads \<^verbatim>\<open>k\<close> frames from \<^verbatim>\<open>index\<close> on.\<close>

fun preload_frames :: "nat \<Rightarrow> nat \<Rightarrow> nat \<Rightarrow> read_reply list \<Rightarrow> bytes \<Rightarrow> (x264_error + bytes) option" where
  "preload_frames frame_bytes 0 index rs stream = Some (Inr [])"
| "preload_frames frame_bytes (Suc k) index rs stream = (case read_exact index rs frame_bytes stream of
     (None, _, _) \<Rightarrow> None
   | (Some (Inl e), _, _) \<Rightarrow> Some (Inl e)
   | (Some (Inr got), rs', stream') \<Rightarrow>
       map_option (map_sum id (\<lambda>rest. got @ rest)) (preload_frames frame_bytes k (Suc index) rs' stream'))"

definition run_preloaded :: "'e bench_run \<Rightarrow> (x264_error + 'e bench_counts) option" where
  "run_preloaded c = (case preload_frames (bn_bytes c) (bn_frames c) 0 (bn_replies c) (bn_input c) of
     None \<Rightarrow> None
   | Some (Inl e) \<Rightarrow> Some (Inl e)
   | Some (Inr preloaded) \<Rightarrow>
       Some (encode_frames c (\<lambda>index. take (bn_bytes c) (drop (bn_bytes c * index) preloaded)) (bn_frames c)))"

section \<open>The threads\<close>

datatype bench_reader_pc = RT_Wait nat | RT_Read nat nat | RT_Mark nat | RT_Fail nat x264_error | RT_Done nat

datatype bench_main_pc = MT_Wait nat | MT_Encode nat | MT_Release nat | MT_Unwind x264_error
  | MT_Rejoin x264_error | MT_Failed x264_error | MT_Join | MT_Joined

record 'e bench_state =
  bs_slots :: "bytes list"
  bs_ready :: "bool list"
  bs_stop :: bool
  bs_error :: "x264_error option"
  bs_replies :: "read_reply list"
  bs_input :: bytes
  bs_reader :: bench_reader_pc
  bs_main :: bench_main_pc
  bs_counts :: "'e bench_counts"

text \<open>The loop of \<^verbatim>\<open>read_exact\<close> ends when the slot is full.\<close>

definition slot_reading :: "'e bench_run \<Rightarrow> nat \<Rightarrow> nat \<Rightarrow> bench_reader_pc" where
  "slot_reading c index offset = (if offset < bn_bytes c then RT_Read index offset else RT_Mark index)"

definition reader_loop :: "'e bench_run \<Rightarrow> nat \<Rightarrow> bench_reader_pc" where
  "reader_loop c index = (if index < bn_frames c then RT_Wait index else RT_Done index)"

definition main_loop :: "'e bench_run \<Rightarrow> nat \<Rightarrow> bench_main_pc" where
  "main_loop c index = (if index < bn_frames c then MT_Wait index else MT_Join)"

definition bench_start :: "'e bench_run \<Rightarrow> 'e bench_state" where
  "bench_start c = \<lparr>bs_slots = replicate kInputSlots (replicate (bn_bytes c) 0),
     bs_ready = replicate kInputSlots False, bs_stop = False, bs_error = None,
     bs_replies = bn_replies c, bs_input = bn_input c, bs_reader = reader_loop c 0,
     bs_main = main_loop c 0, bs_counts = bench_counts_start c\<rparr>"

definition read_step :: "'e bench_run \<Rightarrow> nat \<Rightarrow> nat \<Rightarrow> read_reply \<Rightarrow> 'e bench_state \<Rightarrow> 'e bench_state" where
  "read_step c index offset reply s = (case reply of
     Interrupted \<Rightarrow> s
   | Read_Error errno \<Rightarrow> s\<lparr>bs_reader := RT_Fail index (Short_Input index (Some errno))\<rparr>
   | Received k \<Rightarrow>
       let m = min k (min (bn_bytes c - offset) (length (bs_input s))); slot = index mod kInputSlots in
       if m = 0 then s\<lparr>bs_reader := RT_Fail index (Short_Input index None)\<rparr>
       else s\<lparr>bs_slots := (bs_slots s)[slot := put (bs_slots s ! slot) offset (take m (bs_input s))],
           bs_input := drop m (bs_input s), bs_reader := slot_reading c index (offset + m)\<rparr>)"

definition bench_reader_step :: "'e bench_run \<Rightarrow> 'e bench_state \<Rightarrow> 'e bench_state option" where
  "bench_reader_step c s = (case bs_reader s of
     RT_Wait index \<Rightarrow>
       if bs_stop s then Some (s\<lparr>bs_reader := RT_Done index\<rparr>)
       else if bs_ready s ! (index mod kInputSlots) then None
       else Some (s\<lparr>bs_reader := slot_reading c index 0\<rparr>)
   | RT_Read index offset \<Rightarrow> (case bs_replies s of
       [] \<Rightarrow> None
     | reply # rest \<Rightarrow> Some (read_step c index offset reply (s\<lparr>bs_replies := rest\<rparr>)))
   | RT_Mark index \<Rightarrow>
       Some (s\<lparr>bs_ready := (bs_ready s)[index mod kInputSlots := True],
         bs_reader := reader_loop c (Suc index)\<rparr>)
   | RT_Fail index e \<Rightarrow> Some (s\<lparr>bs_error := Some e, bs_reader := RT_Done index\<rparr>)
   | RT_Done index \<Rightarrow> None)"

fun reader_done :: "bench_reader_pc \<Rightarrow> bool" where
  "reader_done (RT_Done index) = True"
| "reader_done _ = False"

definition bench_main_step :: "'e bench_run \<Rightarrow> 'e bench_state \<Rightarrow> 'e bench_state option" where
  "bench_main_step c s = (case bs_main s of
     MT_Wait index \<Rightarrow>
       (case bs_error s of
          Some e \<Rightarrow> Some (s\<lparr>bs_main := MT_Unwind e\<rparr>)
        | None \<Rightarrow> if bs_ready s ! (index mod kInputSlots) then Some (s\<lparr>bs_main := MT_Encode index\<rparr>) else None)
   | MT_Encode index \<Rightarrow>
       (case encode_frame c index (bs_slots s ! (index mod kInputSlots)) (bs_counts s) of
          Inl e \<Rightarrow> Some (s\<lparr>bs_main := MT_Unwind e\<rparr>)
        | Inr counts \<Rightarrow> Some (s\<lparr>bs_counts := counts, bs_main := MT_Release index\<rparr>))
   | MT_Release index \<Rightarrow>
       Some (s\<lparr>bs_ready := (bs_ready s)[index mod kInputSlots := False], bs_main := main_loop c (Suc index)\<rparr>)
   | MT_Unwind e \<Rightarrow> Some (s\<lparr>bs_stop := True, bs_main := MT_Rejoin e\<rparr>)
   | MT_Rejoin e \<Rightarrow> if reader_done (bs_reader s) then Some (s\<lparr>bs_main := MT_Failed e\<rparr>) else None
   | MT_Join \<Rightarrow> if reader_done (bs_reader s) then Some (s\<lparr>bs_main := MT_Joined\<rparr>) else None
   | MT_Failed e \<Rightarrow> None
   | MT_Joined \<Rightarrow> None)"

inductive bench_step :: "'e bench_run \<Rightarrow> 'e bench_state \<Rightarrow> 'e bench_state \<Rightarrow> bool" for c where
  reader: "bench_reader_step c s = Some t \<Longrightarrow> bench_step c s t"
| main: "bench_main_step c s = Some t \<Longrightarrow> bench_step c s t"

inductive_cases bench_stepE: "bench_step c s t"

text \<open>What the run of the main thread comes to, once it has joined the reader.\<close>

definition bench_result :: "'e bench_state \<Rightarrow> (x264_error + 'e bench_counts) option" where
  "bench_result s = (case bs_main s of
     MT_Failed e \<Rightarrow> Some (Inl e) | MT_Joined \<Rightarrow> Some (Inr (bs_counts s)) | _ \<Rightarrow> None)"

end
