(* ===== verification/X264_Proofs.thy ===== *)
theory X264_Proofs
  imports X264_Threads
begin

text \<open>
  What the threads of the x264 benchmark guarantee under every interleaving: the encoder sees each
  frame of the input once, in order and complete; no schedule runs forever, and threads that cannot
  move have finished or wait for input; a finished run comes to what the preloaded run comes to.
\<close>

declare encode_frames.simps(2) [simp del]

lemma kInputSlots_pos [simp]: "0 < kInputSlots"
  by (simp add: kInputSlots_def)

lemma slot_bound [simp]: "index mod kInputSlots < kInputSlots"
  by simp

text \<open>Results mapped inside a sum.\<close>

lemma map_result_iff [simp]:
  "map_sum id f x = Inr y \<longleftrightarrow> (\<exists>z. x = Inr z \<and> y = f z)"
  "map_sum id f x = Inl e \<longleftrightarrow> x = Inl e"
  by (cases x; auto)+

section \<open>The frames and the outcome of the reader\<close>

definition frame_of :: "'e bench_run \<Rightarrow> nat \<Rightarrow> bytes" where
  "frame_of c index = take (bn_bytes c) (drop (bn_bytes c * index) (bn_input c))"

definition outcome :: "(x264_error + bytes) option \<Rightarrow> (x264_error + unit) option" where
  "outcome = map_option (map_sum id (\<lambda>_. ()))"

text \<open>How reading ends when the frames from \<^verbatim>\<open>index\<close> on, or the last \<^verbatim>\<open>n\<close> bytes of that frame first, are
  still to be read.\<close>

definition rest_outcome :: "'e bench_run \<Rightarrow> nat \<Rightarrow> read_reply list \<Rightarrow> bytes \<Rightarrow> (x264_error + unit) option" where
  "rest_outcome c index rs stream = outcome (preload_frames (bn_bytes c) (bn_frames c - index) index rs stream)"

definition partial_outcome ::
  "'e bench_run \<Rightarrow> nat \<Rightarrow> nat \<Rightarrow> read_reply list \<Rightarrow> bytes \<Rightarrow> (x264_error + unit) option" where
  "partial_outcome c index n rs stream = (case read_exact index rs n stream of
     (None, _, _) \<Rightarrow> None
   | (Some (Inl e), _, _) \<Rightarrow> Some (Inl e)
   | (Some (Inr got), rs', stream') \<Rightarrow> rest_outcome c (Suc index) rs' stream')"

lemma rest_outcome_end: "bn_frames c \<le> index \<Longrightarrow> rest_outcome c index rs stream = Some (Inr ())"
  by (simp add: rest_outcome_def outcome_def)

lemma rest_outcome_next:
  "index < bn_frames c \<Longrightarrow> rest_outcome c index rs stream = partial_outcome c index (bn_bytes c) rs stream"
  by (cases "bn_frames c - index")
    (auto simp: rest_outcome_def partial_outcome_def outcome_def option.map_comp sum.map_comp o_def id_def
      Suc_diff_Suc diff_Suc split: prod.split option.split sum.split nat.split_asm)

lemma partial_outcome_simps:
  "partial_outcome c index 0 rs stream = rest_outcome c (Suc index) rs stream"
  "0 < n \<Longrightarrow> partial_outcome c index n (Interrupted # rs) stream = partial_outcome c index n rs stream"
  "0 < n \<Longrightarrow> partial_outcome c index n (Read_Error errno # rs) stream =
     Some (Inl (Short_Input index (Some errno)))"
  "0 < n \<Longrightarrow> min k (min n (length stream)) = 0 \<Longrightarrow> partial_outcome c index n (Received k # rs) stream =
     Some (Inl (Short_Input index None))"
  by (cases n; simp add: partial_outcome_def Let_def)+

lemma partial_outcome_received:
  assumes "m = min k (min n (length stream))" "m \<noteq> 0"
  shows "partial_outcome c index n (Received k # rs) stream = partial_outcome c index (n - m) rs (drop m stream)"
proof -
  obtain n' where n: "n = Suc n'" using assms by (cases n) auto
  obtain r q s where w: "read_exact index rs (Suc n' - m) (drop m stream) = (r, q, s)"
    by (cases "read_exact index rs (Suc n' - m) (drop m stream)")
  have "read_exact index (Received k # rs) (Suc n') stream =
      (map_option (map_sum id (\<lambda>got. take m stream @ got)) r, q, s)"
    unfolding read_exact.simps Let_def assms(1) [unfolded n, symmetric] using assms(2) w by simp
  then show ?thesis using w
    by (cases r; cases "the r") (simp_all add: n partial_outcome_def)
qed

section \<open>The slots\<close>

text \<open>The slots hold the frames that the reader has marked and the main thread has not released.\<close>

definition slots_hold :: "'e bench_run \<Rightarrow> nat \<Rightarrow> nat \<Rightarrow> bytes list \<Rightarrow> bool list \<Rightarrow> bool" where
  "slots_hold c m r slots ready \<longleftrightarrow> m \<le> r \<and> r \<le> m + kInputSlots \<and>
     (\<forall>j. m \<le> j \<and> j < r \<longrightarrow> slots ! (j mod kInputSlots) = frame_of c j) \<and>
     (\<forall>k < kInputSlots. ready ! k \<longleftrightarrow> (\<exists>j. m \<le> j \<and> j < r \<and> j mod kInputSlots = k))"

lemma slots_hold_start: "slots_hold c 0 0 slots (replicate kInputSlots False)"
  by (simp add: slots_hold_def)

lemma slots_hold_ready: "slots_hold c m r slots ready \<Longrightarrow> ready ! (m mod kInputSlots) \<longleftrightarrow> m < r"
proof -
  assume h: "slots_hold c m r slots ready"
  have "ready ! (m mod kInputSlots) \<longleftrightarrow> (\<exists>j. m \<le> j \<and> j < r \<and> j mod kInputSlots = m mod kInputSlots)"
    using h by (simp add: slots_hold_def)
  then show ?thesis using le_less_trans by blast
qed

lemma slots_hold_free:
  assumes "slots_hold c m r slots ready" "\<not> ready ! (r mod kInputSlots)" "m \<le> j" "j < r"
  shows "j mod kInputSlots \<noteq> r mod kInputSlots" "r < m + kInputSlots"
proof -
  have free: "j mod kInputSlots \<noteq> r mod kInputSlots" if "m \<le> j" "j < r" for j
    using assms(1,2) that by (auto simp: slots_hold_def)
  then show "j mod kInputSlots \<noteq> r mod kInputSlots" using assms(3,4) by blast
  have "r \<noteq> m + kInputSlots" using free [of m] by auto
  then show "r < m + kInputSlots" using assms(1) by (simp add: slots_hold_def)
qed

lemma slots_hold_write:
  assumes "slots_hold c m r slots ready" "\<not> ready ! (r mod kInputSlots)"
  shows "slots_hold c m r (slots[r mod kInputSlots := x]) ready"
  using assms(1) slots_hold_free(1) [OF assms] unfolding slots_hold_def by (metis nth_list_update_neq)

lemma slots_hold_mark:
  assumes h: "slots_hold c m r slots ready" and free: "\<not> ready ! (r mod kInputSlots)"
    and "slots ! (r mod kInputSlots) = frame_of c r" "length ready = kInputSlots"
  shows "slots_hold c m (Suc r) slots (ready[r mod kInputSlots := True])"
proof -
  have "r < m + kInputSlots"
    using h slots_hold_free(2) [OF h free, of m] by (cases "m < r") (auto simp: slots_hold_def)
  then show ?thesis
    using h assms(3,4) unfolding slots_hold_def by (auto simp: nth_list_update less_Suc_eq)
qed

lemma slots_hold_release:
  assumes h: "slots_hold c m r slots ready" and "m < r" "length ready = kInputSlots"
  shows "slots_hold c (Suc m) r slots (ready[m mod kInputSlots := False])"
proof -
  have other: "j mod kInputSlots \<noteq> m mod kInputSlots" if "Suc m \<le> j" "j < r" for j
  proof -
    have "r \<le> m + kInputSlots" using h by (simp add: slots_hold_def)
    then show ?thesis using that unfolding kInputSlots_def by presburger
  qed
  have "(\<exists>j. Suc m \<le> j \<and> j < r \<and> j mod kInputSlots = k) \<longleftrightarrow>
      k \<noteq> m mod kInputSlots \<and> (\<exists>j. m \<le> j \<and> j < r \<and> j mod kInputSlots = k)" for k
    using other by (metis Suc_leI le_eq_less_or_eq Suc_leD)
  then show ?thesis
    using h assms(2,3) unfolding slots_hold_def by (auto simp: nth_list_update)
qed

section \<open>The invariant\<close>

fun reader_index :: "bench_reader_pc \<Rightarrow> nat" where
  "reader_index (RT_Wait index) = index"
| "reader_index (RT_Read index offset) = index"
| "reader_index (RT_Mark index) = index"
| "reader_index (RT_Fail index e) = index"
| "reader_index (RT_Done index) = index"

definition input_at :: "'e bench_run \<Rightarrow> nat \<Rightarrow> bytes \<Rightarrow> bool" where
  "input_at c p input \<longleftrightarrow> p \<le> length (bn_input c) \<and> input = drop p (bn_input c)"

definition whole_outcome :: "'e bench_run \<Rightarrow> (x264_error + unit) option" where
  "whole_outcome c = rest_outcome c 0 (bn_replies c) (bn_input c)"

definition shape_inv :: "'e bench_run \<Rightarrow> 'e bench_state \<Rightarrow> bool" where
  "shape_inv c s \<longleftrightarrow> length (bs_slots s) = kInputSlots \<and> length (bs_ready s) = kInputSlots \<and>
     (\<forall>k < kInputSlots. length (bs_slots s ! k) = bn_bytes c) \<and>
     (bs_stop s \<longleftrightarrow> (case bs_main s of MT_Rejoin e \<Rightarrow> True | MT_Failed e \<Rightarrow> True | _ \<Rightarrow> False))"

definition bench_reader_inv :: "'e bench_run \<Rightarrow> 'e bench_state \<Rightarrow> bool" where
  "bench_reader_inv c s \<longleftrightarrow> (case bs_reader s of
     RT_Wait i \<Rightarrow> i < bn_frames c \<and> bs_error s = None \<and> input_at c (bn_bytes c * i) (bs_input s) \<and>
       whole_outcome c = rest_outcome c i (bs_replies s) (bs_input s)
   | RT_Read i p \<Rightarrow> i < bn_frames c \<and> bs_error s = None \<and> p < bn_bytes c \<and>
       input_at c (bn_bytes c * i + p) (bs_input s) \<and> \<not> bs_ready s ! (i mod kInputSlots) \<and>
       take p (bs_slots s ! (i mod kInputSlots)) = take p (frame_of c i) \<and>
       whole_outcome c = partial_outcome c i (bn_bytes c - p) (bs_replies s) (bs_input s)
   | RT_Mark i \<Rightarrow> i < bn_frames c \<and> bs_error s = None \<and>
       input_at c (bn_bytes c * Suc i) (bs_input s) \<and> \<not> bs_ready s ! (i mod kInputSlots) \<and>
       bs_slots s ! (i mod kInputSlots) = frame_of c i \<and>
       whole_outcome c = rest_outcome c (Suc i) (bs_replies s) (bs_input s)
   | RT_Fail i e \<Rightarrow> i < bn_frames c \<and> bs_error s = None \<and> whole_outcome c = Some (Inl e)
   | RT_Done i \<Rightarrow> (case bs_error s of
       Some e \<Rightarrow> i < bn_frames c \<and> whole_outcome c = Some (Inl e)
     | None \<Rightarrow> (bs_stop s \<and> i < bn_frames c) \<or> (i = bn_frames c \<and> whole_outcome c = Some (Inr ()))))"

definition bench_main_inv :: "'e bench_run \<Rightarrow> 'e bench_state \<Rightarrow> bool" where
  "bench_main_inv c s \<longleftrightarrow>
     (let r = reader_index (bs_reader s);
          held = (\<lambda>m. slots_hold c m r (bs_slots s) (bs_ready s));
          encoded = (\<lambda>m. encode_frames c (frame_of c) m = Inr (bs_counts s));
          failed = (\<lambda>e. bs_error s = Some e \<or>
            (\<exists>i < bn_frames c. encode_frames c (frame_of c) (Suc i) = Inl e))
      in case bs_main s of
        MT_Wait i \<Rightarrow> i < bn_frames c \<and> held i \<and> encoded i
      | MT_Encode i \<Rightarrow> i < bn_frames c \<and> i < r \<and> held i \<and> encoded i
      | MT_Release i \<Rightarrow> i < bn_frames c \<and> i < r \<and> held i \<and> encoded (Suc i)
      | MT_Unwind e \<Rightarrow> failed e
      | MT_Rejoin e \<Rightarrow> failed e
      | MT_Failed e \<Rightarrow> failed e
      | MT_Join \<Rightarrow> bn_frames c \<le> r \<and> encoded (bn_frames c)
      | MT_Joined \<Rightarrow> bn_frames c \<le> r \<and> encoded (bn_frames c) \<and> reader_done (bs_reader s))"

definition bench_inv :: "'e bench_run \<Rightarrow> 'e bench_state \<Rightarrow> bool" where
  "bench_inv c s \<longleftrightarrow> shape_inv c s \<and> bench_reader_inv c s \<and> bench_main_inv c s"

lemmas inv_defs = bench_inv_def shape_inv_def bench_reader_inv_def bench_main_inv_def Let_def

lemma bench_inv_start: "bench_inv c (bench_start c)"
  by (auto simp: inv_defs bench_start_def reader_loop_def main_loop_def slots_hold_start input_at_def
      whole_outcome_def rest_outcome_end)

section \<open>The reader keeps the invariant\<close>

text \<open>What the main thread relies on is kept when the reader only moves its control point.\<close>

lemma main_inv_move:
  assumes "bench_main_inv c s" "reader_index p = reader_index (bs_reader s)" "\<not> reader_done (bs_reader s)"
  shows "bench_main_inv c (s\<lparr>bs_reader := p\<rparr>)"
  using assms by (cases "bs_main s") (simp_all add: bench_main_inv_def Let_def)

lemma main_inv_other:
  "bench_main_inv c (s\<lparr>bs_replies := rs\<rparr>) = bench_main_inv c s" "bench_main_inv c (s\<lparr>bs_input := st\<rparr>) = bench_main_inv c s"
  by (cases "bs_main s"; simp add: bench_main_inv_def Let_def)+

lemma main_inv_write:
  assumes "bench_main_inv c s" "\<not> bs_ready s ! (reader_index (bs_reader s) mod kInputSlots)"
  shows "bench_main_inv c (s\<lparr>bs_slots := (bs_slots s)[reader_index (bs_reader s) mod kInputSlots := x]\<rparr>)"
  using assms
  by (cases "bs_main s") (simp_all add: bench_main_inv_def Let_def slots_hold_write)

lemma main_inv_mark:
  assumes "bench_main_inv c s" "\<not> bs_ready s ! (r mod kInputSlots)" "reader_index (bs_reader s) = r"
    "bs_slots s ! (r mod kInputSlots) = frame_of c r" "length (bs_ready s) = kInputSlots"
    "reader_index p = Suc r" "\<not> reader_done (bs_reader s)"
  shows "bench_main_inv c (s\<lparr>bs_ready := (bs_ready s)[r mod kInputSlots := True], bs_reader := p\<rparr>)"
proof (cases "bs_main s")
  case (MT_Wait m)
  then have "slots_hold c m r (bs_slots s) (bs_ready s)" using assms(1,3) by (simp add: bench_main_inv_def Let_def)
  note slots_hold_mark [OF this assms(2,4,5)]
  then show ?thesis using MT_Wait assms(1,3,6) by (simp add: bench_main_inv_def Let_def)
next
  case (MT_Encode m)
  then have "slots_hold c m r (bs_slots s) (bs_ready s)" using assms(1,3) by (simp add: bench_main_inv_def Let_def)
  note slots_hold_mark [OF this assms(2,4,5)]
  then show ?thesis using MT_Encode assms(1,3,6) by (simp add: bench_main_inv_def Let_def)
next
  case (MT_Release m)
  then have "slots_hold c m r (bs_slots s) (bs_ready s)" using assms(1,3) by (simp add: bench_main_inv_def Let_def)
  note slots_hold_mark [OF this assms(2,4,5)]
  then show ?thesis using MT_Release assms(1,3,6) by (simp add: bench_main_inv_def Let_def)
qed (use assms(1,3,6,7) in \<open>simp_all add: bench_main_inv_def Let_def\<close>)

lemma reader_inv_main:
  "bench_reader_inv c (s\<lparr>bs_main := p\<rparr>) = bench_reader_inv c s" "bench_reader_inv c (s\<lparr>bs_counts := x\<rparr>) = bench_reader_inv c s"
  by (cases s; simp only: bench_reader_inv_def bench_state.simps)+

lemma reading_start:
  assumes "bench_reader_inv c s" "bs_reader s = RT_Wait i" "\<not> bs_ready s ! (i mod kInputSlots)"
    "length (bs_slots s ! (i mod kInputSlots)) = bn_bytes c"
  shows "bench_reader_inv c (s\<lparr>bs_reader := slot_reading c i 0\<rparr>)"
proof -
  have r: "i < bn_frames c" "bs_error s = None" "input_at c (bn_bytes c * i) (bs_input s)"
    "whole_outcome c = rest_outcome c i (bs_replies s) (bs_input s)"
    using assms(1,2) by (simp_all add: bench_reader_inv_def)
  have w: "whole_outcome c = partial_outcome c i (bn_bytes c) (bs_replies s) (bs_input s)"
    using r(1,4) rest_outcome_next by metis
  show ?thesis
  proof (cases "bn_bytes c = 0")
    case True
    then have "whole_outcome c = rest_outcome c (Suc i) (bs_replies s) (bs_input s)"
      using w by (simp add: partial_outcome_simps(1))
    then show ?thesis using True r(1-3) assms(3,4) by (simp add: bench_reader_inv_def slot_reading_def frame_of_def)
  next
    case False
    then show ?thesis using w r(1-3) assms(3,4) by (simp add: bench_reader_inv_def slot_reading_def)
  qed
qed

lemma frame_of_drop:
  assumes "m \<le> bn_bytes c - p" "p \<le> bn_bytes c"
  shows "take m (drop p (frame_of c i)) = take m (drop (bn_bytes c * i + p) (bn_input c))"
  using assms by (simp add: frame_of_def drop_take add.commute min_def)

lemma reading_more:
  assumes inv: "shape_inv c s" "bench_reader_inv c s" "bs_reader s = RT_Read i p" "bs_replies s = Received k # rs"
    and m: "m = min k (min (bn_bytes c - p) (length (bs_input s)))" "m \<noteq> 0"
  shows "bench_reader_inv c (s\<lparr>bs_replies := rs,
    bs_slots := (bs_slots s)[i mod kInputSlots := put (bs_slots s ! (i mod kInputSlots)) p (take m (bs_input s))],
    bs_input := drop m (bs_input s), bs_reader := slot_reading c i (p + m)\<rparr>)"
proof -
  let ?slot = "bs_slots s ! (i mod kInputSlots)"
  have r: "i < bn_frames c" "bs_error s = None" "p < bn_bytes c" "\<not> bs_ready s ! (i mod kInputSlots)"
    "bn_bytes c * i + p \<le> length (bn_input c)" "bs_input s = drop (bn_bytes c * i + p) (bn_input c)"
    "take p ?slot = take p (frame_of c i)"
    "whole_outcome c = partial_outcome c i (bn_bytes c - p) (Received k # rs) (bs_input s)"
    using inv(2-4) by (simp_all add: bench_reader_inv_def input_at_def)
  have len: "length (bs_slots s) = kInputSlots" "length ?slot = bn_bytes c"
    using inv(1) by (simp_all add: shape_inv_def)
  have le: "m \<le> bn_bytes c - p" "m \<le> length (bs_input s)" using m(1) by simp_all
  have out: "whole_outcome c = partial_outcome c i (bn_bytes c - (p + m)) rs (drop m (bs_input s))"
    using r(8) partial_outcome_received [OF m] by simp
  have at: "input_at c (bn_bytes c * i + (p + m)) (drop m (bs_input s))"
    using r(5,6) le(2) by (simp add: input_at_def ac_simps)
  have "take m (bs_input s) = take m (drop p (frame_of c i))"
    using frame_of_drop [of m c p i] le(1) r(3,6) by simp
  moreover have "length (take (p + m) (frame_of c i)) = p + m"
    using r(3,5,6) le by (auto simp: frame_of_def min_def)
  ultimately have pre: "take (p + m) (put ?slot p (take m (bs_input s))) = take (p + m) (frame_of c i)"
    using r(7) le r(3) len(2)
    by (simp add: put_def take_add min_def)
  show ?thesis
  proof (cases "p + m < bn_bytes c")
    case True
    then show ?thesis using r(1,2,4) len at out pre by (simp add: bench_reader_inv_def slot_reading_def)
  next
    case False
    then have e: "p + m = bn_bytes c" using le(1) r(3) by simp
    then have "put ?slot p (take m (bs_input s)) = frame_of c i"
      using pre len(2) le r(3) by (simp add: frame_of_def)
    moreover have "whole_outcome c = rest_outcome c (Suc i) rs (drop m (bs_input s))"
      using out e by (simp add: partial_outcome_simps)
    ultimately show ?thesis using e r(1,2,4) len at by (simp add: bench_reader_inv_def slot_reading_def add.commute)
  qed
qed

lemma bench_reading_simps [simp]:
  "reader_index (slot_reading c i p) = i" "\<not> reader_done (slot_reading c i p)"
  "reader_index (reader_loop c i) = i"
  by (simp_all add: slot_reading_def reader_loop_def)

lemma shape_inv_keep:
  assumes "shape_inv c s"
  shows "shape_inv c (s\<lparr>bs_reader := p\<rparr>)" "shape_inv c (s\<lparr>bs_replies := rs\<rparr>)"
    "shape_inv c (s\<lparr>bs_input := st\<rparr>)" "shape_inv c (s\<lparr>bs_error := e\<rparr>)" "shape_inv c (s\<lparr>bs_counts := x\<rparr>)"
    "shape_inv c (s\<lparr>bs_ready := (bs_ready s)[i := b]\<rparr>)"
  using assms by (cases s; simp only: shape_inv_def bench_state.simps length_list_update)+

lemma shape_inv_slot:
  assumes "shape_inv c s" "length buf = bn_bytes c"
  shows "shape_inv c (s\<lparr>bs_slots := (bs_slots s)[i := buf]\<rparr>)"
proof -
  have "length ((bs_slots s)[i := buf] ! k) = bn_bytes c" if "k < kInputSlots" for k
    using assms that by (cases "i = k") (simp_all add: shape_inv_def)
  then show ?thesis using assms(1) by (cases s) (simp add: shape_inv_def)
qed

lemma reader_wait_inv:
  assumes "bench_inv c s" "bs_reader s = RT_Wait i" "bench_reader_step c s = Some t"
  shows "bench_inv c t"
proof (cases "bs_stop s")
  case True
  then have t: "t = s\<lparr>bs_reader := RT_Done i\<rparr>" using assms(2,3) by (simp add: bench_reader_step_def)
  have "bench_reader_inv c t" using assms(1,2) True by (simp add: t bench_inv_def bench_reader_inv_def)
  moreover have "bench_main_inv c t" unfolding t using assms(1,2) by (intro main_inv_move) (simp_all add: bench_inv_def)
  ultimately show ?thesis using assms(1) by (simp add: bench_inv_def t shape_inv_keep)
next
  case False
  then have t: "t = s\<lparr>bs_reader := slot_reading c i 0\<rparr>" and free: "\<not> bs_ready s ! (i mod kInputSlots)"
    using assms(2,3) by (simp_all add: bench_reader_step_def split: if_split_asm)
  have "length (bs_slots s ! (i mod kInputSlots)) = bn_bytes c"
    using assms(1) by (simp add: bench_inv_def shape_inv_def)
  then have "bench_reader_inv c t" unfolding t using assms(1,2) free by (intro reading_start) (simp_all add: bench_inv_def)
  moreover have "bench_main_inv c t" unfolding t using assms(1,2) by (intro main_inv_move) (simp_all add: bench_inv_def)
  ultimately show ?thesis using assms(1) by (simp add: bench_inv_def t shape_inv_keep)
qed

lemma read_fails_inv:
  assumes "bench_inv c s" "bs_reader s = RT_Read i p" "whole_outcome c = Some (Inl e)"
  shows "bench_inv c (s\<lparr>bs_replies := rs, bs_reader := RT_Fail i e\<rparr>)"
proof -
  have "bench_main_inv c (s\<lparr>bs_replies := rs\<rparr>)" using assms(1) by (simp add: bench_inv_def main_inv_other)
  then have "bench_main_inv c (s\<lparr>bs_replies := rs, bs_reader := RT_Fail i e\<rparr>)"
    using assms(2) by (intro main_inv_move) simp_all
  moreover have "bench_reader_inv c (s\<lparr>bs_replies := rs, bs_reader := RT_Fail i e\<rparr>)"
    using assms by (simp add: bench_inv_def bench_reader_inv_def)
  ultimately show ?thesis using assms(1) by (simp add: bench_inv_def shape_inv_keep)
qed

lemma read_stores_inv:
  assumes inv: "bench_inv c s" "bs_reader s = RT_Read i p" "bs_replies s = Received k # rs"
    and m: "m = min k (min (bn_bytes c - p) (length (bs_input s)))" "m \<noteq> 0"
  shows "bench_inv c (s\<lparr>bs_replies := rs,
    bs_slots := (bs_slots s)[i mod kInputSlots := put (bs_slots s ! (i mod kInputSlots)) p (take m (bs_input s))],
    bs_input := drop m (bs_input s), bs_reader := slot_reading c i (p + m)\<rparr>)"
proof -
  let ?buf = "put (bs_slots s ! (i mod kInputSlots)) p (take m (bs_input s))"
  have sh: "shape_inv c s" and ri: "bench_reader_inv c s" and mi: "bench_main_inv c s"
    using inv(1) by (simp_all add: bench_inv_def)
  have free: "\<not> bs_ready s ! (i mod kInputSlots)" "p < bn_bytes c" using ri inv(2) by (simp_all add: bench_reader_inv_def)
  have "length (bs_slots s ! (i mod kInputSlots)) = bn_bytes c" using sh by (simp add: shape_inv_def)
  then have len: "length ?buf = bn_bytes c" using m free(2) by simp
  have "bench_main_inv c (s\<lparr>bs_replies := rs\<rparr>)" using mi by (simp only: main_inv_other)
  then have "bench_main_inv c (s\<lparr>bs_replies := rs, bs_slots := (bs_slots s)[i mod kInputSlots := ?buf]\<rparr>)"
    using main_inv_write [of c "s\<lparr>bs_replies := rs\<rparr>" ?buf] free(1) inv(2) by simp
  then have "bench_main_inv c (s\<lparr>bs_replies := rs, bs_slots := (bs_slots s)[i mod kInputSlots := ?buf],
      bs_input := drop m (bs_input s)\<rparr>)" by (simp only: main_inv_other)
  then have "bench_main_inv c (s\<lparr>bs_replies := rs, bs_slots := (bs_slots s)[i mod kInputSlots := ?buf],
      bs_input := drop m (bs_input s), bs_reader := slot_reading c i (p + m)\<rparr>)"
    using inv(2) by (intro main_inv_move) simp_all
  moreover have "shape_inv c (s\<lparr>bs_replies := rs, bs_slots := (bs_slots s)[i mod kInputSlots := ?buf],
      bs_input := drop m (bs_input s), bs_reader := slot_reading c i (p + m)\<rparr>)"
    using shape_inv_slot [OF shape_inv_keep(2) [OF sh] len, of rs "i mod kInputSlots"]
    by (simp add: shape_inv_keep)
  ultimately show ?thesis using reading_more [OF sh ri inv(2,3) m] by (simp add: bench_inv_def)
qed

lemma reader_read_inv:
  assumes "bench_inv c s" "bs_reader s = RT_Read i p" "bench_reader_step c s = Some t"
  shows "bench_inv c t"
proof -
  obtain reply rs where rs: "bs_replies s = reply # rs"
    using assms(2,3) by (cases "bs_replies s") (simp_all add: bench_reader_step_def)
  then have t: "t = read_step c i p reply (s\<lparr>bs_replies := rs\<rparr>)"
    using assms(2,3) by (simp add: bench_reader_step_def)
  have o: "whole_outcome c = partial_outcome c i (bn_bytes c - p) (reply # rs) (bs_input s)" "p < bn_bytes c"
    using assms(1,2) rs by (simp_all add: bench_inv_def bench_reader_inv_def)
  show ?thesis
  proof (cases reply)
    case Interrupted
    then have "bench_reader_inv c t" using assms(1,2) o rs
      by (simp add: t read_step_def bench_inv_def bench_reader_inv_def partial_outcome_simps(2))
    then show ?thesis using assms(1) Interrupted
      by (simp add: t read_step_def bench_inv_def shape_inv_keep main_inv_other)
  next
    case (Read_Error errno)
    then have "whole_outcome c = Some (Inl (Short_Input i (Some errno)))"
      using o by (simp add: partial_outcome_simps(3))
    from read_fails_inv [OF assms(1,2) this, of rs] Read_Error show ?thesis by (simp add: t read_step_def)
  next
    case (Received k)
    define m where "m = min k (min (bn_bytes c - p) (length (bs_input s)))"
    show ?thesis
    proof (cases "m = 0")
      case True
      then have "whole_outcome c = Some (Inl (Short_Input i None))"
        using o Received by (simp add: m_def partial_outcome_simps(4))
      from read_fails_inv [OF assms(1,2) this, of rs] True Received show ?thesis
        by (simp add: t read_step_def Let_def m_def)
    next
      case False
      from read_stores_inv [OF assms(1,2) rs [unfolded Received] m_def False] False Received show ?thesis
        by (simp add: t read_step_def Let_def m_def [symmetric])
    qed
  qed
qed

lemma reader_mark_inv:
  assumes "bench_inv c s" "bs_reader s = RT_Mark i" "bench_reader_step c s = Some t"
  shows "bench_inv c t"
proof -
  have sh: "shape_inv c s" and ri: "bench_reader_inv c s" and mi: "bench_main_inv c s"
    using assms(1) by (simp_all add: bench_inv_def)
  have t: "t = s\<lparr>bs_ready := (bs_ready s)[i mod kInputSlots := True], bs_reader := reader_loop c (Suc i)\<rparr>"
    using assms(2,3) by (simp add: bench_reader_step_def)
  have r: "i < bn_frames c" "bs_error s = None" "\<not> bs_ready s ! (i mod kInputSlots)"
    "input_at c (bn_bytes c * Suc i) (bs_input s)"
    "bs_slots s ! (i mod kInputSlots) = frame_of c i"
    "whole_outcome c = rest_outcome c (Suc i) (bs_replies s) (bs_input s)"
    using ri assms(2) by (simp_all add: bench_reader_inv_def)
  have "bench_main_inv c t" unfolding t
    using mi r(3,5) sh assms(2) by (intro main_inv_mark) (simp_all add: shape_inv_def)
  moreover have "bench_reader_inv c t" unfolding t
  proof (cases "Suc i < bn_frames c")
    case True
    then show "bench_reader_inv c (s\<lparr>bs_ready := (bs_ready s)[i mod kInputSlots := True], bs_reader := reader_loop c (Suc i)\<rparr>)"
      using r(2,4,6) by (simp add: bench_reader_inv_def reader_loop_def)
  next
    case False
    then have "whole_outcome c = Some (Inr ())" "Suc i = bn_frames c" using r(1,6) by (simp_all add: rest_outcome_end)
    then show "bench_reader_inv c (s\<lparr>bs_ready := (bs_ready s)[i mod kInputSlots := True], bs_reader := reader_loop c (Suc i)\<rparr>)"
      using r(2) by (simp add: bench_reader_inv_def reader_loop_def)
  qed
  ultimately show ?thesis using sh by (simp add: bench_inv_def t shape_inv_keep)
qed

lemma reader_fail_inv:
  assumes "bench_inv c s" "bs_reader s = RT_Fail i e" "bench_reader_step c s = Some t"
  shows "bench_inv c t"
proof -
  have t: "t = s\<lparr>bs_error := Some e, bs_reader := RT_Done i\<rparr>"
    using assms(2,3) by (simp add: bench_reader_step_def)
  have r: "i < bn_frames c" "bs_error s = None" "whole_outcome c = Some (Inl e)"
    using assms(1,2) by (simp_all add: bench_inv_def bench_reader_inv_def)
  have "bench_main_inv c t" using assms(1,2) r(1,2)
    by (cases "bs_main s") (simp_all add: t bench_inv_def bench_main_inv_def Let_def)
  moreover have "bench_reader_inv c t" using r by (simp add: t bench_reader_inv_def)
  ultimately show ?thesis using assms(1) by (simp add: bench_inv_def t shape_inv_keep)
qed

lemma bench_reader_step_inv:
  assumes "bench_inv c s" "bench_reader_step c s = Some t"
  shows "bench_inv c t"
proof (cases "bs_reader s")
  case (RT_Wait i)
  from reader_wait_inv [OF assms(1) this assms(2)] show ?thesis .
next
  case (RT_Read i p)
  from reader_read_inv [OF assms(1) this assms(2)] show ?thesis .
next
  case (RT_Mark i)
  from reader_mark_inv [OF assms(1) this assms(2)] show ?thesis .
next
  case (RT_Fail i e)
  from reader_fail_inv [OF assms(1) this assms(2)] show ?thesis .
qed (use assms(2) in \<open>simp add: bench_reader_step_def\<close>)

section \<open>The main thread keeps the invariant\<close>

lemma main_invD:
  assumes "bench_main_inv c s"
  shows "bs_main s = MT_Wait i \<Longrightarrow> i < bn_frames c \<and>
      slots_hold c i (reader_index (bs_reader s)) (bs_slots s) (bs_ready s) \<and>
      encode_frames c (frame_of c) i = Inr (bs_counts s)"
    "bs_main s = MT_Encode i \<Longrightarrow> i < bn_frames c \<and> i < reader_index (bs_reader s) \<and>
      slots_hold c i (reader_index (bs_reader s)) (bs_slots s) (bs_ready s) \<and>
      encode_frames c (frame_of c) i = Inr (bs_counts s)"
    "bs_main s = MT_Release i \<Longrightarrow> i < bn_frames c \<and> i < reader_index (bs_reader s) \<and>
      slots_hold c i (reader_index (bs_reader s)) (bs_slots s) (bs_ready s) \<and>
      encode_frames c (frame_of c) (Suc i) = Inr (bs_counts s)"
    "bs_main s = MT_Join \<Longrightarrow> bn_frames c \<le> reader_index (bs_reader s) \<and>
      encode_frames c (frame_of c) (bn_frames c) = Inr (bs_counts s)"
  using assms by (simp_all add: bench_main_inv_def Let_def)

lemma encoding_slot:
  assumes "slots_hold c i r slots ready" "i < r"
  shows "slots ! (i mod kInputSlots) = frame_of c i"
  using assms by (simp add: slots_hold_def)

lemma shape_inv_main:
  assumes "shape_inv c s" "\<not> bs_stop s" "case p of MT_Rejoin e \<Rightarrow> False | MT_Failed e \<Rightarrow> False | _ \<Rightarrow> True"
  shows "shape_inv c (s\<lparr>bs_main := p\<rparr>)"
  using assms by (cases p) (simp_all add: shape_inv_def)

lemma reader_inv_release:
  assumes "bench_reader_inv c s"
  shows "bench_reader_inv c (s\<lparr>bs_ready := (bs_ready s)[k := False]\<rparr>)"
proof -
  have "\<not> bs_ready s ! j \<Longrightarrow> \<not> (bs_ready s)[k := False] ! j" for j
    by (cases "k = j"; cases "j < length (bs_ready s)") (auto simp: list_update_beyond)
  then show ?thesis using assms by (cases "bs_reader s") (simp_all add: bench_reader_inv_def split: option.splits)
qed

lemma reader_inv_stop: "bench_reader_inv c s \<Longrightarrow> bench_reader_inv c (s\<lparr>bs_stop := True\<rparr>)"
  by (cases "bs_reader s"; cases "bs_error s") (auto simp: bench_reader_inv_def)

lemma main_wait_inv:
  assumes "bench_inv c s" "bs_main s = MT_Wait i" "bench_main_step c s = Some t"
  shows "bench_inv c t"
proof -
  have sh: "shape_inv c s" "\<not> bs_stop s" and ri: "bench_reader_inv c s" and mi: "bench_main_inv c s"
    using assms(1,2) by (simp_all add: bench_inv_def shape_inv_def)
  note m = main_invD(1) [OF mi assms(2)]
  show ?thesis
  proof (cases "bs_error s")
    case (Some e)
    then have t: "t = s\<lparr>bs_main := MT_Unwind e\<rparr>" using assms(2,3) by (simp add: bench_main_step_def)
    have "bench_main_inv c t" using Some by (simp add: t bench_main_inv_def Let_def)
    then show ?thesis using sh ri by (simp add: t bench_inv_def reader_inv_main shape_inv_main)
  next
    case None
    then have t: "t = s\<lparr>bs_main := MT_Encode i\<rparr>" and "bs_ready s ! (i mod kInputSlots)"
      using assms(2,3) by (simp_all add: bench_main_step_def split: if_split_asm)
    then have "i < reader_index (bs_reader s)" using m slots_hold_ready by blast
    then have "bench_main_inv c t" using m by (simp add: t bench_main_inv_def Let_def)
    then show ?thesis using sh ri by (simp add: t bench_inv_def reader_inv_main shape_inv_main)
  qed
qed

lemma main_encode_inv:
  assumes "bench_inv c s" "bs_main s = MT_Encode i" "bench_main_step c s = Some t"
  shows "bench_inv c t"
proof -
  have sh: "shape_inv c s" "\<not> bs_stop s" and ri: "bench_reader_inv c s" and mi: "bench_main_inv c s"
    using assms(1,2) by (simp_all add: bench_inv_def shape_inv_def)
  note m = main_invD(2) [OF mi assms(2)]
  have e: "encode_frame c i (bs_slots s ! (i mod kInputSlots)) (bs_counts s) = encode_frames c (frame_of c) (Suc i)"
    using m encoding_slot [of c i "reader_index (bs_reader s)" "bs_slots s" "bs_ready s"]
    by (simp add: encode_frames.simps(2))
  show ?thesis
  proof (cases "encode_frames c (frame_of c) (Suc i)")
    case (Inl x)
    then have t: "t = s\<lparr>bs_main := MT_Unwind x\<rparr>"
      using assms(2,3) e by (simp add: bench_main_step_def)
    have "bench_main_inv c t" using Inl m by (auto simp: t bench_main_inv_def Let_def)
    then show ?thesis using sh ri by (simp add: t bench_inv_def reader_inv_main shape_inv_main)
  next
    case (Inr counts)
    then have t: "t = s\<lparr>bs_counts := counts, bs_main := MT_Release i\<rparr>"
      using assms(2,3) e by (simp add: bench_main_step_def)
    have "bench_main_inv c t" using Inr m by (simp add: t bench_main_inv_def Let_def)
    then show ?thesis using sh ri
      by (simp add: t bench_inv_def reader_inv_main shape_inv_main shape_inv_keep)
  qed
qed

lemma main_release_inv:
  assumes "bench_inv c s" "bs_main s = MT_Release i" "bench_main_step c s = Some t"
  shows "bench_inv c t"
proof -
  have sh: "shape_inv c s" "\<not> bs_stop s" and ri: "bench_reader_inv c s" and mi: "bench_main_inv c s"
    using assms(1,2) by (simp_all add: bench_inv_def shape_inv_def)
  note m = main_invD(3) [OF mi assms(2)]
  have t: "t = s\<lparr>bs_ready := (bs_ready s)[i mod kInputSlots := False], bs_main := main_loop c (Suc i)\<rparr>"
    using assms(2,3) by (simp add: bench_main_step_def)
  have "slots_hold c (Suc i) (reader_index (bs_reader s)) (bs_slots s) ((bs_ready s)[i mod kInputSlots := False])"
    using m sh(1) by (intro slots_hold_release) (simp_all add: shape_inv_def)
  then have "bench_main_inv c t"
  proof (cases "Suc i < bn_frames c")
    case False
    then have "Suc i = bn_frames c" using m by simp
    then show ?thesis using m by (simp add: t bench_main_inv_def Let_def main_loop_def)
  qed (use m in \<open>simp add: t bench_main_inv_def Let_def main_loop_def\<close>)
  moreover have "shape_inv c t" unfolding t using sh
    by (intro shape_inv_main) (simp_all add: shape_inv_keep main_loop_def)
  ultimately show ?thesis using ri by (simp add: t bench_inv_def reader_inv_main reader_inv_release)
qed

lemma main_end_inv:
  assumes "bench_inv c s" "bench_main_step c s = Some t"
    "bs_main s \<in> {MT_Unwind e, MT_Rejoin e, MT_Join}"
  shows "bench_inv c t"
proof -
  have sh: "shape_inv c s" and ri: "bench_reader_inv c s" and mi: "bench_main_inv c s"
    using assms(1) by (simp_all add: bench_inv_def)
  from assms(3) consider (unwind) "bs_main s = MT_Unwind e" | (rejoin) "bs_main s = MT_Rejoin e"
    | (join) "bs_main s = MT_Join" by blast
  then show ?thesis
  proof cases
    case unwind
    then have "t = s\<lparr>bs_stop := True, bs_main := MT_Rejoin e\<rparr>" using assms(2) by (simp add: bench_main_step_def)
    then show ?thesis using unwind sh mi reader_inv_stop [OF ri]
      by (simp add: bench_inv_def reader_inv_main) (simp add: shape_inv_def bench_main_inv_def Let_def)
  next
    case rejoin
    then have "t = s\<lparr>bs_main := MT_Failed e\<rparr>" using assms(2)
      by (simp add: bench_main_step_def split: if_split_asm)
    then show ?thesis using rejoin sh ri mi
      by (simp add: bench_inv_def reader_inv_main) (simp add: shape_inv_def bench_main_inv_def Let_def)
  next
    case join
    then have "t = s\<lparr>bs_main := MT_Joined\<rparr>" "reader_done (bs_reader s)" using assms(2)
      by (simp_all add: bench_main_step_def split: if_split_asm)
    then show ?thesis using join sh ri mi
      by (simp add: bench_inv_def reader_inv_main) (simp add: shape_inv_def bench_main_inv_def Let_def)
  qed
qed

lemma main_step_inv:
  assumes "bench_inv c s" "bench_main_step c s = Some t"
  shows "bench_inv c t"
proof (cases "bs_main s")
  case (MT_Wait i)
  from main_wait_inv [OF assms(1) this assms(2)] show ?thesis .
next
  case (MT_Encode i)
  from main_encode_inv [OF assms(1) this assms(2)] show ?thesis .
next
  case (MT_Release i)
  from main_release_inv [OF assms(1) this assms(2)] show ?thesis .
next
  case (MT_Unwind e)
  then show ?thesis using main_end_inv [OF assms] by blast
next
  case (MT_Rejoin e)
  then show ?thesis using main_end_inv [OF assms] by blast
next
  case MT_Join
  then show ?thesis using main_end_inv [OF assms] by blast
qed (use assms(2) in \<open>simp_all add: bench_main_step_def\<close>)

lemma bench_step_inv: "bench_inv c s \<Longrightarrow> bench_step c s t \<Longrightarrow> bench_inv c t"
  by (erule bench_stepE) (erule bench_reader_step_inv main_step_inv, assumption)+

section \<open>Progress and rank\<close>

text \<open>The run has ended, or the reader waits for a reply of \<^verbatim>\<open>read\<close> that never comes.\<close>

definition bench_final :: "'e bench_state \<Rightarrow> bool" where
  "bench_final s \<longleftrightarrow> bench_result s \<noteq> None \<or> (\<exists>i p. bs_reader s = RT_Read i p) \<and> bs_replies s = []"

fun bench_reader_rank :: "'e bench_run \<Rightarrow> bench_reader_pc \<Rightarrow> nat" where
  "bench_reader_rank c (RT_Wait i) = 3 * (bn_frames c - i) + 2"
| "bench_reader_rank c (RT_Read i p) = 3 * (bn_frames c - i) + 1"
| "bench_reader_rank c (RT_Mark i) = 3 * (bn_frames c - i)"
| "bench_reader_rank c (RT_Fail i e) = 1"
| "bench_reader_rank c (RT_Done i) = 0"

fun bench_main_rank :: "'e bench_run \<Rightarrow> bench_main_pc \<Rightarrow> nat" where
  "bench_main_rank c (MT_Wait i) = 3 * (bn_frames c - i) + 5"
| "bench_main_rank c (MT_Encode i) = 3 * (bn_frames c - i) + 4"
| "bench_main_rank c (MT_Release i) = 3 * (bn_frames c - i) + 3"
| "bench_main_rank c (MT_Unwind e) = 2"
| "bench_main_rank c (MT_Rejoin e) = 1"
| "bench_main_rank c (MT_Failed e) = 0"
| "bench_main_rank c MT_Join = 1"
| "bench_main_rank c MT_Joined = 0"

definition bench_rank :: "'e bench_run \<Rightarrow> 'e bench_state \<Rightarrow> nat" where
  "bench_rank c s = length (bs_replies s) + bench_reader_rank c (bs_reader s) + bench_main_rank c (bs_main s)"

lemma bench_reader_blocked:
  assumes "bench_reader_step c s = None"
  shows "reader_done (bs_reader s) \<or> (\<exists>i p. bs_reader s = RT_Read i p) \<and> bs_replies s = [] \<or>
    (\<exists>i. bs_reader s = RT_Wait i \<and> \<not> bs_stop s \<and> bs_ready s ! (i mod kInputSlots))"
  using assms by (cases "bs_reader s") (simp_all add: bench_reader_step_def split: if_split_asm list.split_asm)

lemma bench_main_blocked:
  assumes "bench_main_step c s = None" "bench_result s = None"
  shows "(\<exists>i. bs_main s = MT_Wait i \<and> bs_error s = None \<and> \<not> bs_ready s ! (i mod kInputSlots)) \<or>
    (\<exists>e. bs_main s = MT_Rejoin e \<and> \<not> reader_done (bs_reader s)) \<or>
    bs_main s = MT_Join \<and> \<not> reader_done (bs_reader s)"
  using assms
  by (cases "bs_main s") (simp_all add: bench_main_step_def bench_result_def split: if_split_asm option.split_asm sum.split_asm)

lemma bench_progress:
  assumes "bench_inv c s" "\<not> bench_final s"
  shows "\<exists>t. bench_step c s t"
proof (rule ccontr)
  assume "\<nexists>t. bench_step c s t"
  then have stuck: "bench_reader_step c s = None" "bench_main_step c s = None"
    by (meson bench_step.intros not_None_eq)+
  have sh: "shape_inv c s" and ri: "bench_reader_inv c s" and mi: "bench_main_inv c s"
    using assms(1) by (simp_all add: bench_inv_def)
  have "bench_result s = None" using assms(2) by (simp add: bench_final_def)
  from bench_main_blocked [OF stuck(2) this] show False
  proof (elim disjE exE conjE)
    fix i assume m: "bs_main s = MT_Wait i" "bs_error s = None" "\<not> bs_ready s ! (i mod kInputSlots)"
    note w = main_invD(1) [OF mi m(1)]
    have "i \<le> reader_index (bs_reader s)" using w by (simp add: slots_hold_def)
    moreover have "\<not> i < reader_index (bs_reader s)" using w m(3) slots_hold_ready by blast
    ultimately have r: "reader_index (bs_reader s) = i" by simp
    have stop: "\<not> bs_stop s" using m(1) sh by (simp add: shape_inv_def)
    from bench_reader_blocked [OF stuck(1)] show False
    proof (elim disjE exE conjE)
      assume "reader_done (bs_reader s)"
      then show False using r stop w ri m(2) by (cases "bs_reader s") (simp_all add: bench_reader_inv_def)
    next
      fix j p assume "bs_reader s = RT_Read j p" "bs_replies s = []"
      then show False using assms(2) by (simp add: bench_final_def)
    next
      fix j assume "bs_reader s = RT_Wait j" "bs_ready s ! (j mod kInputSlots)"
      then show False using r m(3) by simp
    qed
  next
    fix e assume m: "bs_main s = MT_Rejoin e" "\<not> reader_done (bs_reader s)"
    then have "bs_stop s" using sh by (simp add: shape_inv_def)
    with bench_reader_blocked [OF stuck(1)] m(2) assms(2) show False by (auto simp: bench_final_def)
  next
    assume m: "bs_main s = MT_Join" "\<not> reader_done (bs_reader s)"
    with main_invD(4) [OF mi m(1)] ri show False by (cases "bs_reader s") (simp_all add: bench_reader_inv_def)
  qed
qed

lemma reader_rank_less:
  assumes "bench_inv c s" "bench_reader_step c s = Some t"
  shows "bench_rank c t < bench_rank c s"
proof -
  have r: "bench_reader_rank c (bs_reader t) + length (bs_replies t) < bench_reader_rank c (bs_reader s) + length (bs_replies s)
    \<and> bs_main t = bs_main s"
  proof (cases "bs_reader s")
    case (RT_Wait i)
    then show ?thesis using assms(2)
      by (auto simp: bench_reader_step_def slot_reading_def split: if_split_asm)
  next
    case (RT_Read i p)
    then obtain reply rs where "bs_replies s = reply # rs" "i < bn_frames c"
      using assms by (cases "bs_replies s") (simp_all add: bench_reader_step_def bench_inv_def bench_reader_inv_def)
    then show ?thesis using RT_Read assms(2)
      by (cases reply) (auto simp: bench_reader_step_def read_step_def slot_reading_def Let_def split: if_split_asm)
  next
    case (RT_Mark i)
    then have "i < bn_frames c" using assms(1) by (simp add: bench_inv_def bench_reader_inv_def)
    then show ?thesis using RT_Mark assms(2)
      by (auto simp: bench_reader_step_def reader_loop_def split: if_split_asm)
  qed (use assms(2) in \<open>auto simp: bench_reader_step_def\<close>)
  then show ?thesis by (simp add: bench_rank_def)
qed

lemma bench_main_rank_less:
  assumes "bench_inv c s" "bench_main_step c s = Some t"
  shows "bench_rank c t < bench_rank c s"
proof -
  have "bench_main_rank c (bs_main t) < bench_main_rank c (bs_main s) \<and> bs_reader t = bs_reader s \<and> bs_replies t = bs_replies s"
  proof (cases "bs_main s")
    case (MT_Release i)
    then have "i < bn_frames c" using assms(1) main_invD(3) by (auto simp: bench_inv_def)
    then show ?thesis using MT_Release assms(2) by (auto simp: bench_main_step_def main_loop_def)
  qed (use assms(2) in \<open>auto simp: bench_main_step_def split: if_split_asm option.split_asm sum.split_asm\<close>)
  then show ?thesis by (simp add: bench_rank_def)
qed

interpretation bench_threads: terminating_system "bench_start c" "bench_step c" "bench_inv c"
  bench_final "bench_rank c" for c
proof unfold_locales
  show "bench_inv c (bench_start c)" by (rule bench_inv_start)
  show "\<And>s t. bench_inv c s \<Longrightarrow> bench_step c s t \<Longrightarrow> bench_inv c t" by (rule bench_step_inv)
  show "\<And>s. bench_inv c s \<Longrightarrow> \<not> bench_final s \<Longrightarrow> \<exists>t. bench_step c s t" by (rule bench_progress)
  show "\<And>s t. bench_inv c s \<Longrightarrow> bench_step c s t \<Longrightarrow> bench_rank c t < bench_rank c s"
    by (auto elim!: bench_stepE intro: reader_rank_less bench_main_rank_less)
qed

section \<open>Properties\<close>

lemma preload_frames_reads:
  "preload_frames (bn_bytes c) k i rs stream = Some (Inr got) \<Longrightarrow>
    length got = bn_bytes c * k \<and> (\<exists>rest. stream = got @ rest)"
proof (induction k arbitrary: i rs stream got)
  case (Suc k)
  then obtain f rs' stream' g where f: "read_exact i rs (bn_bytes c) stream = (Some (Inr f), rs', stream')"
    "preload_frames (bn_bytes c) k (Suc i) rs' stream' = Some (Inr g)" "got = f @ g"
    by (auto split: prod.split_asm option.split_asm sum.split_asm)
  with Suc.IH [OF f(2)] read_exact_reads [OF f(1)] show ?case by auto
qed simp

lemma encode_frames_cong:
  "(\<And>i. i < n \<Longrightarrow> f i = g i) \<Longrightarrow> encode_frames c f n = encode_frames c g n"
proof (induction n)
  case (Suc n)
  then have "encode_frames c f n = encode_frames c g n" "f n = g n" by simp_all
  then show ?case by (simp add: encode_frames.simps(2) split: sum.split)
qed simp

text \<open>When the whole input can be read, the preloaded run encodes its frames.\<close>

lemma run_preloaded_frames:
  assumes "whole_outcome c = Some (Inr ())"
  shows "run_preloaded c = Some (encode_frames c (frame_of c) (bn_frames c))"
proof -
  obtain got where got: "preload_frames (bn_bytes c) (bn_frames c) 0 (bn_replies c) (bn_input c) = Some (Inr got)"
    using assms by (auto simp: whole_outcome_def rest_outcome_def outcome_def)
  from preload_frames_reads [OF this] obtain rest
    where g: "length got = bn_bytes c * bn_frames c" "bn_input c = got @ rest" by blast
  have "take (bn_bytes c) (drop (bn_bytes c * i) got) = frame_of c i" if "i < bn_frames c" for i
  proof -
    have "bn_bytes c * Suc i \<le> bn_bytes c * bn_frames c" using that by (intro mult_le_mono2) simp
    then show ?thesis using g by (simp add: frame_of_def)
  qed
  then show ?thesis using got by (simp add: run_preloaded_def cong: encode_frames_cong)
qed

lemma run_preloaded_fails:
  assumes "whole_outcome c = Some (Inl e)"
  shows "run_preloaded c = Some (Inl e)"
  using assms by (auto simp: whole_outcome_def rest_outcome_def outcome_def run_preloaded_def)

lemma encode_frames_fails:
  "encode_frames c f i = Inl e \<Longrightarrow> i \<le> n \<Longrightarrow> encode_frames c f n = Inl e"
  by (induction n) (auto simp: encode_frames.simps(2) le_Suc_eq)

lemma bench_joined_outcome:
  assumes "bench_inv c s" "bs_main s = MT_Joined"
  shows "whole_outcome c = Some (Inr ())"
proof -
  have m: "bn_frames c \<le> reader_index (bs_reader s)" "encode_frames c (frame_of c) (bn_frames c) = Inr (bs_counts s)"
    "reader_done (bs_reader s)" and ri: "bench_reader_inv c s" and st: "\<not> bs_stop s"
    using assms by (simp_all add: bench_inv_def bench_main_inv_def shape_inv_def Let_def)
  then show ?thesis
    by (cases "bs_reader s") (auto simp: bench_reader_inv_def split: option.split_asm)
qed

lemma bench_joined:
  assumes "bench_inv c s" "bs_main s = MT_Joined"
  shows "run_preloaded c = Some (Inr (bs_counts s))"
proof -
  have "encode_frames c (frame_of c) (bn_frames c) = Inr (bs_counts s)"
    using assms by (simp add: bench_inv_def bench_main_inv_def Let_def)
  then show ?thesis using run_preloaded_frames [OF bench_joined_outcome [OF assms]] by simp
qed

lemma bench_failed:
  assumes "bench_inv c s" "bs_main s = MT_Failed e" "run_preloaded c = Some x"
  shows "\<exists>e'. x = Inl e'"
proof -
  have ri: "bench_reader_inv c s" and f: "bs_error s = Some e \<or>
      (\<exists>i < bn_frames c. encode_frames c (frame_of c) (Suc i) = Inl e)"
    using assms(1,2) by (simp_all add: bench_inv_def bench_main_inv_def Let_def)
  show ?thesis
  proof (cases "whole_outcome c")
    case None
    then show ?thesis using assms(3)
      by (simp add: whole_outcome_def rest_outcome_def outcome_def run_preloaded_def)
  next
    case (Some y)
    show ?thesis
    proof (cases y)
      case (Inl e')
      then show ?thesis using run_preloaded_fails Some assms(3) by fastforce
    next
      case (Inr u)
      then have "bs_error s = None" using ri Some
        by (cases "bs_reader s"; cases "bs_error s") (auto simp: bench_reader_inv_def)
      then obtain i where i: "i < bn_frames c" "encode_frames c (frame_of c) (Suc i) = Inl e" using f by auto
      have "encode_frames c (frame_of c) (bn_frames c) = Inl e"
        using encode_frames_fails [OF i(2)] i(1) by simp
      then show ?thesis using run_preloaded_frames [of c] Some Inr assms(3) by simp
    qed
  qed
qed

lemma bench_result_preloaded:
  assumes "(bench_step c)\<^sup>*\<^sup>* (bench_start c) s" "bench_result s = Some x" "run_preloaded c = Some y"
  shows "map_sum (\<lambda>_. ()) id x = map_sum (\<lambda>_. ()) id y"
proof -
  have inv: "bench_inv c s" by (rule bench_threads.reachable_inv [OF assms(1)])
  show ?thesis
  proof (cases "bs_main s")
    case MT_Joined
    then show ?thesis using bench_joined [OF inv] assms(2,3) by (simp add: bench_result_def)
  next
    case (MT_Failed e)
    then show ?thesis using bench_failed [OF inv MT_Failed assms(3)] assms(2) by (auto simp: bench_result_def)
  qed (use assms(2) in \<open>simp_all add: bench_result_def\<close>)
qed

lemma read_waits: "0 < n \<Longrightarrow> partial_outcome c i n [] stream = None"
  by (cases n) (simp_all add: partial_outcome_def)

text \<open>When the whole input can be read, or reading it fails, the threads can be run to the end.\<close>

lemma bench_ends:
  assumes "whole_outcome c \<noteq> None"
  shows "\<exists>s x. (bench_step c)\<^sup>*\<^sup>* (bench_start c) s \<and> bench_result s = Some x"
proof -
  obtain s where s: "(bench_step c)\<^sup>*\<^sup>* (bench_start c) s" "bench_final s"
    using bench_threads.reaches_final [OF bench_inv_start] by blast
  have "bench_reader_inv c s" using bench_threads.reachable_inv [OF s(1)] by (simp add: bench_inv_def)
  then have "\<not> ((\<exists>i p. bs_reader s = RT_Read i p) \<and> bs_replies s = [])"
    using assms by (auto simp: bench_reader_inv_def read_waits)
  then show ?thesis using s by (auto simp: bench_final_def)
qed

text \<open>C21: the encoder never sees a torn, stale or overwritten frame: while the main thread encodes frame \<^verbatim>\<open>i\<close>, its slot
  holds exactly the bytes of frame \<^verbatim>\<open>i\<close> of the input, and the reader is not filling that slot.\<close>

theorem x264_encodes_whole_frames:
  assumes "(bench_step c)\<^sup>*\<^sup>* (bench_start c) s" "bs_main s = MT_Encode i"
  shows "bs_slots s ! (i mod kInputSlots) = take (bn_bytes c) (drop (bn_bytes c * i) (bn_input c)) \<and>
    (\<nexists>j p. bs_reader s = RT_Read j p \<and> j mod kInputSlots = i mod kInputSlots)"
proof -
  have inv: "bench_inv c s" by (rule bench_threads.reachable_inv [OF assms(1)])
  then have ri: "bench_reader_inv c s" and mi: "bench_main_inv c s" by (simp_all add: bench_inv_def)
  note m = main_invD(2) [OF mi assms(2)]
  have "bs_ready s ! (i mod kInputSlots)" using m slots_hold_ready by blast
  moreover have "\<not> bs_ready s ! (j mod kInputSlots)" if "bs_reader s = RT_Read j p" for j p
    using ri that by (simp add: bench_reader_inv_def)
  moreover have "bs_slots s ! (i mod kInputSlots) = frame_of c i" using m encoding_slot by blast
  ultimately show ?thesis by (metis frame_of_def)
qed

text \<open>C22: the run cannot hang in the hand-over of the slots: no schedule is infinite, from every reachable state the run can
  be brought to its end or to a \<^verbatim>\<open>read\<close> that waits for input, and a state in which no thread can move is one of these
  two, also when the encoder or a read fails half way.\<close>

theorem x264_never_hangs:
  assumes "(bench_step c)\<^sup>*\<^sup>* (bench_start c) s"
  shows "\<not> (\<exists>run. run 0 = bench_start c \<and> (\<forall>i. bench_step c (run i) (run (Suc i)))) \<and>
    (\<exists>t. (bench_step c)\<^sup>*\<^sup>* s t \<and> bench_final t) \<and> ((\<forall>t. \<not> bench_step c s t) \<longrightarrow> bench_final s)"
  using bench_threads.no_infinite_run [of c] bench_threads.reaches_final [OF bench_threads.reachable_inv [OF assms]]
    bench_threads.stuck_final [OF assms] by blast

end
