(* ===== verification/X264_Main.thy ===== *)
theory X264_Main
  imports X264_Proofs
begin

text \<open>
  The x264 benchmark from its command line to its exit code: the set-up of the encoder, the choice
  between the preloaded and the threaded run, the flush of the delayed frames and the verdict. What
  the system and the encoder library do are the fields of \<^verbatim>\<open>x264_env\<close>.
\<close>

record 'e x264_env =
  xe_can_open :: "string \<Rightarrow> bool"
  xe_replies :: "read_reply list"
  xe_input :: bytes
  xe_preset_ok :: bool
  xe_profile_ok :: bool
  xe_encoder_open :: "x264_params \<Rightarrow> 'e option"
  xe_encode :: "'e \<Rightarrow> nat \<Rightarrow> bytes \<Rightarrow> 'e \<times> int \<times> int \<times> rat"
  xe_delayed :: "'e \<Rightarrow> nat"
  xe_flush :: "'e \<Rightarrow> 'e \<times> int"

definition x264_encoder :: "'e x264_env \<Rightarrow> bench_options \<Rightarrow> x264_error + 'e" where
  "x264_encoder env b =
     (if \<not> xe_preset_ok env then Inl Preset_Rejected
      else if \<not> xe_profile_ok env then Inl Profile_Rejected
      else case xe_encoder_open env (bench_params b) of None \<Rightarrow> Inl Open_Failed | Some e \<Rightarrow> Inr e)"

definition x264_run :: "'e x264_env \<Rightarrow> bench_options \<Rightarrow> nat \<Rightarrow> 'e \<Rightarrow> 'e bench_run" where
  "x264_run env b frame_bytes e = \<lparr>bn_frames = bo_frames b, bn_bytes = frame_bytes,
     bn_encode = xe_encode env, bn_encoder = e, bn_replies = xe_replies env, bn_input = xe_input env\<rparr>"

text \<open>The flush loop ends only if the encoder runs out of delayed frames.\<close>

partial_function (option) x264_flush ::
    "'e x264_env \<Rightarrow> 'e bench_counts \<Rightarrow> (x264_error + 'e bench_counts) option" where
  "x264_flush env counts =
     (if xe_delayed env (bc_encoder counts) = 0 then Some (Inr counts)
      else case xe_flush env (bc_encoder counts) of (e, bytes) \<Rightarrow>
        if bytes < 0 then Some (Inl Flush_Failed)
        else x264_flush env (counts\<lparr>bc_encoder := e,
          bc_output_bytes := bc_output_bytes counts + of_int bytes,
          bc_output_frames := bc_output_frames counts + (if 0 < bytes then 1 else 0)\<rparr>))"

definition x264_verdict :: "bench_options \<Rightarrow> 'e bench_counts \<Rightarrow> nat" where
  "x264_verdict b counts =
     (if bc_output_frames counts = of_nat (bo_frames b) \<and> bc_delayed_calls counts = 0 then 0 else 2)"

text \<open>The exit code from what the encoding loop came to; \<^verbatim>\<open>None\<close> when the flush never ends.\<close>

definition x264_finish :: "'e x264_env \<Rightarrow> bench_options \<Rightarrow> x264_error + 'e bench_counts \<Rightarrow> nat option" where
  "x264_finish env b result = (case result of
     Inl e \<Rightarrow> Some 1
   | Inr counts \<Rightarrow> (case x264_flush env counts of
       None \<Rightarrow> None | Some (Inl e) \<Rightarrow> Some 1 | Some (Inr counts') \<Rightarrow> Some (x264_verdict b counts')))"

definition x264_preloaded_exit :: "'e x264_env \<Rightarrow> bench_options \<Rightarrow> nat \<Rightarrow> nat option" where
  "x264_preloaded_exit env b frame_bytes =
     (case preload_frames frame_bytes (bo_frames b) 0 (xe_replies env) (xe_input env) of
        None \<Rightarrow> None
      | Some (Inl e) \<Rightarrow> Some 1
      | Some (Inr preloaded) \<Rightarrow> (case x264_encoder env b of
          Inl e \<Rightarrow> Some 1
        | Inr e \<Rightarrow> (case run_preloaded (x264_run env b frame_bytes e) of
            None \<Rightarrow> None | Some result \<Rightarrow> x264_finish env b result)))"

definition x264_threaded_exit :: "'e x264_env \<Rightarrow> bench_options \<Rightarrow> nat \<Rightarrow> nat \<Rightarrow> bool" where
  "x264_threaded_exit env b frame_bytes code \<longleftrightarrow> (case x264_encoder env b of
     Inl e \<Rightarrow> code = 1
   | Inr e \<Rightarrow> (let c = x264_run env b frame_bytes e in
       \<exists>s result. (bench_step c)\<^sup>*\<^sup>* (bench_start c) s \<and> bench_result s = Some result \<and>
         x264_finish env b result = Some code))"

text \<open>The options and the size of a frame, or the exit code.\<close>

definition x264_prepare :: "'e x264_env \<Rightarrow> string list \<Rightarrow> nat + bench_options \<times> nat" where
  "x264_prepare env args = (case bench_parse_options args of
     Inl None \<Rightarrow> Inl 0
   | Inl (Some e) \<Rightarrow> Inl 1
   | Inr b \<Rightarrow> (case bytes_per_frame b of
       Inl e \<Rightarrow> Inl 1
     | Inr frame_bytes \<Rightarrow>
         if bo_input b \<noteq> ''-'' \<and> \<not> xe_can_open env (bo_input b) then Inl 1
         else if bo_preload b \<and> checked_multiply frame_bytes (bo_frames b) = Inl Size_Overflow then Inl 1
         else Inr (b, frame_bytes)))"

definition x264_exits :: "'e x264_env \<Rightarrow> string list \<Rightarrow> nat \<Rightarrow> bool" where
  "x264_exits env args code \<longleftrightarrow> (case x264_prepare env args of
     Inl code' \<Rightarrow> code = code'
   | Inr (b, frame_bytes) \<Rightarrow>
       if bo_preload b then x264_preloaded_exit env b frame_bytes = Some code
       else x264_threaded_exit env b frame_bytes code)"

section \<open>Facts\<close>

lemma bench_result_unique:
  assumes "(bench_step c)\<^sup>*\<^sup>* (bench_start c) s" "bench_result s = Some x"
    "(bench_step c)\<^sup>*\<^sup>* (bench_start c) t" "bench_result t = Some y"
  shows "map_sum (\<lambda>_. ()) id x = map_sum (\<lambda>_. ()) id y"
proof -
  have inv: "bench_inv c s" "bench_inv c t" using assms(1,3) by (simp_all add: bench_threads.reachable_inv)
  have ends: "(\<exists>e. bs_main u = MT_Failed e \<and> z = Inl e) \<or> bs_main u = MT_Joined \<and> z = Inr (bs_counts u)"
    if "bench_result u = Some z" for u :: "'a bench_state" and z
    using that by (cases "bs_main u") (simp_all add: bench_result_def)
  show ?thesis
    using ends [OF assms(2)] ends [OF assms(4)] bench_joined [OF inv(1)] bench_joined [OF inv(2)]
      bench_failed [OF inv(1)] bench_failed [OF inv(2)]
    by fastforce
qed

lemma x264_finish_cong:
  "map_sum (\<lambda>_. ()) id x = map_sum (\<lambda>_. ()) id y \<Longrightarrow> x264_finish env b x = x264_finish env b y"
  by (cases x; cases y) (simp_all add: x264_finish_def)

lemma x264_run_simps [simp]:
  "bn_frames (x264_run env b n e) = bo_frames b" "bn_bytes (x264_run env b n e) = n"
  "bn_encode (x264_run env b n e) = xe_encode env" "bn_encoder (x264_run env b n e) = e"
  "bn_replies (x264_run env b n e) = xe_replies env" "bn_input (x264_run env b n e) = xe_input env"
  by (simp_all add: x264_run_def)

lemma preloaded_exit_run:
  assumes "x264_preloaded_exit env b n = Some k" "x264_encoder env b = Inr e"
  shows "\<exists>y. run_preloaded (x264_run env b n e) = Some y \<and> x264_finish env b y = Some k"
    "whole_outcome (x264_run env b n e) \<noteq> None"
  using assms
  by (auto simp: x264_preloaded_exit_def run_preloaded_def x264_finish_def whole_outcome_def
      rest_outcome_def outcome_def split: option.split_asm sum.split_asm)

text \<open>C20: the reader thread and its three slots change nothing but the timing. Whenever the program would exit with the input
  preloaded, the threaded program can be run to its exit on the same input and the same replies of \<^verbatim>\<open>read\<close>, and under
  every schedule the exit code is the same.\<close>

theorem x264_modes_agree:
  assumes "x264_preloaded_exit env b n = Some k"
  shows "x264_threaded_exit env b n m \<longleftrightarrow> m = k"
proof (cases "x264_encoder env b")
  case (Inl e)
  then show ?thesis using assms
    by (auto simp: x264_threaded_exit_def x264_preloaded_exit_def split: option.split_asm sum.split_asm)
next
  case (Inr e)
  define c where "c = x264_run env b n e"
  obtain y where y: "run_preloaded c = Some y" "x264_finish env b y = Some k"
    using preloaded_exit_run(1) [OF assms Inr] by (auto simp: c_def)
  have all: "x264_finish env b x = Some k" if "(bench_step c)\<^sup>*\<^sup>* (bench_start c) s" "bench_result s = Some x" for s x
    using x264_finish_cong [OF bench_result_preloaded [OF that y(1)], of env b] y(2) by simp
  have "\<exists>s x. (bench_step c)\<^sup>*\<^sup>* (bench_start c) s \<and> bench_result s = Some x"
    using bench_ends preloaded_exit_run(2) [OF assms Inr] by (simp add: c_def)
  then show ?thesis using all Inr by (auto simp: x264_threaded_exit_def Let_def c_def [symmetric])
qed

text \<open>Whatever the schedule, the program has one exit code.\<close>

theorem x264_exit_unique:
  assumes "x264_exits env args m" "x264_exits env args k"
  shows "m = k"
proof (cases "x264_prepare env args")
  case (Inr r)
  obtain b n where r: "r = (b, n)" by (cases r)
  show ?thesis
  proof (cases "bo_preload b \<or> (\<exists>e. x264_encoder env b = Inl e)")
    case True
    then show ?thesis using assms Inr r by (auto simp: x264_exits_def x264_threaded_exit_def split: if_split_asm)
  next
    case False
    then obtain e where e: "x264_encoder env b = Inr e" by (cases "x264_encoder env b") auto
    with False assms Inr r obtain s x t y where
      "(bench_step (x264_run env b n e))\<^sup>*\<^sup>* (bench_start (x264_run env b n e)) s" "bench_result s = Some x"
      "x264_finish env b x = Some m"
      "(bench_step (x264_run env b n e))\<^sup>*\<^sup>* (bench_start (x264_run env b n e)) t" "bench_result t = Some y"
      "x264_finish env b y = Some k"
      by (auto simp: x264_exits_def x264_threaded_exit_def Let_def)
    then show ?thesis using x264_finish_cong [OF bench_result_unique, of _ s x t y env b] by fastforce
  qed
qed (use assms in \<open>simp add: x264_exits_def\<close>)

section \<open>What a pass means\<close>

text \<open>The call of the encoder on frame \<^verbatim>\<open>i\<close> returned that frame at once.\<close>

definition frame_encoded :: "'e bench_run \<Rightarrow> nat \<Rightarrow> bool" where
  "frame_encoded c i \<longleftrightarrow> (case encode_frames c (frame_of c) i of
     Inl e \<Rightarrow> False
   | Inr counts \<Rightarrow> (case bn_encode c (bc_encoder counts) i (frame_of c i) of
       (e, bytes, pts, us) \<Rightarrow> 0 < bytes \<and> pts = int i))"

definition no_delay :: "'e bench_run \<Rightarrow> nat \<Rightarrow> bool" where
  "no_delay c n \<longleftrightarrow> (\<forall>i < n. frame_encoded c i)"

lemma encode_frame_cases:
  assumes "encode_frame c i data counts = Inr counts'"
  shows "bc_delayed_calls counts' = bc_delayed_calls counts \<and>
      (case bn_encode c (bc_encoder counts) i data of (e, bytes, pts, us) \<Rightarrow> 0 < bytes \<and> pts = int i) \<or>
    bc_delayed_calls counts' = bc_delayed_calls counts + 1"
  using assms by (auto simp: encode_frame_def Let_def split: prod.split_asm if_split_asm)

lemma delayed_bound:
  "encode_frames c (frame_of c) n = Inr counts \<Longrightarrow>
    \<exists>d \<le> n. bc_delayed_calls counts = of_nat d \<and> (d = 0 \<longrightarrow> no_delay c n)"
proof (induction n arbitrary: counts)
  case (Suc n)
  then obtain before where b: "encode_frames c (frame_of c) n = Inr before"
    "encode_frame c n (frame_of c n) before = Inr counts"
    by (auto simp: encode_frames.simps(2) split: sum.split_asm)
  from Suc.IH [OF b(1)] obtain d where d: "d \<le> n" "bc_delayed_calls before = of_nat d" "d = 0 \<longrightarrow> no_delay c n"
    by blast
  from encode_frame_cases [OF b(2)] show ?case
  proof (elim disjE conjE)
    assume e: "bc_delayed_calls counts = bc_delayed_calls before"
      "case bn_encode c (bc_encoder before) n (frame_of c n) of (e, bytes, pts, us) \<Rightarrow> 0 < bytes \<and> pts = int n"
    then have "d = 0 \<longrightarrow> no_delay c (Suc n)"
      using d(3) b(1) by (auto simp: no_delay_def frame_encoded_def less_Suc_eq)
    then show ?thesis using d(1,2) e(1) by (intro exI [of _ d]) simp
  next
    assume "bc_delayed_calls counts = bc_delayed_calls before + 1"
    then show ?thesis using d(1,2) by (intro exI [of _ "Suc d"]) (simp add: add.commute)
  qed
qed (auto simp: bench_counts_start_def no_delay_def)

lemma x264_flush_delayed:
  "x264_flush env counts = Some y \<Longrightarrow>
    (case y of Inl e \<Rightarrow> True | Inr counts' \<Rightarrow> bc_delayed_calls counts' = bc_delayed_calls counts)"
proof -
  assume ends: "x264_flush env counts = Some y"
  show ?thesis
    by (rule x264_flush.raw_induct [OF _ ends])
      (force split: if_split_asm prod.split_asm sum.split)
qed

lemma x264_flush_ends:
  assumes "\<And>e. 0 < xe_delayed env e \<Longrightarrow> xe_delayed env (fst (xe_flush env e)) < xe_delayed env e"
  shows "x264_flush env counts \<noteq> None"
proof (induction "xe_delayed env (bc_encoder counts)" arbitrary: counts rule: less_induct)
  case less
  obtain e bytes where f: "xe_flush env (bc_encoder counts) = (e, bytes)" by fastforce
  show ?case
  proof (cases "xe_delayed env (bc_encoder counts) = 0 \<or> bytes < 0")
    case True
    then show ?thesis using f by (subst x264_flush.simps) auto
  next
    case False
    then have "xe_delayed env e < xe_delayed env (bc_encoder counts)"
      using assms [of "bc_encoder counts"] f by simp
    then have "x264_flush env (counts\<lparr>bc_encoder := e,
        bc_output_bytes := bc_output_bytes counts + of_int bytes,
        bc_output_frames := bc_output_frames counts + (if 0 < bytes then 1 else 0)\<rparr>) \<noteq> None"
      by (intro less.hyps) simp
    then show ?thesis using f False by (subst x264_flush.simps) simp
  qed
qed

lemma no_delay_iff:
  assumes "encode_frames c (frame_of c) n = Inr counts" "n < 2 ^ 32" "bc_delayed_calls counts = 0"
  shows "no_delay c n"
proof -
  obtain d where d: "d \<le> n" "bc_delayed_calls counts = of_nat d" "d = 0 \<longrightarrow> no_delay c n"
    using delayed_bound [OF assms(1)] by blast
  have "unat (of_nat d :: u32) = d" using d(1) assms(2) by (simp add: unat_of_nat)
  then show ?thesis using d assms(3) by simp
qed

text \<open>C23: the benchmark reports success only if nothing was delayed or reordered. When it exits with 0 other than for
  \<^verbatim>\<open>--help\<close>, the options were in range and every call of the encoder on a frame of the input, in order,
  returned that frame at once, with its own time stamp.\<close>

theorem x264_pass_sound:
  assumes "x264_exits env args 0" "x264_prepare env args = Inr (b, n)"
  shows "bench_options_ok b \<and> (\<exists>e. xe_encoder_open env (bench_params b) = Some e \<and>
    no_delay (x264_run env b n e) (bo_frames b))"
proof -
  have ok: "bench_options_ok b"
    using assms(2) bench_parse_options_ok
    by (auto simp: x264_prepare_def split: sum.split_asm option.split_asm if_split_asm)
  obtain e where e: "x264_encoder env b = Inr e"
    using assms by (cases "x264_encoder env b")
      (auto simp: x264_exits_def x264_threaded_exit_def x264_preloaded_exit_def split: if_split_asm option.split_asm sum.split_asm)
  define c where "c = x264_run env b n e"
  have "\<exists>counts. run_preloaded c = Some (Inr counts) \<and> x264_finish env b (Inr counts) = Some 0 \<and>
      whole_outcome c = Some (Inr ())"
  proof (cases "bo_preload b")
    case True
    then have "x264_preloaded_exit env b n = Some 0" using assms by (simp add: x264_exits_def)
    then obtain y where y: "run_preloaded c = Some y" "x264_finish env b y = Some 0"
      using preloaded_exit_run(1) [OF _ e] by (auto simp: c_def)
    then obtain counts where "y = Inr counts" by (cases y) (simp_all add: x264_finish_def)
    then show ?thesis using y by (auto simp: run_preloaded_def whole_outcome_def rest_outcome_def outcome_def
        split: option.split_asm sum.split_asm)
  next
    case False
    then obtain s x where s: "(bench_step c)\<^sup>*\<^sup>* (bench_start c) s" "bench_result s = Some x" "x264_finish env b x = Some 0"
      using assms e by (auto simp: x264_exits_def x264_threaded_exit_def Let_def c_def)
    then have j: "bs_main s = MT_Joined" "x = Inr (bs_counts s)"
      by (cases "bs_main s"; auto simp: bench_result_def x264_finish_def)+
    have "bench_inv c s" by (rule bench_threads.reachable_inv [OF s(1)])
    from bench_joined [OF this j(1)] bench_joined_outcome [OF this j(1)] show ?thesis using s(3) j(2) by simp
  qed
  then obtain counts where r: "run_preloaded c = Some (Inr counts)" "whole_outcome c = Some (Inr ())"
    and fin: "x264_finish env b (Inr counts) = Some 0" by blast
  have "bn_frames c = bo_frames b" by (simp add: c_def)
  then have counts: "encode_frames c (frame_of c) (bo_frames b) = Inr counts"
    using run_preloaded_frames [OF r(2)] r(1) by simp
  have "bc_delayed_calls counts = 0"
    using fin x264_flush_delayed [of env counts]
    by (auto simp: x264_finish_def x264_verdict_def split: option.split_asm sum.split_asm if_split_asm)
  then have "no_delay c (bo_frames b)"
    using no_delay_iff [OF counts] ok by (simp add: bench_options_ok_def)
  then show ?thesis using ok e by (auto simp: c_def x264_encoder_def split: if_split_asm option.split_asm)
qed

section \<open>Witnesses\<close>

definition demo_x264 :: "unit x264_env" where
  "demo_x264 = \<lparr>xe_can_open = (\<lambda>f. True), xe_replies = [Interrupted, Received 4, Received 4],
     xe_input = [1, 2, 3, 4, 5, 6, 7, 8], xe_preset_ok = True, xe_profile_ok = True,
     xe_encoder_open = (\<lambda>p. Some ()), xe_encode = (\<lambda>e i frame. (e, 3, int i, 5)),
     xe_delayed = (\<lambda>e. 0), xe_flush = (\<lambda>e. (e, 0))\<rparr>"

definition demo_bench :: bench_options where
  "demo_bench = bench_defaults\<lparr>bo_input := ''f'', bo_width := 1, bo_height := 1, bo_frames := 2, bo_preload := True\<rparr>"

definition demo_x264_args :: "string list" where
  "demo_x264_args = [''--input'', ''f'', ''--width'', ''1'', ''--height'', ''1'', ''--frames'', ''2'', ''--preload'']"

definition demo_bench_run :: "unit bench_run" where
  "demo_bench_run = x264_run demo_x264 demo_bench 4 ()"

lemma demo_prepare: "x264_prepare demo_x264 demo_x264_args = Inr (demo_bench, 4)"
  by (simp add: x264_prepare_def demo_x264_args_def bench_parse_options_def bench_value_def parse_unsigned_def
      in_range_def parse_simps demo_bench_def bench_defaults_def demo_x264_def bytes_per_frame_def checked_multiply_def)

lemma demo_bench_simps: "bo_frames demo_bench = 2" "bo_preload demo_bench"
  by (simp_all add: demo_bench_def bench_defaults_def)

lemma demo_env_simps:
  "xe_replies demo_x264 = [Interrupted, Received 4, Received 4]" "xe_input demo_x264 = [1, 2, 3, 4, 5, 6, 7, 8]"
  "xe_encode demo_x264 = (\<lambda>e i frame. (e, 3, int i, 5))" "xe_delayed demo_x264 = (\<lambda>e. 0)"
  "x264_encoder demo_x264 demo_bench = Inr ()"
  by (simp_all add: demo_x264_def x264_encoder_def)

lemma demo_read:
  "preload_frames 4 2 0 [Interrupted, Received 4, Received 4] [1, 2, 3, 4, 5, 6, 7, 8] =
    Some (Inr [1, 2, 3, 4, 5, 6, 7, 8])"
  by (simp add: eval_nat_numeral)

lemma demo_encodes:
  "run_preloaded demo_bench_run = Some (Inr \<lparr>bc_encoder = (), bc_output_bytes = 6, bc_output_frames = 2,
     bc_delayed_calls = 0, bc_encode_us = [5, 5]\<rparr>)"
proof -
  have "encode_frames demo_bench_run f 2 = Inr \<lparr>bc_encoder = (), bc_output_bytes = 6, bc_output_frames = 2,
     bc_delayed_calls = 0, bc_encode_us = [5, 5]\<rparr>" for f
    by (simp add: demo_bench_run_def numeral_2_eq_2 encode_frames.simps(2) encode_frame_def bench_counts_start_def
        demo_env_simps)
  then show ?thesis
    by (simp add: run_preloaded_def demo_bench_run_def demo_env_simps demo_bench_simps demo_read)
qed

lemma demo_preloaded: "x264_preloaded_exit demo_x264 demo_bench 4 = Some 0"
  using demo_encodes [unfolded demo_bench_run_def] x264_flush.simps [of demo_x264]
  by (simp add: x264_preloaded_exit_def demo_env_simps demo_bench_simps demo_read x264_finish_def x264_verdict_def)

text \<open>The reader fills the first slot and marks it; the main thread takes it.\<close>

lemma demo_start:
  "bench_start demo_bench_run = \<lparr>bs_slots = [[0, 0, 0, 0], [0, 0, 0, 0], [0, 0, 0, 0]],
     bs_ready = [False, False, False], bs_stop = False, bs_error = None,
     bs_replies = [Interrupted, Received 4, Received 4], bs_input = [1, 2, 3, 4, 5, 6, 7, 8],
     bs_reader = RT_Wait 0, bs_main = MT_Wait 0, bs_counts = bench_counts_start demo_bench_run\<rparr>"
  by (simp add: bench_start_def demo_bench_run_def demo_bench_simps demo_env_simps reader_loop_def main_loop_def
      kInputSlots_def numeral_3_eq_3 numeral_eq_Suc)

definition demo_read_state :: "unit bench_state" where
  "demo_read_state = (bench_start demo_bench_run)\<lparr>bs_reader := RT_Read 0 0\<rparr>"

definition demo_full_state :: "unit bench_state" where
  "demo_full_state = (bench_start demo_bench_run)\<lparr>bs_replies := [Received 4], bs_input := [5, 6, 7, 8],
     bs_slots := [[1, 2, 3, 4], [0, 0, 0, 0], [0, 0, 0, 0]], bs_reader := RT_Mark 0\<rparr>"

definition demo_marked_state :: "unit bench_state" where
  "demo_marked_state = demo_full_state\<lparr>bs_ready := [True, False, False], bs_reader := RT_Wait 1\<rparr>"

definition demo_encode_state :: "unit bench_state" where
  "demo_encode_state = demo_marked_state\<lparr>bs_main := MT_Encode 0\<rparr>"

lemma demo_run_simps:
  "bn_frames demo_bench_run = 2" "bn_bytes demo_bench_run = 4"
  by (simp_all add: demo_bench_run_def demo_bench_simps)

lemma demo_wait: "bench_reader_step demo_bench_run (bench_start demo_bench_run) = Some demo_read_state"
  by (simp add: demo_start demo_read_state_def bench_reader_step_def slot_reading_def demo_run_simps)

lemma demo_interrupted:
  "bench_reader_step demo_bench_run demo_read_state = Some (demo_read_state\<lparr>bs_replies := [Received 4, Received 4]\<rparr>)"
  by (simp add: demo_start demo_read_state_def bench_reader_step_def read_step_def)

lemma demo_filled:
  "bench_reader_step demo_bench_run (demo_read_state\<lparr>bs_replies := [Received 4, Received 4]\<rparr>) = Some demo_full_state"
  by (simp add: demo_start demo_read_state_def demo_full_state_def bench_reader_step_def read_step_def slot_reading_def
      put_def demo_run_simps)

lemma demo_marked: "bench_reader_step demo_bench_run demo_full_state = Some demo_marked_state"
  by (simp add: demo_start demo_full_state_def demo_marked_state_def bench_reader_step_def reader_loop_def demo_run_simps)

lemma demo_taken: "bench_main_step demo_bench_run demo_marked_state = Some demo_encode_state"
  by (simp add: demo_start demo_full_state_def demo_marked_state_def demo_encode_state_def bench_main_step_def)

lemma demo_encoding:
  "(bench_step demo_bench_run)\<^sup>*\<^sup>* (bench_start demo_bench_run) demo_encode_state"
  "bs_main demo_encode_state = MT_Encode 0"
proof -
  show "(bench_step demo_bench_run)\<^sup>*\<^sup>* (bench_start demo_bench_run) demo_encode_state"
    using bench_step.reader [OF demo_wait] bench_step.reader [OF demo_interrupted]
      bench_step.reader [OF demo_filled] bench_step.reader [OF demo_marked] bench_step.main [OF demo_taken]
    by (meson converse_rtranclp_into_rtranclp rtranclp.rtrancl_refl)
  show "bs_main demo_encode_state = MT_Encode 0" by (simp add: demo_encode_state_def)
qed

theorem x264_modes_agree_witness: "x264_threaded_exit demo_x264 demo_bench 4 0"
  using x264_modes_agree [OF demo_preloaded, of 0] by simp

theorem x264_pass_sound_witness: "no_delay (x264_run demo_x264 demo_bench 4 ()) 2"
  using x264_pass_sound [OF _ demo_prepare] demo_preloaded
  by (simp add: x264_exits_def demo_prepare demo_bench_simps)

theorem x264_encodes_whole_frames_witness: "bs_slots (demo_encode_state) ! 0 = [1, 2, 3, 4]"
  using x264_encodes_whole_frames [OF demo_encoding]
  by (simp add: demo_bench_run_def demo_env_simps)

theorem x264_never_hangs_witness:
  "\<exists>t. (bench_step demo_bench_run)\<^sup>*\<^sup>* (demo_encode_state) t \<and> bench_final t"
  using x264_never_hangs [OF demo_encoding(1)] by blast

end
