(* ===== verification/Media_Clock.thy ===== *)
theory Media_Clock
  imports Complex_Main Prelude
begin

text \<open>
  The clock that carries the capture times of a client to the time line of the macOS host,
  \<^verbatim>\<open>src/apps/host/macos/media/reverse-media-clock.h\<close>. The microphone renderer anchors it to the source sample
  it has just consumed; the camera maps its own capture times through the last anchor. Times are
  nanoseconds in \<^verbatim>\<open>uint64_t\<close>; the signed differences of the code are integers here, which is exact as long
  as both operands fit \<^verbatim>\<open>int64_t\<close>, as they do for every clock that was observed (\<^verbatim>\<open>clock_ok\<close>).
\<close>

record media_clock =
  rc_source :: u64
  rc_host :: u64
  rc_observed :: u64

definition int64_max :: u64 where
  "int64_max = 2 ^ 63 - 1"

definition media_clock_clear :: media_clock where
  "media_clock_clear = \<lparr>rc_source = 0, rc_host = 0, rc_observed = 0\<rparr>"

definition media_clock_active :: "media_clock \<Rightarrow> u64 \<Rightarrow> bool" where
  "media_clock_active c now \<longleftrightarrow> rc_source c \<noteq> 0 \<and> rc_observed c \<le> now \<and> now - rc_observed c < 100000000"

definition media_clock_observe :: "media_clock \<Rightarrow> u64 \<Rightarrow> u64 \<Rightarrow> u64 \<Rightarrow> bool \<times> media_clock" where
  "media_clock_observe c source host now =
     (if source = 0 \<or> int64_max < source \<or> host = 0 \<or> int64_max < host \<or> now = 0 \<or>
         100000000 < (if now \<le> host then host - now else now - host)
      then (False, media_clock_clear)
      else if media_clock_active c now \<and> (source \<le> rc_source c \<or> host \<le> rc_host c)
      then (False, media_clock_clear)
      else (True, \<lparr>rc_source = source, rc_host = host, rc_observed = now\<rparr>))"

definition media_clock_map :: "media_clock \<Rightarrow> u64 \<Rightarrow> u64 \<Rightarrow> u64" where
  "media_clock_map c source now =
     (if \<not> media_clock_active c now \<or> source = 0 \<or> int64_max < source then 0
      else
        let delta = sint source - sint (rc_source c) in
        if delta < - 150000000 \<or> 150000000 < delta \<or>
           0 < delta \<and> word_of_int (2 ^ 63 - 1 - delta) < rc_host c \<or>
           delta < 0 \<and> rc_host c \<le> word_of_int (- delta) then 0
        else
          let mapped = word_of_int (sint (rc_host c) + delta) in
          if now < mapped \<and> 100000000 < mapped - now \<or> mapped \<le> now \<and> 150000000 < now - mapped then 0
          else mapped)"

section \<open>Clocks that were observed\<close>

datatype clock_event = Clear_Clock | Observe_Clock u64 u64 u64

fun clock_step :: "clock_event \<Rightarrow> media_clock \<Rightarrow> media_clock" where
  "clock_step Clear_Clock c = media_clock_clear"
| "clock_step (Observe_Clock source host now) c = snd (media_clock_observe c source host now)"

definition clock_after :: "clock_event list \<Rightarrow> media_clock" where
  "clock_after es = fold clock_step es media_clock_clear"

definition clock_ok :: "media_clock \<Rightarrow> bool" where
  "clock_ok c \<longleftrightarrow> c = media_clock_clear \<or>
     0 < uint (rc_source c) \<and> uint (rc_source c) < 2 ^ 63 \<and> 0 < uint (rc_host c) \<and> uint (rc_host c) < 2 ^ 63"

lemma at_most_int64_max: "\<not> int64_max < x \<longleftrightarrow> uint x < 2 ^ 63"
  by (simp add: int64_max_def word_less_def not_less) linarith

lemma uint_positive: "0 < uint (x :: u64) \<longleftrightarrow> x \<noteq> 0"
  by (simp add: word_neq_0_conv word_less_def)

lemma clock_step_ok: "clock_ok c \<Longrightarrow> clock_ok (clock_step e c)"
  by (cases e) (auto simp: clock_ok_def media_clock_observe_def at_most_int64_max uint_positive)

lemma clock_after_ok: "clock_ok (clock_after es)"
proof -
  have "clock_ok (fold clock_step es c)" if "clock_ok c" for c
    using that by (induction es arbitrary: c) (simp_all add: clock_step_ok)
  then show ?thesis by (simp add: clock_after_def clock_ok_def)
qed

lemma sint_small: "uint (x :: u64) < 2 ^ 63 \<Longrightarrow> sint x = uint x"
proof -
  assume "uint x < 2 ^ 63"
  moreover have "- (2 ^ 63) \<le> uint x" by (rule order_trans [OF _ uint_ge_0]) simp
  ultimately show ?thesis by (simp add: sint_uint signed_take_bit_int_eq_self)
qed

lemma uint_word_small: "0 \<le> k \<Longrightarrow> k < 2 ^ 64 \<Longrightarrow> uint (word_of_int k :: u64) = k"
  by (simp add: uint_word_of_int)

lemma uint_minus_le: "y \<le> (x :: u64) \<Longrightarrow> uint (x - y) = uint x - uint y"
  by (metis uint_sub_lem word_le_def)

section \<open>What a mapped time is\<close>

lemma media_clock_map_exact:
  assumes ok: "clock_ok c" and r: "media_clock_map c source now = r" "r \<noteq> 0"
  shows "media_clock_active c now" "uint r = uint (rc_host c) + (uint source - uint (rc_source c))"
    "\<bar>uint source - uint (rc_source c)\<bar> \<le> 150000000"
    "- 150000000 \<le> uint r - uint now" "uint r - uint now \<le> 100000000" "uint r < 2 ^ 63"
proof -
  define d where "d = sint source - sint (rc_source c)"
  define mapped :: u64 where "mapped = word_of_int (sint (rc_host c) + d)"
  define P1 where "P1 \<longleftrightarrow> \<not> media_clock_active c now \<or> source = 0 \<or> int64_max < source"
  define P2 where "P2 \<longleftrightarrow> d < - 150000000 \<or> 150000000 < d \<or> 0 < d \<and> word_of_int (2 ^ 63 - 1 - d) < rc_host c \<or>
    d < 0 \<and> rc_host c \<le> word_of_int (- d)"
  define P3 where "P3 \<longleftrightarrow> now < mapped \<and> 100000000 < mapped - now \<or> mapped \<le> now \<and> 150000000 < now - mapped"
  have "r = (if P1 then 0 else if P2 then 0 else if P3 then 0 else mapped)"
    unfolding r(1) [symmetric] media_clock_map_def Let_def P1_def P2_def P3_def mapped_def d_def by (rule refl)
  with r(2) have p: "\<not> P1" "\<not> P2" "\<not> P3" and rm: "r = mapped" by (simp_all split: if_split_asm)
  have act: "media_clock_active c now" and src: "uint source < 2 ^ 63"
    using p(1) by (simp_all add: P1_def at_most_int64_max)
  then have c: "0 < uint (rc_source c)" "uint (rc_source c) < 2 ^ 63" "0 < uint (rc_host c)" "uint (rc_host c) < 2 ^ 63"
    using ok by (auto simp: clock_ok_def media_clock_active_def media_clock_clear_def)
  have d: "d = uint source - uint (rc_source c)" using src c(2) by (simp add: d_def sint_small)
  have b: "- 150000000 \<le> d" "d \<le> 150000000" and hi: "0 < d \<Longrightarrow> rc_host c \<le> word_of_int (2 ^ 63 - 1 - d)"
    and lo: "d < 0 \<Longrightarrow> word_of_int (- d) < rc_host c"
    using p(2) by (auto simp only: P2_def not_less not_le de_Morgan_disj de_Morgan_conj)
  have near: "now < r \<Longrightarrow> r - now \<le> 100000000" "r \<le> now \<Longrightarrow> now - r \<le> 150000000"
    using p(3) rm by (auto simp only: P3_def not_less)
  have h: "uint (rc_host c) + d < 2 ^ 63"
  proof (cases "0 < d")
    case True
    have "uint (word_of_int (2 ^ 63 - 1 - d) :: u64) = 2 ^ 63 - 1 - d"
      by (rule uint_word_small) (use b in simp_all)
    with hi [OF True, unfolded word_le_def] show ?thesis by linarith
  qed (use c(4) in simp)
  have l: "0 < uint (rc_host c) + d"
  proof (cases "d < 0")
    case True
    have "uint (word_of_int (- d) :: u64) = - d"
      by (rule uint_word_small) (use b True in simp_all)
    with lo [OF True, unfolded word_less_def] show ?thesis by linarith
  qed (use c(3) in simp)
  have ur: "uint r = uint (rc_host c) + d" "uint r < 2 ^ 63"
  proof -
    have "r = word_of_int (uint (rc_host c) + d)" using c(4) by (simp only: rm mapped_def sint_small)
    then show "uint r = uint (rc_host c) + d" using uint_word_small [of "uint (rc_host c) + d"] h l by simp
    then show "uint r < 2 ^ 63" using h by simp
  qed
  show "media_clock_active c now" by (rule act)
  show "uint r = uint (rc_host c) + (uint source - uint (rc_source c))" "uint r < 2 ^ 63" using ur d by simp_all
  show "\<bar>uint source - uint (rc_source c)\<bar> \<le> 150000000" using b d by simp
  show "- 150000000 \<le> uint r - uint now"
    using near(2) uint_minus_le [of r now] by (cases "r \<le> now") (simp_all add: word_le_def)
  show "uint r - uint now \<le> 100000000"
    using near(1) uint_minus_le [of now r] by (cases "now < r") (simp_all add: word_le_def word_less_def)
qed

text \<open>C24: a mapped capture time is close to the true one. Whatever observations and resets came before, when the clock maps a
  source time it has been anchored within the last 100 ms, the result is at most 150 ms before and 100 ms after the present,
  and if the two oscillators differ by at most 1000 ppm, so that the true host time \<^verbatim>\<open>t\<close> of a source
  time drifts by at most a thousandth of the distance from the anchor, it is off by at most 0.15 ms.\<close>

theorem media_clock_accurate:
  fixes t :: "int \<Rightarrow> real"
  assumes "clock_after es = c" "media_clock_map c source now \<noteq> 0"
    and "\<And>x. \<bar>t x - (uint (rc_host c) + (x - uint (rc_source c)))\<bar> \<le> \<bar>x - uint (rc_source c)\<bar> / 1000"
  shows "\<bar>real_of_int (uint (media_clock_map c source now)) - t (uint source)\<bar> \<le> 150000 \<and>
    - 150000000 \<le> uint (media_clock_map c source now) - uint now \<and>
    uint (media_clock_map c source now) - uint now \<le> 100000000 \<and> now - rc_observed c < 100000000"
proof -
  have "clock_ok c" using assms(1) clock_after_ok by blast
  note m = media_clock_map_exact [OF this refl assms(2)]
  have "real_of_int (uint (media_clock_map c source now)) =
      uint (rc_host c) + (uint source - uint (rc_source c))" using m(2) by simp
  moreover have "real_of_int \<bar>uint source - uint (rc_source c)\<bar> / 1000 \<le> 150000"
    using m(3) by (simp only: of_int_le_numeral_iff [symmetric, where 'a = real]) simp
  ultimately have "\<bar>real_of_int (uint (media_clock_map c source now)) - t (uint source)\<bar> \<le> 150000"
    using assms(3) [of "uint source"] by linarith
  then show ?thesis using m(1,4,5) by (simp add: media_clock_active_def)
qed

lemma demo_clock:
  "clock_after [Observe_Clock 1000000000 2030000000 2000000000] =
    \<lparr>rc_source = 1000000000, rc_host = 2030000000, rc_observed = 2000000000\<rparr>"
  by (simp add: clock_after_def media_clock_observe_def media_clock_active_def media_clock_clear_def int64_max_def)

lemma demo_clock_map:
  "media_clock_map \<lparr>rc_source = 1000000000, rc_host = 2030000000, rc_observed = 2000000000\<rparr> 995000000 2001000000 =
    2025000000"
  by (simp add: media_clock_map_def media_clock_active_def int64_max_def Let_def sint_small)

theorem media_clock_accurate_witness:
  "\<bar>2025000000 - (2030000000 + (995000000 - 1000000000) :: real)\<bar> \<le> 150000"
  using media_clock_accurate [OF demo_clock, of 995000000 2001000000 "\<lambda>x. 2030000000 + (x - 1000000000)"]
  by (simp add: demo_clock_map)

section \<open>Order\<close>

text \<open>Through one anchor, later captures stay later; and while the clock stays active, its anchors only advance.\<close>

theorem media_clock_monotone:
  assumes "clock_ok c" "media_clock_map c x now \<noteq> 0" "media_clock_map c y now' \<noteq> 0"
  shows "media_clock_map c x now < media_clock_map c y now' \<longleftrightarrow> x < y"
  using media_clock_map_exact(2) [OF assms(1) refl assms(2)] media_clock_map_exact(2) [OF assms(1) refl assms(3)]
  by (simp add: word_less_def)

theorem media_clock_advances:
  assumes "media_clock_observe c source host now = (True, c')" "media_clock_active c now"
  shows "rc_source c < rc_source c' \<and> rc_host c < rc_host c'"
  using assms by (auto simp: media_clock_observe_def split: if_split_asm)

end
