(* ===== verification/Host_Policy.thy ===== *)
theory Host_Policy
  imports Prelude
begin

text \<open>
  The small policies of the macOS host under \<^verbatim>\<open>src/apps/host/macos\<close>: who may attach to which graphical
  scope (\<^verbatim>\<open>auth/account-policy.h\<close>), which processes an audio tap may hear (\<^verbatim>\<open>media/audio-tap-policy.h\<close>),
  the idle timeouts (\<^verbatim>\<open>session/host-network-policy.h\<close>), readiness for capture and input
  (\<^verbatim>\<open>session/permission-status.h\<close>), when a key frame is forced (\<^verbatim>\<open>media/video-recovery.h\<close>), the bounded trace
  of frame times (\<^verbatim>\<open>media/frame-timing.h\<close>) and the counters of slow input (\<^verbatim>\<open>media/stream-diagnostics.h\<close>).
  A \<^verbatim>\<open>uint8_t[16]\<close> is a list of sixteen bytes; the phase is an \<^verbatim>\<open>enum\<close>, which in C may hold other numbers.
\<close>

section \<open>Accounts and graphical scopes\<close>

record account_identity =
  ai_uid :: u32
  ai_uuid :: bytes

datatype graphical_phase = ScopeUnavailable | ScopeSignIn | ScopeDesktop | Other_Phase nat

record graphical_identity =
  gi_active :: bool
  gi_generation :: u64
  gi_account :: account_identity
  gi_phase :: graphical_phase

definition empty_uuid :: bytes where
  "empty_uuid = replicate 16 0"

definition account_identity_valid :: "account_identity \<Rightarrow> bool" where
  "account_identity_valid a \<longleftrightarrow> ai_uid a \<noteq> 0 \<and> ai_uid a \<noteq> - 1 \<and> take 16 (ai_uuid a) \<noteq> empty_uuid"

definition graphical_identity_valid :: "graphical_identity \<Rightarrow> bool" where
  "graphical_identity_valid s \<longleftrightarrow>
     (if \<not> gi_active s \<or> gi_generation s = 0 then False
      else if gi_phase s = ScopeDesktop then account_identity_valid (gi_account s)
      else gi_phase s = ScopeSignIn \<and> ai_uid (gi_account s) = 0 \<and> take 16 (ai_uuid (gi_account s)) = empty_uuid)"

definition same_graphical_scope :: "graphical_identity \<Rightarrow> graphical_identity \<Rightarrow> bool" where
  "same_graphical_scope before after \<longleftrightarrow> graphical_identity_valid before \<and> graphical_identity_valid after \<and>
     gi_generation before = gi_generation after \<and> gi_phase before = gi_phase after \<and>
     ai_uid (gi_account before) = ai_uid (gi_account after) \<and>
     take 16 (ai_uuid (gi_account before)) = take 16 (ai_uuid (gi_account after))"

definition account_may_attach :: "account_identity \<Rightarrow> graphical_identity \<Rightarrow> graphical_identity \<Rightarrow> bool" where
  "account_may_attach verified before after \<longleftrightarrow>
     account_identity_valid verified \<and> same_graphical_scope before after \<and>
     (gi_phase after = ScopeSignIn \<or>
      ai_uid verified = ai_uid (gi_account after) \<and>
      take 16 (ai_uuid verified) = take 16 (ai_uuid (gi_account after)))"

definition account_sized :: "account_identity \<Rightarrow> bool" where
  "account_sized a \<longleftrightarrow> length (ai_uuid a) = 16"

text \<open>C25: attaching follows one unchanged scope and admits nobody else. An attach is allowed exactly if the verified account
  is a real one, the scope before and after the check is the very same live scope, in every field, and
  this scope is either the desktop of that same account or the sign-in window, which has no account.\<close>

theorem account_attach_exact:
  assumes "account_sized v" "account_sized (gi_account before)" "account_sized (gi_account after)"
  shows "account_may_attach v before after \<longleftrightarrow>
    ai_uid v \<notin> {0, - 1} \<and> ai_uuid v \<noteq> empty_uuid \<and> before = after \<and> gi_active after \<and> gi_generation after \<noteq> 0 \<and>
    (gi_phase after = ScopeDesktop \<and> gi_account after = v \<or>
     gi_phase after = ScopeSignIn \<and> gi_account after = \<lparr>ai_uid = 0, ai_uuid = empty_uuid\<rparr>)"
  using assms
  by (cases v; cases before; cases after; cases "gi_account before"; cases "gi_account after")
    (auto simp: account_may_attach_def same_graphical_scope_def graphical_identity_valid_def
      account_identity_valid_def account_sized_def split: if_split_asm)

definition demo_account :: account_identity where
  "demo_account = \<lparr>ai_uid = 501, ai_uuid = replicate 16 1\<rparr>"

definition demo_desktop :: graphical_identity where
  "demo_desktop = \<lparr>gi_active = True, gi_generation = 10, gi_account = demo_account, gi_phase = ScopeDesktop\<rparr>"

theorem account_attach_exact_witness:
  "account_may_attach demo_account demo_desktop demo_desktop \<and>
   \<not> account_may_attach demo_account demo_desktop (demo_desktop\<lparr>gi_generation := 11\<rparr>)"
  using account_attach_exact [of demo_account demo_desktop demo_desktop]
    account_attach_exact [of demo_account demo_desktop "demo_desktop\<lparr>gi_generation := 11\<rparr>"]
  by (simp add: demo_account_def demo_desktop_def account_sized_def empty_uuid_def)

section \<open>Taps, timeouts, readiness\<close>

definition tap_process_owned :: "u32 \<Rightarrow> int \<Rightarrow> int \<Rightarrow> u32 \<Rightarrow> u32 \<Rightarrow> bool" where
  "tap_process_owned owner caller candidate effective real \<longleftrightarrow>
     owner \<noteq> 0 \<and> 0 < candidate \<and> candidate \<noteq> caller \<and> effective = owner \<and> real = owner"

definition PLANKMacMinimumPingTimeoutMs :: u32 where "PLANKMacMinimumPingTimeoutMs = 200"
definition PLANKMacMaximumPingTimeoutMs :: u32 where "PLANKMacMaximumPingTimeoutMs = 120000"

definition valid_ping_timeout :: "u32 \<Rightarrow> bool" where
  "valid_ping_timeout ms \<longleftrightarrow> PLANKMacMinimumPingTimeoutMs \<le> ms \<and> ms \<le> PLANKMacMaximumPingTimeoutMs"

definition keep_alive_interval :: "u32 \<Rightarrow> u32" where
  "keep_alive_interval timeout_ms = (if timeout_ms < 2000 then timeout_ms div 2 else 1000)"

definition screen_input_ready :: "bool \<Rightarrow> bool \<Rightarrow> bool \<Rightarrow> bool \<Rightarrow> bool" where
  "screen_input_ready graphical screen post_event accessibility \<longleftrightarrow>
     graphical \<and> screen \<and> post_event \<and> accessibility"

text \<open>The keep-alive is sent strictly before the idle deadline, at least twice in every timeout.\<close>

theorem keep_alive_before_timeout:
  assumes "valid_ping_timeout ms"
  shows "0 < keep_alive_interval ms \<and> 2 * unat (keep_alive_interval ms) \<le> unat ms"
proof -
  have b: "200 \<le> unat ms" using assms by (simp add: valid_ping_timeout_def PLANKMacMinimumPingTimeoutMs_def word_le_nat_alt)
  have "unat (keep_alive_interval ms) = (if unat ms < 2000 then unat ms div 2 else 1000)"
    by (simp add: keep_alive_interval_def word_less_nat_alt unat_div)
  moreover from this b have "0 < unat (keep_alive_interval ms)" by simp
  ultimately show ?thesis using b by (simp add: word_less_nat_alt)
qed

section \<open>Video recovery\<close>

record video_recovery =
  vr_requested :: bool
  vr_encoding :: bool

definition recovery_begin :: "video_recovery \<Rightarrow> bool \<times> video_recovery" where
  "recovery_begin s =
     (if \<not> vr_requested s \<or> vr_encoding s then (False, s) else (True, s\<lparr>vr_encoding := True\<rparr>))"

definition recovery_sent :: "bool \<Rightarrow> bool \<Rightarrow> bool \<Rightarrow> video_recovery \<Rightarrow> video_recovery" where
  "recovery_sent key accepted evicted s =
     (if key \<and> accepted then s\<lparr>vr_requested := False\<rparr>
      else if \<not> accepted \<or> evicted then s\<lparr>vr_requested := True\<rparr> else s)"

text \<open>What happens to the state between a loss and the next key frame: the capture thread begins an encode, a frame is
  sent, the receiver asks again, or a forced encode completes.\<close>

datatype recovery_event = Begin_Recovery | Frame_Sent bool bool bool | Recovery_Requested | Encode_Completed

fun recovery_step :: "recovery_event \<Rightarrow> video_recovery \<Rightarrow> video_recovery" where
  "recovery_step Begin_Recovery s = snd (recovery_begin s)"
| "recovery_step (Frame_Sent key accepted evicted) s = recovery_sent key accepted evicted s"
| "recovery_step Recovery_Requested s = s\<lparr>vr_requested := True\<rparr>"
| "recovery_step Encode_Completed s = s\<lparr>vr_encoding := False\<rparr>"

text \<open>A request lasts until a key frame has been accepted, and at most one forced encode is outstanding.\<close>

theorem recovery_persists:
  assumes "vr_requested s" "\<And>evicted. Frame_Sent True True evicted \<notin> set es"
  shows "vr_requested (fold recovery_step es s)"
  using assms
proof (induction es arbitrary: s)
  case (Cons e es)
  have "vr_requested (recovery_step e s)"
    using Cons.prems by (cases e) (auto simp: recovery_begin_def recovery_sent_def)
  then show ?case using Cons by simp
qed simp

theorem recovery_coalesces:
  assumes "recovery_begin s = (True, t)" "Encode_Completed \<notin> set es"
  shows "fst (recovery_begin (fold recovery_step es t)) = False"
proof -
  have "vr_encoding (fold recovery_step es u)" if "vr_encoding u" for u
    using that assms(2)
  proof (induction es arbitrary: u)
    case (Cons e es)
    have "vr_encoding (recovery_step e u)"
      using Cons.prems by (cases e) (auto simp: recovery_begin_def recovery_sent_def)
    then show ?case using Cons by simp
  qed simp
  moreover have "vr_encoding t" using assms(1) by (auto simp: recovery_begin_def split: if_split_asm)
  ultimately show ?thesis by (simp add: recovery_begin_def)
qed

section \<open>Frame timing and input timing\<close>

definition PLANK_FRAME_TIMING_CAPACITY :: nat where "PLANK_FRAME_TIMING_CAPACITY = 8192"
definition PLANK_FRAME_TIMING_DURATION_NS :: u64 where "PLANK_FRAME_TIMING_DURATION_NS = 120000000000"

record frame_timing_record =
  ft_capture_ns :: u64
  ft_submitted_ns :: u64
  ft_completed_ns :: u64
  ft_handled_ns :: u64
  ft_sent_ns :: u64
  ft_pts_ns :: u64
  ft_number :: u64
  ft_bytes :: u64
  ft_in_flight :: u32
  ft_forced :: u32
  ft_key :: u32
  ft_stage :: u32
  ft_result :: int

record frame_timing =
  ft_origin_ns :: u64
  ft_wall_ns :: u64
  ft_count :: nat
  ft_records :: "frame_timing_record list"

definition frame_record_zero :: frame_timing_record where
  "frame_record_zero = \<lparr>ft_capture_ns = 0, ft_submitted_ns = 0, ft_completed_ns = 0, ft_handled_ns = 0, ft_sent_ns = 0,
     ft_pts_ns = 0, ft_number = 0, ft_bytes = 0, ft_in_flight = 0, ft_forced = 0, ft_key = 0, ft_stage = 0, ft_result = 0\<rparr>"

text \<open>\<^verbatim>\<open>calloc\<close> may fail; the trace is off unless the variable is exactly \<^verbatim>\<open>1\<close>.\<close>

definition frame_timing_create :: "string option \<Rightarrow> bool \<Rightarrow> frame_timing option" where
  "frame_timing_create enabled allocated =
     (if enabled \<noteq> Some ''1'' then None
      else if \<not> allocated then None
      else Some \<lparr>ft_origin_ns = 0, ft_wall_ns = 0, ft_count = 0,
        ft_records = replicate PLANK_FRAME_TIMING_CAPACITY frame_record_zero\<rparr>)"

text \<open>The index of the record handed out, and the trace.\<close>

definition frame_timing_append :: "frame_timing option \<Rightarrow> u64 \<Rightarrow> nat option \<times> frame_timing option" where
  "frame_timing_append trace now = (case trace of
     None \<Rightarrow> (None, None)
   | Some t \<Rightarrow>
       if now < ft_origin_ns t \<or> PLANK_FRAME_TIMING_DURATION_NS \<le> now - ft_origin_ns t \<or>
          ft_count t = PLANK_FRAME_TIMING_CAPACITY then (None, Some t)
       else (Some (ft_count t), Some (t\<lparr>ft_count := ft_count t + 1,
         ft_records := (ft_records t)[ft_count t := (ft_records t ! ft_count t)\<lparr>ft_capture_ns := now\<rparr>]\<rparr>)))"

definition frame_timing_ok :: "frame_timing \<Rightarrow> bool" where
  "frame_timing_ok t \<longleftrightarrow> ft_count t \<le> PLANK_FRAME_TIMING_CAPACITY \<and> length (ft_records t) = PLANK_FRAME_TIMING_CAPACITY"

text \<open>Records are handed out once, inside the array, and those handed out before keep their place and content.\<close>

theorem frame_timing_append_safe:
  assumes "frame_timing_ok t" "frame_timing_append (Some t) now = (i, Some u)"
  shows "frame_timing_ok u \<and> (\<forall>k < ft_count t. ft_records u ! k = ft_records t ! k) \<and>
    (\<forall>k. i = Some k \<longrightarrow> k = ft_count t \<and> k < length (ft_records u) \<and> ft_count u = Suc k \<and> ft_capture_ns (ft_records u ! k) = now)"
  using assms by (auto simp: frame_timing_append_def frame_timing_ok_def split: if_split_asm)

record input_timing =
  it_count :: u64
  it_slow :: u64
  it_maximum :: u64

definition input_timing_note :: "u64 \<Rightarrow> u64 \<Rightarrow> input_timing \<Rightarrow> input_timing" where
  "input_timing_note start end_time t =
     (if end_time < start then t
      else let elapsed = end_time - start in
        \<lparr>it_count = it_count t + 1,
         it_slow = (if 20000000 \<le> elapsed then it_slow t + 1 else it_slow t),
         it_maximum = (if it_maximum t < elapsed then elapsed else it_maximum t)\<rparr>)"

section \<open>Failure classes\<close>

definition transport_failure_lanes :: "(string \<times> string) list" where
  "transport_failure_lanes =
    [(''native input receiver failed:'', ''input-receiver-failed''),
     (''native data receiver failed:'', ''data-receiver-failed''),
     (''native data sender failed:'', ''data-sender-failed''),
     (''native video sender failed:'', ''video-sender-failed''),
     (''native audio sender failed:'', ''audio-sender-failed''),
     (''native stats sampler failed:'', ''stats-sampler-failed''),
     (''native input receiver ended while the native endpoint was active'', ''input-receiver-ended''),
     (''native data receiver ended while the native endpoint was active'', ''data-receiver-ended'')]"

definition transport_failure_class :: "string option \<Rightarrow> string" where
  "transport_failure_class err = (case err of
     None \<Rightarrow> ''none''
   | Some s \<Rightarrow>
       if s = [] then ''none''
       else if s = ''native input receiver failed: native input receive queue exhausted'' then ''input-receive-queue-exhausted''
       else if s = ''native data receiver failed: native reliable data receive queue exhausted'' then ''data-receive-queue-exhausted''
       else case find (\<lambda>(prefix, label). take (length prefix) s = prefix) transport_failure_lanes of
         None \<Rightarrow> ''other'' | Some (prefix, label) \<Rightarrow> label)"

text \<open>Whatever a peer put into the error text, one of twelve fixed labels is reported.\<close>

theorem transport_failure_class_fixed:
  "transport_failure_class err \<in> {''none'', ''input-receive-queue-exhausted'', ''data-receive-queue-exhausted'', ''other''} \<union>
    set (map snd transport_failure_lanes)"
proof (cases err)
  case (Some s)
  show ?thesis
  proof (cases "find (\<lambda>(prefix, label). take (length prefix) s = prefix) transport_failure_lanes")
    case None
    then show ?thesis using Some by (simp add: transport_failure_class_def)
  next
    case found: (Some pl)
    obtain prefix label where pl: "pl = (prefix, label)" by (cases pl)
    have "pl \<in> set transport_failure_lanes" using found by (metis find_Some_iff nth_mem)
    then have "label \<in> snd ` set transport_failure_lanes" using pl by force
    then show ?thesis using Some found pl by (simp add: transport_failure_class_def)
  qed
qed (simp add: transport_failure_class_def)

end
