(* ===== verification/Mic_Opus.thy ===== *)
theory Mic_Opus
  imports Hal_Common Mic_Queue
begin

unbundle bit_operations_syntax

text \<open>
  The microphone decoder of the macOS host, \<^verbatim>\<open>src/apps/host/macos/media/microphone-decoder.h\<close>: the check of an Opus
  packet before the system decoder sees it, the callback that supplies the one packet, and the decoding of a
  packet into exactly 10 ms of stereo. The audio converter of the system is the parameter \<^verbatim>\<open>fill\<close>.
\<close>

section \<open>Packets\<close>

definition opus_frames :: "bytes \<Rightarrow> nat" where
  "opus_frames data =
     (let frames = unat (data ! 0 AND 3) in
      if frames = 0 then 1 else if frames < 3 then 2 else if 2 \<le> length data then unat (data ! 1 AND 63) else 0)"

definition opus_samples :: "u8 \<Rightarrow> nat" where
  "opus_samples toc =
     (if toc AND 128 \<noteq> 0 then 120 * 2 ^ unat (drop_bit 3 toc AND 3)
      else if toc AND 96 = 96 then (if toc AND 8 \<noteq> 0 then 960 else 480)
      else let n = unat (drop_bit 3 toc AND 3) in if n = 3 then 2880 else 480 * 2 ^ n)"

definition opus_packet_valid :: "bytes option \<Rightarrow> bool" where
  "opus_packet_valid packet = (case packet of
     None \<Rightarrow> False
   | Some data \<Rightarrow>
       if data = [] \<or> 1275 < length data \<or> data ! 0 AND 4 = 0 then False
       else opus_frames data \<noteq> 0 \<and> opus_frames data * opus_samples (data ! 0) = 480)"

text \<open>RFC 6716, section 3.1: the samples of a frame at 48 kHz for each of the 32 configurations, and the number of frames.\<close>

definition rfc_frame_samples :: "nat list" where
  "rfc_frame_samples = concat (replicate 3 [480, 960, 1920, 2880]) @ concat (replicate 2 [480, 960]) @
     concat (replicate 4 [120, 240, 480, 960])"

definition rfc_duration :: "bytes \<Rightarrow> nat" where
  "rfc_duration data =
     (let toc = unat (hd data) in
      rfc_frame_samples ! (toc div 8) *
        (case toc mod 4 of 0 \<Rightarrow> 1 | Suc 0 \<Rightarrow> 2 | Suc (Suc 0) \<Rightarrow> 2
         | _ \<Rightarrow> (case tl data of [] \<Rightarrow> 0 | b # _ \<Rightarrow> unat b mod 64)))"

definition rfc_stereo :: "bytes \<Rightarrow> bool" where
  "rfc_stereo data \<longleftrightarrow> unat (hd data) div 4 mod 2 = 1"

text \<open>The first byte in arithmetic: \<^verbatim>\<open>config_samples\<close> is the code's computation on the configuration.\<close>

definition config_samples :: "nat \<Rightarrow> nat" where
  "config_samples n =
     (if odd (n div 16) then 120 * 2 ^ (n mod 4)
      else if odd (n div 4) \<and> odd (n div 8) then (if odd n then 960 else 480)
      else if n mod 4 = 3 then 2880 else 480 * 2 ^ (n mod 4))"

lemma config_samples_rfc: "list_all (\<lambda>n. config_samples n = rfc_frame_samples ! n) [0..<32]"
  by code_simp

lemma bit_toc: "bit (toc :: u8) n \<longleftrightarrow> odd (unat toc div 2 ^ n)"
proof -
  have "bit (unat toc) n = bit toc n" by (simp add: bit_unsigned_iff possible_bit_def)
  then show ?thesis by (simp only: bit_iff_odd [of "unat toc"])
qed

lemma and_mask_unat: "unat (b AND mask n :: u8) = unat b mod 2 ^ n"
proof -
  have "unat (take_bit n b) = take_bit n (unat b)" by (simp add: unsigned_take_bit_eq)
  then show ?thesis by (simp only: take_bit_eq_mask [symmetric] take_bit_eq_mod [of n "unat b"])
qed

lemma and_small:
  "unat (b AND 3 :: u8) = unat b mod 4" "unat (b AND 63 :: u8) = unat b mod 64"
proof -
  have "(3 :: u8) = mask 2" "(63 :: u8) = mask 6" by code_simp+
  then show "unat (b AND 3) = unat b mod 4" "unat (b AND 63) = unat b mod 64"
    using and_mask_unat [of b 2] and_mask_unat [of b 6] by simp_all
qed

lemma and_bits:
  "(toc :: u8) AND 128 = 0 \<longleftrightarrow> \<not> bit toc 7" "toc AND 8 = 0 \<longleftrightarrow> \<not> bit toc 3" "toc AND 4 = 0 \<longleftrightarrow> \<not> bit toc 2"
  using and_exp_eq_0_iff_not_bit [of toc 7] and_exp_eq_0_iff_not_bit [of toc 3] and_exp_eq_0_iff_not_bit [of toc 2]
  by simp_all

lemma and_96: "(toc :: u8) AND 96 = 96 \<longleftrightarrow> bit toc 5 \<and> bit toc 6"
proof -
  have e: "(96 :: u8) = push_bit 5 1 OR push_bit 6 1" by code_simp
  have b: "bit (96 :: u8) n \<longleftrightarrow> n = 5 \<or> n = 6" for n
    unfolding e bit_or_iff bit_push_bit_iff bit_1_iff by auto
  have m: "bit (toc AND 96) n \<longleftrightarrow> bit toc n \<and> (n = 5 \<or> n = 6)" for n
    by (simp only: bit_and_iff b)
  show ?thesis
  proof
    assume "toc AND 96 = 96"
    then show "bit toc 5 \<and> bit toc 6" using m [of 5] m [of 6] b by metis
  next
    assume "bit toc 5 \<and> bit toc 6"
    then have "bit (toc AND 96) n \<longleftrightarrow> bit (96 :: u8) n" for n unfolding m b by blast
    then show "toc AND 96 = 96" by (rule bit_eqI)
  qed
qed

lemma opus_samples_config: "opus_samples toc = config_samples (unat toc div 8)"
proof -
  have "unat (drop_bit 3 toc AND 3) = unat toc div 8 mod 4"
    by (simp add: and_small drop_bit_eq_div unat_div)
  then show ?thesis
    by (simp add: opus_samples_def config_samples_def and_bits and_96 bit_toc div_mult2_eq [symmetric] Let_def)
qed

lemma opus_samples_rfc: "opus_samples toc = rfc_frame_samples ! (unat (toc :: u8) div 8)"
proof -
  have "unat toc < 256" using unsigned_less [of toc, where 'a = nat] by simp
  then have "unat toc div 8 \<in> set [0..<32]" by simp
  then show ?thesis using config_samples_rfc by (auto simp: opus_samples_config list_all_iff)
qed

lemma opus_duration:
  assumes "data \<noteq> []"
  shows "opus_frames data * opus_samples (data ! 0) = rfc_duration data"
    "(data ! 0 AND 4 = 0) \<longleftrightarrow> \<not> rfc_stereo data"
proof -
  obtain toc rest where d: "data = toc # rest" using assms by (cases data) auto
  have "opus_frames data = (case unat (hd data) mod 4 of 0 \<Rightarrow> 1 | Suc 0 \<Rightarrow> 2 | Suc (Suc 0) \<Rightarrow> 2
      | _ \<Rightarrow> (case tl data of [] \<Rightarrow> 0 | b # _ \<Rightarrow> unat b mod 64))"
    by (auto simp: opus_frames_def d and_small Let_def split: nat.split list.split)
  then show "opus_frames data * opus_samples (data ! 0) = rfc_duration data"
    using assms by (simp add: rfc_duration_def opus_samples_rfc Let_def hd_conv_nth)
  show "(data ! 0 AND 4 = 0) \<longleftrightarrow> \<not> rfc_stereo data"
    by (simp add: d rfc_stereo_def and_bits bit_toc odd_iff_mod_2_eq_one)
qed

text \<open>C26: the packet check is that of the Opus standard: it accepts exactly the packets of one to 1275 bytes whose first
  byte, read by the table of RFC 6716, announces stereo and 480 samples in all its frames together.\<close>

theorem opus_packet_valid_iff_rfc:
  "opus_packet_valid (Some data) \<longleftrightarrow>
    data \<noteq> [] \<and> length data \<le> 1275 \<and> rfc_stereo data \<and> rfc_duration data = 480"
proof (cases "data = []")
  case False
  have "opus_frames data \<noteq> 0" if "rfc_duration data = 480"
    using that opus_duration(1) [OF False] by (metis mult_0 zero_neq_numeral)
  then show ?thesis using opus_duration [OF False] False by (auto simp: opus_packet_valid_def)
qed (simp add: opus_packet_valid_def)

section \<open>Decoding\<close>

text \<open>The callback gives the converter the packet once. A fill is what the converter did with it: how often it asked,
  its status, the frames and bytes it reports and the buffer it left.\<close>

definition opus_provide :: "bool \<Rightarrow> (nat \<times> int) \<times> bool" where
  "opus_provide supplied = (if supplied then ((0, - 7777), True) else ((1, 0), True))"

record opus_fill =
  of_requests :: nat
  of_status :: int
  of_frames :: u32
  of_bytes :: u32
  of_buffer :: "float_value list"

record 'c mic_decoder =
  md_converter :: "'c option"
  md_priming :: bool

definition mic_decoder_create :: "'c option \<Rightarrow> 'c mic_decoder option \<Rightarrow> bool \<times> 'c mic_decoder option" where
  "mic_decoder_create opened decoder = (case decoder of
     None \<Rightarrow> (False, None)
   | Some d \<Rightarrow> (opened \<noteq> None, Some \<lparr>md_converter = opened, md_priming = True\<rparr>))"

definition mic_decoder_reset :: "('c \<Rightarrow> bool \<times> 'c) \<Rightarrow> 'c mic_decoder \<Rightarrow> bool \<times> 'c mic_decoder" where
  "mic_decoder_reset converter_reset d = (case md_converter d of
     None \<Rightarrow> (False, d)
   | Some c \<Rightarrow> (case converter_reset c of (ok, c') \<Rightarrow> (ok, \<lparr>md_converter = Some c', md_priming = True\<rparr>)))"

definition mic_decoder_destroy :: "'c mic_decoder \<Rightarrow> 'c mic_decoder" where
  "mic_decoder_destroy d = (if md_converter d \<noteq> None then d\<lparr>md_converter := None\<rparr> else d)"

text \<open>The first frames a decoder gives may be short: they go to the end of the block, behind silence.\<close>

definition opus_pad :: "nat \<Rightarrow> float_value list \<Rightarrow> float_value list" where
  "opus_pad frames samples =
     (if frames < 480
      then put (put samples ((480 - frames) * 2) (take (frames * 2) samples)) 0 (replicate ((480 - frames) * 2) (Finite 0))
      else samples)"

definition mic_decode :: "('c \<Rightarrow> bytes \<Rightarrow> opus_fill \<times> 'c) \<Rightarrow> bytes option \<Rightarrow> float_value list option \<Rightarrow>
    'c mic_decoder \<Rightarrow> bool \<times> float_value list option \<times> 'c mic_decoder" where
  "mic_decode fill data samples d = (case (md_converter d, samples) of
     (Some c, Some old) \<Rightarrow>
       if \<not> opus_packet_valid data then (False, samples, d)
       else (case fill c (the data) of (r, c') \<Rightarrow>
         let d' = d\<lparr>md_converter := Some c'\<rparr>;
             supplied = ((\<lambda>s. snd (opus_provide s)) ^^ of_requests r) False;
             frames = of_frames r
         in if of_status r \<noteq> 0 \<and> of_status r \<noteq> - 7777 \<or> \<not> supplied \<or> frames = 0 \<or> 480 < frames \<or>
               \<not> md_priming d \<and> frames \<noteq> 480 \<or> of_bytes r \<noteq> frames * 2 * 4 then (False, Some (of_buffer r), d')
            else
              let out = opus_pad (unat frames) (of_buffer r) in
              (list_all isfinite (take (480 * 2) out), Some out, d'\<lparr>md_priming := False\<rparr>))
   | _ \<Rightarrow> (False, samples, d))"

lemma opus_pad_eq:
  assumes "length samples = 960" "frames \<le> 480"
  shows "opus_pad frames samples = replicate ((480 - frames) * 2) (Finite 0) @ take (frames * 2) samples"
  using assms by (cases "frames = 480") (auto simp: opus_pad_def put_def)

text \<open>a decoded block is exactly 10 ms of finite stereo on an unbroken time line. When decoding succeeds, whatever the
  converter did, the packet was a valid one, the converter took it, the block has 960 finite samples, and
  it is what the converter produced, preceded by silence only if this is the first decode since a reset; the
  next decode must be complete.\<close>

theorem mic_decode_exact:
  assumes "mic_decode fill data samples d = (True, out, d')"
    and "\<And>c p. length (of_buffer (fst (fill c p))) = 960"
  shows "\<exists>c p frames. md_converter d = Some c \<and> data = Some p \<and> opus_packet_valid data \<and>
    0 < of_requests (fst (fill c p)) \<and> 0 < frames \<and> frames \<le> 480 \<and> (md_priming d \<or> frames = 480) \<and>
    out = Some (replicate ((480 - frames) * 2) (Finite 0) @ take (frames * 2) (of_buffer (fst (fill c p)))) \<and>
    list_all isfinite (the out) \<and> length (the out) = 960 \<and> \<not> md_priming d'"
proof -
  obtain c old where c: "md_converter d = Some c" "samples = Some old" and v: "opus_packet_valid data"
    using assms(1) by (auto simp: mic_decode_def split: option.split_asm if_split_asm)
  obtain p where p: "data = Some p" using v by (cases data) (simp_all add: opus_packet_valid_def)
  obtain r c' where r: "fill c p = (r, c')" by fastforce
  have len: "length (of_buffer r) = 960" using assms(2) [of c p] r by simp
  define frames where "frames = unat (of_frames r)"
  have bad: "\<not> (of_status r \<noteq> 0 \<and> of_status r \<noteq> - 7777 \<or> \<not> ((\<lambda>s. snd (opus_provide s)) ^^ of_requests r) False \<or>
      of_frames r = 0 \<or> 480 < of_frames r \<or> \<not> md_priming d \<and> of_frames r \<noteq> 480 \<or> of_bytes r \<noteq> of_frames r * 2 * 4)"
    and o: "out = Some (opus_pad frames (of_buffer r))" "list_all isfinite (take (480 * 2) (opus_pad frames (of_buffer r)))"
      "\<not> md_priming d'"
    using assms(1) c v p r by (auto simp: mic_decode_def Let_def frames_def split: if_split_asm)
  have req: "0 < of_requests r" using bad by (cases "of_requests r") auto
  have f: "0 < frames" "frames \<le> 480" "md_priming d \<or> frames = 480"
    using bad by (auto simp: frames_def unat_gt_0 word_less_nat_alt not_less)
  have "480 * 2 - (480 - frames) * 2 = frames * 2" "(480 - frames) * 2 + frames * 2 = 960" using f(2) by simp_all
  then show ?thesis
    using c(1) p v r req f o opus_pad_eq [OF len f(2)] len
    by (intro exI [of _ c] exI [of _ p] exI [of _ frames]) simp
qed

definition demo_fill :: "unit \<Rightarrow> bytes \<Rightarrow> opus_fill \<times> unit" where
  "demo_fill c p = (\<lparr>of_requests = 2, of_status = - 7777, of_frames = 480, of_bytes = 3840,
     of_buffer = replicate 960 (Finite 0)\<rparr>, c)"

lemma funpow_2: "(f ^^ 2) x = f (f x)"
  by (simp add: numeral_2_eq_2)

lemma demo_decode:
  "mic_decode demo_fill (Some [0xf4, 0xff, 0xfe]) (Some (replicate 960 Nan)) \<lparr>md_converter = Some (), md_priming = False\<rparr> =
    (True, Some (replicate 960 (Finite 0)), \<lparr>md_converter = Some (), md_priming = False\<rparr>)"
proof -
  have "opus_packet_valid (Some [0xf4, 0xff, 0xfe])" by code_simp
  then show ?thesis
    by (simp add: mic_decode_def demo_fill_def opus_pad_def opus_provide_def funpow_2 list_all_iff)
qed

theorem mic_decode_exact_witness: "length (replicate 960 (Finite 0)) = 960 \<and> opus_packet_valid (Some [0xf4, 0xff, 0xfe])"
  using mic_decode_exact [OF demo_decode] by (simp add: demo_fill_def)

end
