(* ===== verification/Spec2Isabelle.thy ===== *)
theory Spec2Isabelle
  imports Wire_Packets Wire_Input Camera_Wire Clipboard_Wire Utf8 Encoding_Profiles X11_Main Wacom_Proofs
    Video_Gates Video_Resources Video_Encoder Camera_Payload Tap_Threads Camera_Link_Threads Mic_Queue_Proofs
    Output_Proofs Mic_Buffer_Threads Mic_Proofs X264_Main
    Media_Clock Host_Policy Mic_Opus
begin

text \<open>
  Verification of the C and C++ code of PLANK, a remote desktop: a host captures the screen, encodes it
  and sends it with audio over a QUIC transport; a client shows it and sends back input, microphone,
  camera and clipboard. The transport proper is Rust and the macOS services are Objective-C; the C
  headers both sides share, the lock-free structures of the macOS host and the measuring programs
  under \<^verbatim>\<open>src/probes\<close> are C and C++ and are what this development models.

  \<^bold>\<open>Parts and theories.\<close>

  \<^item> \<^verbatim>\<open>Prelude\<close>, \<^verbatim>\<open>Ring\<close>, \<^verbatim>\<open>Cxx_Parse\<close>, \<^verbatim>\<open>Resources\<close>, \<^verbatim>\<open>Step_System\<close>: machine words and byte images,
    ring buffers read as lists, \<^verbatim>\<open>std::stoul\<close> and its errors, traces of acquired and released handles,
    and the contracts of step relations (invariant, progress, rank).

  \<^item> The wire formats, \<^verbatim>\<open>src/protocol/plank-transport/include\<close>. \<^verbatim>\<open>Wire_Codec\<close> states the contract of an
    encoder and a decoder as locales; \<^verbatim>\<open>Wire_Packets\<close> (\<^verbatim>\<open>plank_transport_control.h\<close>, \<^verbatim>\<open>_setup.h\<close>,
    \<^verbatim>\<open>_event.h\<close>), \<^verbatim>\<open>Wire_Input\<close> (\<^verbatim>\<open>_input.h\<close>), \<^verbatim>\<open>Camera_Wire\<close> (\<^verbatim>\<open>_camera.h\<close>, \<^verbatim>\<open>_camera_encoded.h\<close>) and
    \<^verbatim>\<open>Clipboard_Wire\<close> with \<^verbatim>\<open>Utf8\<close> (\<^verbatim>\<open>plank_clipboard_wire.h\<close>) interpret them: round trips, decoders that
    accept exactly what the encoders write, bounds, and the text validator as UTF-8.
    \<^verbatim>\<open>Encoding_Profiles\<close> is the table of \<^verbatim>\<open>plank_encoding_profiles.h\<close>.

  \<^item> The X11 probe, \<^verbatim>\<open>src/probes/x11/plank-probe-x11-native10.cpp\<close>: \<^verbatim>\<open>X11_Pixels\<close> (masks, packing, image
    analysis, row-parallel unpacking), \<^verbatim>\<open>X11_Probe\<close> (the shared-memory image and both round trips, with
    their resources), \<^verbatim>\<open>X11_Main\<close> (options, capture loop, verdict). The X server's replies are parameters.

  \<^item> The Wacom bridge, \<^verbatim>\<open>src/probes/wacom/plank-wacom-raw-bridge.cpp\<close>: \<^verbatim>\<open>Byte_Io\<close> (\<^verbatim>\<open>read_all\<close>,
    \<^verbatim>\<open>write_all\<close> over partial system calls), \<^verbatim>\<open>Wacom_Frame\<close> (framing and sockets), \<^verbatim>\<open>Wacom_Bridge\<close> (the client
    and the host sessions as state-passing steps), \<^verbatim>\<open>Wacom_Proofs\<close> (the two ends composed).

  \<^item> The video probe, \<^verbatim>\<open>src/probes/video/plank-probe-video-pipeline.cpp\<close>: \<^verbatim>\<open>Ptx_Kernel\<close> (the embedded GPU
    kernels as instruction lists with an interpreter) and \<^verbatim>\<open>Pixel_Expand\<close>, \<^verbatim>\<open>Video_Encoder\<close> (kernel launch,
    pixel self-test, encoder configuration), \<^verbatim>\<open>Video_Options\<close> (the command line), \<^verbatim>\<open>Video_Resources\<close> (set-up and
    destructor), \<^verbatim>\<open>Video_Pipeline\<close> and \<^verbatim>\<open>Video_Threads\<close> (the two threads of the encode loop), \<^verbatim>\<open>Video_Gates\<close>
    (statistics, gates, exit code).

  \<^item> The x264 benchmark, \<^verbatim>\<open>src/probes/video/plank-benchmark-x264.cpp\<close>: \<^verbatim>\<open>X264_Options\<close> (command line, frame
    sizes, reads, encoder settings, statistics), \<^verbatim>\<open>X264_Threads\<close> (the reader thread and the encode loop over three
    input slots, and the preloaded run), \<^verbatim>\<open>X264_Proofs\<close> (invariant, progress, no torn frame), \<^verbatim>\<open>X264_Main\<close> (set-up,
    flush, exit code, and that both modes agree).

  \<^item> The macOS host, \<^verbatim>\<open>src/apps/host/macos\<close>: \<^verbatim>\<open>Camera_Payload\<close> (\<^verbatim>\<open>media/native-camera-payload.h\<close>, the framing
    checks before the system decoder), \<^verbatim>\<open>Tap_Buffer\<close> and \<^verbatim>\<open>Tap_Threads\<close> (\<^verbatim>\<open>media/audio-tap-buffer.h\<close>),
    \<^verbatim>\<open>Camera_Link\<close> and \<^verbatim>\<open>Camera_Link_Threads\<close> (\<^verbatim>\<open>camera-device/camera-link.h\<close>), \<^verbatim>\<open>Mic_Queue\<close> and
    \<^verbatim>\<open>Mic_Queue_Proofs\<close> (\<^verbatim>\<open>audio-device/microphone-queue.h\<close>).

  \<^item> The virtual audio devices of the macOS host, \<^verbatim>\<open>src/apps/host/macos/audio-device\<close>. \<^verbatim>\<open>Hal_Common\<close> holds what both
    Core Audio plug-ins have in common (addresses, IEEE values, clients, clock), \<^verbatim>\<open>Hal_Clients\<close> the abstract table of
    clients and its locales. \<^verbatim>\<open>Output_Driver\<close> and \<^verbatim>\<open>Output_Proofs\<close> are the loudspeaker (\<^verbatim>\<open>output-driver.c\<close>).
    \<^verbatim>\<open>Mic_Driver\<close> is the microphone (\<^verbatim>\<open>microphone-driver.c\<close>), \<^verbatim>\<open>Mic_Buffer\<close> and \<^verbatim>\<open>Mic_Buffer_Threads\<close> its sample history
    (\<^verbatim>\<open>microphone-buffer.h\<close>), undisturbed and under every interleaving, \<^verbatim>\<open>Mic_Ipc\<close> the control connection by which
    root lends it a producer (\<^verbatim>\<open>microphone-driver-ipc.h\<close>, \<^verbatim>\<open>microphone-link.h\<close>), and \<^verbatim>\<open>Mic_Proofs\<close> composes the three:
    what an IO cycle can hear, and under whose lease.

  \<^item> Smaller headers of the macOS host: \<^verbatim>\<open>Media_Clock\<close> (\<^verbatim>\<open>media/reverse-media-clock.h\<close>, the mapping of client capture
    times), \<^verbatim>\<open>Mic_Opus\<close> (\<^verbatim>\<open>media/microphone-decoder.h\<close>, the check of a packet against RFC 6716 and the decoder around the
    system's converter), \<^verbatim>\<open>Host_Policy\<close> (who may attach to which graphical scope, tap ownership, timeouts, forced key
    frames, frame and input timing, failure labels).

  \<^bold>\<open>Conventions.\<close> A definition carries the name of the function it translates, with a prefix where the
  code has one by its file or namespace. Fixed-width integers are words; sizes and loop counters that the
  code has bounded are naturals. A pointer that may be null is an option, a pointed-to object the list of
  its bytes. A call of the kernel, of a vendor library or of the X server is a parameter that says how it
  returns; a thread is a control point of a step relation whose steps are the places where threads can
  interfere, with sequentially consistent memory, as the code asks for in the structures modelled.
  History variables of the step relations are named in their theories.

  \<^bold>\<open>What the lemmas show.\<close> The decoders accept exactly the documented packets and are inverse to the
  encoders; parsers return on every input and read in bounds; the lock-free structures implement queues
  and snapshots under every interleaving; the audio plug-ins answer what they announce, keep their state in range
  and play nothing outside a lease; the threaded encode loop terminates, loses nothing and
  orders invalidation after loss; the row-parallel unpacking equals the sequential one; the handles of the
  probes are released once and in order, with the exceptions the theorems name; the programs report
  success only when what they claim holds.

  \<^bold>\<open>Bounds and fuel.\<close> No definition runs on fuel: loops recurse on a list, a count or a measure proved to
  decrease. Loops that serve a peer take the list of events the peer and the kernel deliver.

  \<^bold>\<open>Not modelled.\<close> Objective-C and Rust sources; vendored and empty directories; the probes that
  consist of calls into FFmpeg, VA-API, EGL, DRM, Wayland, PAM or Qt; log and report texts; wall
  clock arithmetic, whose results enter as parameters.
\<close>

end
